(* ===== verification/Prelude.thy ===== *)
theory Prelude
  imports Main "HOL-Library.Word"
begin

text \<open>
  Shared vocabulary of the development: the Go types the packages exchange, errors as
  values, time, 64-bit integers, and \<open>run_eqs\<close>, the collection of equations the component
  theories extend and the examples are run with.

  A Go \<open>string\<close> and a \<open>[]byte\<close> are both byte sequences, which is what HOL's \<open>string\<close>
  (a list of 8-bit characters) is. \<open>int64\<close>, \<open>int\<close> (64-bit platforms) and
  \<open>time.Duration\<close> are 64-bit words read with \<open>sint\<close>; Go's wrap-around is the word
  arithmetic. A \<open>time.Time\<close> is the number of nanoseconds since the Unix epoch, an
  unbounded \<open>int\<close>.
\<close>

named_theorems run_eqs "equations that run a component on a concrete input"

section \<open>Types\<close>

type_synonym bytes = string
type_synonym int64 = "64 word"
type_synonym duration = "64 word"
type_synonym time = int
type_synonym environ = "string \<rightharpoonup> string"

section \<open>Errors\<close>

text \<open>
  The sentinel errors the packages compare against with \<open>errors.Is\<close> or \<open>==\<close>: those the
  repository declares, then those of the libraries it inspects.
\<close>

datatype sentinel =
    ErrMiss | ErrUnavailable | ErrStoreNotFound | ErrDatabaseUnset | ErrRedisNil
  | ErrDiskNotFound | ErrInvalidPath | ErrTooLarge | ErrUnsupported
  | ErrTokenInvalid | ErrTokenExpired
  | ErrComponentNotFound | ErrDuplicate
  | ErrDBNotFound | ErrGormNotFound | ErrUCUnavailable
  | ErrSyntax | ErrRange | ErrNoRows | ErrNotExist | ErrExist | ErrServerClosed
  | ErrCanceled | ErrNoChange | ErrNilVersion | ErrRecordNotFound
  | ErrEOF | ErrUnexpectedEOF

text \<open>
  An error value: a sentinel, a message made by \<open>errors.New\<close> or \<open>fmt.Errorf\<close> (format
  and arguments), a message that wraps another error (\<open>%w\<close>), \<open>errors.Join\<close>, or the
  \<open>redisCommandError\<close> of \<open>cache/redis.go\<close>, an error type of its own.
\<close>

datatype gerr =
    Sentinel sentinel
  | Errorf string "string list"
  | Wrapf string gerr "string list"
  | Join "gerr list"
  | CommandError string

text \<open>\<open>errors.Is\<close>: look through wrapping and joining.\<close>

fun errors_Is :: "gerr \<Rightarrow> sentinel \<Rightarrow> bool" where
  "errors_Is (Sentinel a) s = (a = s)"
| "errors_Is (Errorf _ _) s = False"
| "errors_Is (Wrapf _ e _) s = errors_Is e s"
| "errors_Is (Join es) s = list_ex (\<lambda>e. errors_Is e s) es"
| "errors_Is (CommandError _) s = False"

text \<open>
  \<open>errors.Join\<close>: nil arguments are dropped, and the result is nil when nothing is left.
  \<^term>\<open>None\<close> is the nil error throughout.
\<close>

definition nonnil :: "gerr option list \<Rightarrow> gerr list" where
  "nonnil es = List.map_filter (\<lambda>e. e) es"

definition errors_Join :: "gerr option list \<Rightarrow> gerr option" where
  "errors_Join es = (if nonnil es = [] then None else Some (Join (nonnil es)))"

lemma nonnil_simps [simp]:
  "nonnil [] = []"
  "nonnil (None # es) = nonnil es"
  "nonnil (Some e # es) = e # nonnil es"
  by (simp_all add: nonnil_def)

lemma errors_Join_None [simp]: "errors_Join es = None \<longleftrightarrow> (\<forall>e \<in> set es. e = None)"
proof -
  have "nonnil es = [] \<longleftrightarrow> (\<forall>e \<in> set es. e = None)"
  proof (induction es)
    case Nil
    then show ?case by simp
  next
    case (Cons e es)
    then show ?case by (cases e) auto
  qed
  then show ?thesis by (simp add: errors_Join_def)
qed

lemma errors_Is_nonnil:
  "list_ex (\<lambda>e. errors_Is e s) (nonnil es) \<longleftrightarrow> (\<exists>e. Some e \<in> set es \<and> errors_Is e s)"
proof (induction es)
  case Nil
  then show ?case by simp
next
  case (Cons e es)
  then show ?case by (cases e) auto
qed

lemma errors_Is_Join:
  "errors_Join es = Some j \<Longrightarrow> errors_Is j s \<longleftrightarrow> (\<exists>e. Some e \<in> set es \<and> errors_Is e s)"
  by (auto simp: errors_Join_def errors_Is_nonnil split: if_splits)

text \<open>The error an operation that returns \<open>(value, error)\<close> reports, if any.\<close>

fun result_error :: "gerr + 'a \<Rightarrow> gerr option" where
  "result_error (Inl e) = Some e"
| "result_error (Inr _) = None"

text \<open>Results through \<open>map_sum\<close>.\<close>

lemma map_sum_eq_simps [simp]:
  "map_sum f g r = Inr y \<longleftrightarrow> (\<exists>x. r = Inr x \<and> y = g x)"
  "map_sum f g r = Inl e \<longleftrightarrow> (\<exists>d. r = Inl d \<and> e = f d)"
  by (cases r; auto)+

text \<open>A Go function returns or panics.\<close>

datatype 'a outcome = Panic gerr | Return 'a

section \<open>Signed 64-bit values\<close>

lemma sint_int64_bounds: "- (2 ^ 63) \<le> sint (w :: int64)" "sint (w :: int64) < 2 ^ 63"
  using sint_range_size [of w] by (simp_all add: word_size)

lemma sint_of_int64: "- (2 ^ 63) \<le> i \<Longrightarrow> i < 2 ^ 63 \<Longrightarrow> sint (word_of_int i :: int64) = i"
  by (simp add: signed_of_int signed_take_bit_int_eq_self)

lemma sint_int64_eq: "sint (a :: int64) = sint b \<longleftrightarrow> a = b"
proof
  assume "sint a = sint b"
  then have "word_of_int (sint a) = (word_of_int (sint b) :: int64)" by simp
  then show "a = b" by simp
qed simp

text \<open>Addition of two int64 wraps; it is the integer sum when the sum is representable.\<close>

lemma sint_add_int64:
  "- (2 ^ 63) \<le> sint a + sint b \<Longrightarrow> sint a + sint b < 2 ^ 63 \<Longrightarrow>
   sint (a + b :: int64) = sint a + sint b"
proof -
  assume b: "- (2 ^ 63) \<le> sint a + sint b" "sint a + sint b < 2 ^ 63"
  have "a + b = word_of_int (sint a + sint b)"
    by simp
  then show ?thesis
    by (simp only:) (rule sint_of_int64 [OF b])
qed

section \<open>Time\<close>

text \<open>
  \<open>time.Time\<close> and \<open>time.Duration\<close>. The zero time is 1 January of year 1, 00:00 UTC.
  \<open>Sub\<close> saturates at the extreme durations; \<open>UnixNano\<close> wraps to 64 bits; \<open>Unix\<close>
  rounds down to whole seconds. The monotonic part of a reading is not modelled: all
  readings come from one clock.
\<close>

definition second :: int where
  "second = 1000000000"

definition zeroTime :: time where
  "zeroTime = - 62135596800 * 1000000000"

definition IsZero :: "time \<Rightarrow> bool" where
  "IsZero t \<longleftrightarrow> t = zeroTime"

definition After :: "time \<Rightarrow> time \<Rightarrow> bool" where
  "After t u \<longleftrightarrow> u < t"

definition Add :: "time \<Rightarrow> duration \<Rightarrow> time" where
  "Add t d = t + sint d"

definition Sub :: "time \<Rightarrow> time \<Rightarrow> duration" where
  "Sub t u = word_of_int (max (- (2 ^ 63)) (min (2 ^ 63 - 1) (t - u)))"

definition UnixNano :: "time \<Rightarrow> int64" where
  "UnixNano t = word_of_int t"

definition Unix :: "time \<Rightarrow> int64" where
  "Unix t = word_of_int (t div second)"

lemmas clock_run_eqs [run_eqs] = After_def IsZero_def zeroTime_def Add_def

lemma sint_Sub: "sint (Sub t u) = max (- (2 ^ 63)) (min (2 ^ 63 - 1) (t - u))"
  unfolding Sub_def by (rule sint_of_int64) auto

lemma sint_Sub_le0 [simp]: "sint (Sub t u) \<le> 0 \<longleftrightarrow> t \<le> u"
  by (auto simp: sint_Sub)

lemma sint_UnixNano: "- (2 ^ 63) \<le> t \<Longrightarrow> t < 2 ^ 63 \<Longrightarrow> sint (UnixNano t) = t"
  unfolding UnixNano_def by (rule sint_of_int64)

section \<open>Maps\<close>

lemma map_upd_None_idem [simp]: "m k = None \<Longrightarrow> m(k := None) = m"
  by auto

end
