(* ===== verification/Strings.thy ===== *)
theory Strings
  imports Prelude
begin

text \<open>
  The functions of Go's \<open>strings\<close> package the repository calls, on byte strings:
  prefixes and suffixes, trimming, cutting, splitting, case mapping. White space is
  Unicode white space in its UTF-8 encoding. Case mapping covers ASCII and the two
  non-ASCII letters whose lower case is ASCII; other non-ASCII bytes are kept (Go maps
  non-ASCII letters to non-ASCII letters, and the code compares results with ASCII
  constants only).
\<close>

section \<open>Prefixes and suffixes\<close>

definition HasPrefix :: "string \<Rightarrow> string \<Rightarrow> bool" where
  "HasPrefix s p \<longleftrightarrow> take (length p) s = p"

definition HasSuffix :: "string \<Rightarrow> string \<Rightarrow> bool" where
  "HasSuffix s p \<longleftrightarrow> HasPrefix (rev s) (rev p)"

definition TrimPrefix :: "string \<Rightarrow> string \<Rightarrow> string" where
  "TrimPrefix s p = (if HasPrefix s p then drop (length p) s else s)"

definition TrimSuffix :: "string \<Rightarrow> string \<Rightarrow> string" where
  "TrimSuffix s p = (if HasSuffix s p then take (length s - length p) s else s)"

lemma HasPrefix_iff: "HasPrefix s p \<longleftrightarrow> (\<exists>r. s = p @ r)"
  unfolding HasPrefix_def by (metis append_eq_conv_conj append_take_drop_id)

lemma HasPrefix_append [simp]: "HasPrefix (p @ r) p"
  by (simp add: HasPrefix_def)

lemma HasPrefix_Nil [simp]: "HasPrefix s []"
  by (simp add: HasPrefix_def)

lemma HasPrefix_empty [simp]: "HasPrefix [] p \<longleftrightarrow> p = []"
  by (auto simp: HasPrefix_def)

lemma HasPrefix_Cons [simp]: "HasPrefix (c # s) (d # p) \<longleftrightarrow> c = d \<and> HasPrefix s p"
  by (auto simp: HasPrefix_def)

lemma HasPrefix_trans: "HasPrefix s p \<Longrightarrow> HasPrefix p q \<Longrightarrow> HasPrefix s q"
  by (auto simp: HasPrefix_iff)

lemma HasSuffix_iff: "HasSuffix s p \<longleftrightarrow> (\<exists>r. s = r @ p)"
proof
  assume "HasSuffix s p"
  then obtain r where "rev s = rev p @ r"
    by (auto simp: HasSuffix_def HasPrefix_iff)
  then have "s = rev r @ p"
    by (metis rev_append rev_rev_ident)
  then show "\<exists>r. s = r @ p" ..
next
  assume "\<exists>r. s = r @ p"
  then show "HasSuffix s p"
    by (auto simp: HasSuffix_def HasPrefix_iff)
qed

lemma TrimPrefix_append [simp]: "TrimPrefix (p @ r) p = r"
  by (simp add: TrimPrefix_def)

lemma TrimSuffix_append [simp]: "TrimSuffix (r @ p) p = r"
  by (auto simp: TrimSuffix_def HasSuffix_iff)

section \<open>Trimming\<close>

text \<open>\<open>strings.TrimRight\<close> with a one-byte cutset.\<close>

definition TrimRight :: "string \<Rightarrow> char \<Rightarrow> string" where
  "TrimRight s c = rev (dropWhile (\<lambda>x. x = c) (rev s))"

lemma TrimRight_last: "TrimRight s c = [] \<or> last (TrimRight s c) \<noteq> c"
proof (cases "dropWhile (\<lambda>x. x = c) (rev s)")
  case Nil
  then show ?thesis by (simp add: TrimRight_def)
next
  case (Cons x xs)
  then have "x \<noteq> c"
    by (metis (mono_tags, lifting) dropWhile_eq_Cons_conv)
  with Cons show ?thesis by (simp add: TrimRight_def)
qed

lemma TrimRight_split: "\<exists>n. s = TrimRight s c @ replicate n c"
proof -
  have "rev s = takeWhile (\<lambda>x. x = c) (rev s) @ dropWhile (\<lambda>x. x = c) (rev s)"
    by simp
  then have "s = TrimRight s c @ rev (takeWhile (\<lambda>x. x = c) (rev s))"
    unfolding TrimRight_def by (metis rev_append rev_rev_ident)
  moreover have "takeWhile (\<lambda>x. x = c) (rev s) = replicate (length (takeWhile (\<lambda>x. x = c) (rev s))) c"
    by (rule replicate_eqI [symmetric, THEN sym]) (auto dest: set_takeWhileD)
  ultimately show ?thesis
    by (metis rev_replicate)
qed

lemma TrimRight_idem [simp]: "TrimRight (TrimRight s c) c = TrimRight s c"
proof (cases "dropWhile (\<lambda>x. x = c) (rev s)")
  case Nil
  then show ?thesis by (simp add: TrimRight_def)
next
  case (Cons x xs)
  then have "x \<noteq> c"
    by (metis (mono_tags, lifting) dropWhile_eq_Cons_conv)
  with Cons show ?thesis by (simp add: TrimRight_def)
qed

text \<open>
  \<open>strings.TrimSpace\<close>. \<open>space_codes\<close> lists the UTF-8 encodings of the runes for which
  \<open>unicode.IsSpace\<close> holds. An encoding at the front of a string is its first rune, one
  at the end its last rune, because UTF-8 is self-synchronising.
\<close>

definition space_codes :: "nat list list" where
  "space_codes =
     [[32], [9], [10], [11], [12], [13], [194, 133], [194, 160], [225, 154, 128],
      [226, 128, 128], [226, 128, 129], [226, 128, 130], [226, 128, 131], [226, 128, 132],
      [226, 128, 133], [226, 128, 134], [226, 128, 135], [226, 128, 136], [226, 128, 137],
      [226, 128, 138], [226, 128, 168], [226, 128, 169], [226, 128, 175], [226, 129, 159],
      [227, 128, 128]]"

definition space_runes :: "string list" where
  "space_runes = map (map char_of) space_codes"

fun drop_runes :: "string list \<Rightarrow> string \<Rightarrow> string" where
  "drop_runes rs [] = []"
| "drop_runes rs (c # s) =
     (case find (HasPrefix (c # s)) rs of
        None \<Rightarrow> c # s
      | Some r \<Rightarrow> drop_runes rs (drop (length r - 1) s))"

definition TrimSpace :: "string \<Rightarrow> string" where
  "TrimSpace s = rev (drop_runes (map rev space_runes) (rev (drop_runes space_runes s)))"

text \<open>A string starts with no rune of \<open>rs\<close>.\<close>

definition clear_of :: "string list \<Rightarrow> string \<Rightarrow> bool" where
  "clear_of rs s \<longleftrightarrow> (\<forall>r \<in> set rs. \<not> HasPrefix s r)"

lemma find_Some_mem: "find P xs = Some x \<Longrightarrow> x \<in> set xs \<and> P x"
  by (induction xs) (auto split: if_splits)

lemma drop_runes_clear: "[] \<notin> set rs \<Longrightarrow> clear_of rs (drop_runes rs s)"
proof (induction rs s rule: drop_runes.induct)
  case (1 rs)
  then show ?case by (auto simp: clear_of_def)
next
  case (2 rs c s)
  show ?case
  proof (cases "find (HasPrefix (c # s)) rs")
    case None
    then have "clear_of rs (c # s)" by (auto simp: clear_of_def find_None_iff)
    with None show ?thesis by simp
  next
    case (Some r)
    with 2 show ?thesis by simp
  qed
qed

lemma drop_runes_of_clear: "clear_of rs s \<Longrightarrow> drop_runes rs s = s"
proof (cases s)
  case (Cons c t)
  assume "clear_of rs s"
  then have "find (HasPrefix (c # t)) rs = None"
    by (auto simp: clear_of_def find_None_iff Cons)
  with Cons show ?thesis by simp
qed simp

lemma drop_runes_suffix: "[] \<notin> set rs \<Longrightarrow> \<exists>p. s = p @ drop_runes rs s"
proof (induction rs s rule: drop_runes.induct)
  case (1 rs)
  then show ?case by simp
next
  case (2 rs c s)
  show ?case
  proof (cases "find (HasPrefix (c # s)) rs")
    case None
    then show ?thesis by auto
  next
    case (Some r)
    with 2 obtain p where "drop (length r - 1) s = p @ drop_runes rs (drop (length r - 1) s)"
      by blast
    then have "s = take (length r - 1) s @ p @ drop_runes rs (drop (length r - 1) s)"
      by (metis append_take_drop_id)
    with Some show ?thesis
      by (metis append_Cons append_assoc drop_runes.simps(2) option.simps(5))
  qed
qed

lemma clear_of_prefix: "clear_of rs s \<Longrightarrow> HasPrefix s p \<Longrightarrow> clear_of rs p"
  by (auto simp: clear_of_def dest: HasPrefix_trans)

lemma space_runes_nonempty [simp]: "[] \<notin> set space_runes" "[] \<notin> set (map rev space_runes)"
  by (simp_all add: space_runes_def space_codes_def)

text \<open>Trimming leaves no white space at either end, and trimming again changes nothing.\<close>

lemma TrimSpace_clear:
  "clear_of space_runes (TrimSpace s)"
  "clear_of (map rev space_runes) (rev (TrimSpace s))"
proof -
  define u where "u = drop_runes space_runes s"
  have "clear_of space_runes u"
    unfolding u_def by (rule drop_runes_clear) simp
  moreover have "HasPrefix u (TrimSpace s)"
  proof -
    obtain p where "rev u = p @ drop_runes (map rev space_runes) (rev u)"
      using drop_runes_suffix [OF space_runes_nonempty(2)] by blast
    then have "u = rev (drop_runes (map rev space_runes) (rev u)) @ rev p"
      by (metis rev_append rev_rev_ident)
    then show ?thesis
      unfolding TrimSpace_def u_def by (metis HasPrefix_append)
  qed
  ultimately show "clear_of space_runes (TrimSpace s)"
    by (rule clear_of_prefix)
  show "clear_of (map rev space_runes) (rev (TrimSpace s))"
    unfolding TrimSpace_def rev_rev_ident by (rule drop_runes_clear [OF space_runes_nonempty(2)])
qed

lemma TrimSpace_idem [simp]: "TrimSpace (TrimSpace s) = TrimSpace s"
  using TrimSpace_clear [of s] by (simp add: TrimSpace_def [of "TrimSpace s"] drop_runes_of_clear)

lemma TrimSpace_Nil [simp]: "TrimSpace [] = []"
  by (simp add: TrimSpace_def)

text \<open>
  A graphic ASCII character neither starts nor ends a space rune, so a string with such ends
  is not trimmed.
\<close>

definition graphic :: "char \<Rightarrow> bool" where
  "graphic c \<longleftrightarrow> 33 \<le> (of_char c :: nat) \<and> (of_char c :: nat) \<le> 126"

lemma space_rune_ends:
  "\<forall>r \<in> set space_runes. r \<noteq> [] \<and> \<not> graphic (hd r) \<and> \<not> graphic (last r)"
  unfolding space_runes_def space_codes_def by (simp add: graphic_def)

lemma HasPrefix_hd: "HasPrefix s r \<Longrightarrow> r \<noteq> [] \<Longrightarrow> s \<noteq> [] \<and> hd s = hd r"
  by (cases s; cases r) auto

lemma clear_front:
  assumes "s = [] \<or> graphic (hd s)"
  shows "clear_of space_runes s"
  unfolding clear_of_def
proof (intro ballI notI)
  fix r assume "r \<in> set space_runes" "HasPrefix s r"
  with space_rune_ends HasPrefix_hd [of s r] assms show False by metis
qed

lemma clear_back:
  assumes "s = [] \<or> graphic (last s)"
  shows "clear_of (map rev space_runes) (rev s)"
  unfolding clear_of_def
proof (intro ballI notI)
  fix r assume "r \<in> set (map rev space_runes)" "HasPrefix (rev s) r"
  then obtain q where q: "r = rev q" "q \<in> set space_runes" by auto
  then have "q \<noteq> []" "\<not> graphic (last q)" using space_rune_ends by auto
  with q(1) HasPrefix_hd [of "rev s" r] \<open>HasPrefix (rev s) r\<close> assms show False
    by (metis hd_rev rev_is_Nil_conv)
qed

lemma TrimSpace_graphic:
  "s = [] \<or> graphic (hd s) \<and> graphic (last s) \<Longrightarrow> TrimSpace s = s"
  using drop_runes_of_clear [OF clear_front, of s] drop_runes_of_clear [OF clear_back, of s]
  by (auto simp: TrimSpace_def)

lemma drop_runes_all:
  "[] \<notin> set rs \<Longrightarrow> drop_runes rs s = [] \<Longrightarrow> s \<noteq> [] \<Longrightarrow> \<exists>r \<in> set rs. last s = last r"
proof (induction rs s rule: drop_runes.induct)
  case (2 rs c s)
  from 2(3) obtain r where r: "find (HasPrefix (c # s)) rs = Some r" "drop_runes rs (drop (length r - 1) s) = []"
    by (auto split: option.splits)
  then have hp: "r \<in> set rs" "HasPrefix (c # s) r" using find_Some_mem by metis+
  with 2(2) obtain r' w where w: "r = c # r'" "s = r' @ w"
    by (cases r) (auto simp: HasPrefix_iff)
  show ?case
  proof (cases "w = []")
    case True
    with w have "last (c # s) = last r" by simp
    with hp(1) show ?thesis by blast
  next
    case False
    with 2(1) [OF r(1) 2(2) r(2)] w show ?thesis by simp
  qed
qed simp

lemma TrimSpace_nonempty:
  assumes "s \<noteq> []" "graphic (last s)"
  shows "TrimSpace s \<noteq> []"
proof -
  let ?x = "drop_runes space_runes s"
  have "\<exists>p. s = p @ ?x" by (rule drop_runes_suffix) simp
  then obtain p where p: "s = p @ ?x" ..
  have nz: "?x \<noteq> []"
  proof
    assume "?x = []"
    then have "\<exists>r \<in> set space_runes. last s = last r"
      using assms(1) by (intro drop_runes_all) simp_all
    with space_rune_ends assms(2) show False by metis
  qed
  with p assms(2) have "graphic (last ?x)" by (metis last_appendR)
  then have "drop_runes (map rev space_runes) (rev ?x) = rev ?x"
    by (intro drop_runes_of_clear clear_back) simp
  with nz show ?thesis by (simp add: TrimSpace_def)
qed

section \<open>Case mapping\<close>

definition lower_char :: "char \<Rightarrow> char" where
  "lower_char c = (let n = of_char c :: nat in if 65 \<le> n \<and> n \<le> 90 then char_of (n + 32) else c)"

definition upper_char :: "char \<Rightarrow> char" where
  "upper_char c = (let n = of_char c :: nat in if 97 \<le> n \<and> n \<le> 122 then char_of (n - 32) else c)"

text \<open>
  U+0130 (bytes C4 B0) has the lower case \<open>i\<close>, U+212A (bytes E2 84 AA, the Kelvin sign)
  the lower case \<open>k\<close>.
\<close>

fun ToLower :: "string \<Rightarrow> string" where
  "ToLower [] = []"
| "ToLower (c # s) =
     (if HasPrefix (c # s) [CHR 0xC4, CHR 0xB0] then CHR ''i'' # ToLower (drop 1 s)
      else if HasPrefix (c # s) [CHR 0xE2, CHR 0x84, CHR 0xAA] then CHR ''k'' # ToLower (drop 2 s)
      else lower_char c # ToLower s)"

text \<open>
  U+0131 (dotless i, bytes C4 B1) has the upper case \<open>I\<close>, U+017F (long s, bytes C5 BF)
  the upper case \<open>S\<close>.
\<close>

fun ToUpper :: "string \<Rightarrow> string" where
  "ToUpper [] = []"
| "ToUpper (c # s) =
     (if HasPrefix (c # s) [CHR 0xC4, CHR 0xB1] then CHR ''I'' # ToUpper (drop 1 s)
      else if HasPrefix (c # s) [CHR 0xC5, CHR 0xBF] then CHR ''S'' # ToUpper (drop 1 s)
      else upper_char c # ToUpper s)"

text \<open>
  \<open>strings.EqualFold\<close>: equality under simple folding. The Kelvin sign folds with \<open>k\<close>,
  the long s with \<open>s\<close>; both strings are mapped to folding representatives.
\<close>

fun fold_case :: "string \<Rightarrow> string" where
  "fold_case [] = []"
| "fold_case (c # s) =
     (if HasPrefix (c # s) [CHR 0xE2, CHR 0x84, CHR 0xAA] then CHR ''k'' # fold_case (drop 2 s)
      else if HasPrefix (c # s) [CHR 0xC5, CHR 0xBF] then CHR ''s'' # fold_case (drop 1 s)
      else lower_char c # fold_case s)"

definition EqualFold :: "string \<Rightarrow> string \<Rightarrow> bool" where
  "EqualFold s t \<longleftrightarrow> fold_case s = fold_case t"

section \<open>Cutting, splitting, replacing, joining\<close>

text \<open>\<open>strings.Cut\<close>: around the first occurrence of the separator.\<close>

fun Cut :: "string \<Rightarrow> string \<Rightarrow> (string \<times> string) option" where
  "Cut [] sep = (if sep = [] then Some ([], []) else None)"
| "Cut (c # s) sep =
     (if HasPrefix (c # s) sep then Some ([], drop (length sep) (c # s))
      else map_option (\<lambda>(b, a). (c # b, a)) (Cut s sep))"

lemma Cut_append: "Cut s sep = Some (b, a) \<Longrightarrow> s = b @ sep @ a"
proof (induction s arbitrary: b)
  case Nil
  then show ?case by (auto split: if_splits)
next
  case (Cons c s)
  show ?case
  proof (cases "HasPrefix (c # s) sep")
    case True
    with Cons.prems show ?thesis
      by (auto simp: HasPrefix_iff)
  next
    case False
    with Cons.prems obtain b' where "b = c # b'" "Cut s sep = Some (b', a)"
      by auto
    with Cons.IH show ?thesis by simp
  qed
qed

lemma Cut_before_free:
  "Cut s [x] = Some (b, a) \<Longrightarrow> x \<notin> set b"
proof (induction s arbitrary: b)
  case Nil
  then show ?case by simp
next
  case (Cons c s)
  then show ?case by (cases "c = x") auto
qed

lemma Cut_char: "x \<notin> set b \<Longrightarrow> Cut (b @ x # a) [x] = Some (b, a)"
  by (induction b) auto

lemma Cut_None: "Cut s [x] = None \<longleftrightarrow> x \<notin> set s"
  by (induction s) auto

text \<open>\<open>strings.Split\<close> with a one-byte separator: never empty.\<close>

fun Split :: "string \<Rightarrow> char \<Rightarrow> string list" where
  "Split [] x = [[]]"
| "Split (c # s) x =
     (if c = x then [] # Split s x
      else (case Split s x of [] \<Rightarrow> [[c]] | p # ps \<Rightarrow> (c # p) # ps))"

definition ReplaceChar :: "string \<Rightarrow> char \<Rightarrow> char \<Rightarrow> string" where
  "ReplaceChar s old new = map (\<lambda>c. if c = old then new else c) s"

text \<open>\<open>strings.Join\<close>.\<close>

fun JoinWith :: "string list \<Rightarrow> string \<Rightarrow> string" where
  "JoinWith [] sep = []"
| "JoinWith [p] sep = p"
| "JoinWith (p # q # ps) sep = p @ sep @ JoinWith (q # ps) sep"

lemma Split_not_Nil [simp]: "Split s x \<noteq> []"
  by (induction s) (auto split: list.splits)

lemma JoinWith_Cons: "ps \<noteq> [] \<Longrightarrow> JoinWith (p # ps) sep = p @ sep @ JoinWith ps sep"
  by (cases ps) auto

lemma Split_free: "p \<in> set (Split s x) \<Longrightarrow> x \<notin> set p"
  by (induction s arbitrary: p) (fastforce split: if_splits list.splits)+

lemma JoinWith_Split: "JoinWith (Split s x) [x] = s"
proof (induction s)
  case Nil
  then show ?case by simp
next
  case (Cons c s)
  obtain p ps where ps: "Split s x = p # ps"
    by (cases "Split s x") auto
  with Cons show ?case
    by (cases ps) (auto simp: JoinWith_Cons)
qed

lemma Split_of_free: "x \<notin> set p \<Longrightarrow> Split p x = [p]"
  by (induction p) auto

lemma Split_append: "x \<notin> set p \<Longrightarrow> Split (p @ x # s) x = p # Split s x"
  by (induction p) auto

lemma Split_JoinWith:
  "ps \<noteq> [] \<Longrightarrow> \<forall>p \<in> set ps. x \<notin> set p \<Longrightarrow> Split (JoinWith ps [x]) x = ps"
proof (induction ps)
  case (Cons p ps)
  then show ?case
    by (cases ps) (auto simp: Split_of_free Split_append)
qed simp

end
