(* ===== verification/Strconv.thy ===== *)
theory Strconv
  imports Strings
begin

text \<open>
  The functions of Go's \<open>strconv\<close> package the repository calls, base 10:
  \<open>FormatInt\<close>, \<open>FormatUint\<close>, \<open>ParseUint\<close>, \<open>ParseInt\<close>, \<open>Atoi\<close>, \<open>ParseBool\<close>.
  A parse returns the value and the error together, as in Go: on \<open>ErrRange\<close> the value is
  the nearest representable one, on \<open>ErrSyntax\<close> it is 0.
\<close>

section \<open>Digits\<close>

definition is_digit :: "char \<Rightarrow> bool" where
  "is_digit c \<longleftrightarrow> 48 \<le> (of_char c :: nat) \<and> (of_char c :: nat) \<le> 57"

definition digit_val :: "char \<Rightarrow> nat" where
  "digit_val c = of_char c - 48"

definition digit_char :: "nat \<Rightarrow> char" where
  "digit_char d = char_of (48 + d)"

lemma digit_char [simp]:
  assumes "d < 10"
  shows "is_digit (digit_char d)" "digit_val (digit_char d) = d"
proof -
  have "(of_char (char_of (48 + d) :: char) :: nat) = 48 + d"
    using assms by simp
  with assms show "is_digit (digit_char d)" "digit_val (digit_char d) = d"
    by (simp_all add: is_digit_def digit_char_def digit_val_def)
qed

section \<open>Formatting\<close>

fun nat_digits :: "nat \<Rightarrow> string" where
  "nat_digits n = (if n < 10 then [digit_char n] else nat_digits (n div 10) @ [digit_char (n mod 10)])"

declare nat_digits.simps [simp del]

definition format_int :: "int \<Rightarrow> string" where
  "format_int i = (if i < 0 then CHR ''-'' # nat_digits (nat (- i)) else nat_digits (nat i))"

definition FormatInt :: "int64 \<Rightarrow> string" where
  "FormatInt w = format_int (sint w)"

definition FormatUint :: "64 word \<Rightarrow> string" where
  "FormatUint w = nat_digits (unat w)"

lemma nat_digits_nonempty [simp]: "nat_digits n \<noteq> []"
  by (subst nat_digits.simps) simp

lemma nat_digits_digit: "c \<in> set (nat_digits n) \<Longrightarrow> is_digit c"
proof (induction n rule: nat_digits.induct)
  case (1 n)
  then show ?case
    by (cases "n < 10") (auto simp: nat_digits.simps [of n])
qed

text \<open>\<open>hex.EncodeToString\<close>.\<close>

definition hex_digit :: "nat \<Rightarrow> char" where
  "hex_digit d = (if d < 10 then char_of (48 + d) else char_of (87 + d))"

definition EncodeToString :: "bytes \<Rightarrow> string" where
  "EncodeToString bs = concat (map (\<lambda>b. [hex_digit (of_char b div 16), hex_digit (of_char b mod 16)]) bs)"

section \<open>Parsing\<close>

text \<open>
  The loop of \<open>ParseUint\<close>. \<open>mx\<close> is the largest value of the width. The overflow test
  comes before the next character is looked at, so a string that overflows first and holds a
  bad character later is a range error.
\<close>

definition uint_cutoff :: nat where
  "uint_cutoff = (2 ^ 64 - 1) div 10 + 1"

fun parse_digits :: "nat \<Rightarrow> string \<Rightarrow> nat \<Rightarrow> nat \<times> sentinel option" where
  "parse_digits mx [] n = (n, None)"
| "parse_digits mx (c # cs) n =
     (if \<not> is_digit c then (0, Some ErrSyntax)
      else if uint_cutoff \<le> n then (mx, Some ErrRange)
      else let n1 = n * 10 + digit_val c in
           if mx < n1 then (mx, Some ErrRange) else parse_digits mx cs n1)"

definition parse_uint :: "string \<Rightarrow> nat \<Rightarrow> nat \<times> sentinel option" where
  "parse_uint s bits =
     (if s = [] then (0, Some ErrSyntax)
      else parse_digits (2 ^ bits - 1) s 0)"

text \<open>\<open>ParseInt\<close>: the sign, then \<open>ParseUint\<close>, then the signed range check.\<close>

definition parse_int :: "string \<Rightarrow> nat \<Rightarrow> int \<times> sentinel option" where
  "parse_int s bits =
     (case s of [] \<Rightarrow> (0, Some ErrSyntax)
      | c # cs \<Rightarrow>
        let neg = (c = CHR ''-'');
            body = (if c = CHR ''+'' \<or> c = CHR ''-'' then cs else s) in
        case parse_uint body bits of (un, err) \<Rightarrow>
          if err \<noteq> None \<and> err \<noteq> Some ErrRange then (0, err)
          else if \<not> neg \<and> 2 ^ (bits - 1) \<le> un then (2 ^ (bits - 1) - 1, Some ErrRange)
          else if neg \<and> 2 ^ (bits - 1) < un then (- (2 ^ (bits - 1)), Some ErrRange)
          else (if neg then - int un else int un, None))"

text \<open>The \<open>*NumError\<close> that wraps the cause.\<close>

definition num_error :: "string \<Rightarrow> string \<Rightarrow> sentinel option \<Rightarrow> gerr option" where
  "num_error fn s e = map_option (\<lambda>x. Wrapf ''strconv.%s: parsing %q: %w'' (Sentinel x) [fn, s]) e"

definition ParseInt :: "string \<Rightarrow> nat \<Rightarrow> int64 \<times> gerr option" where
  "ParseInt s bits = (case parse_int s bits of (i, e) \<Rightarrow> (word_of_int i, num_error ''ParseInt'' s e))"

definition ParseUint :: "string \<Rightarrow> nat \<Rightarrow> 64 word \<times> gerr option" where
  "ParseUint s bits = (case parse_uint s bits of (n, e) \<Rightarrow> (of_nat n, num_error ''ParseUint'' s e))"

definition Atoi :: "string \<Rightarrow> int64 \<times> gerr option" where
  "Atoi s = (case parse_int s 64 of (i, e) \<Rightarrow> (word_of_int i, num_error ''Atoi'' s e))"

definition ParseBool :: "string \<Rightarrow> bool \<times> gerr option" where
  "ParseBool s =
     (if s \<in> {''1'', ''t'', ''T'', ''true'', ''TRUE'', ''True''} then (True, None)
      else if s \<in> {''0'', ''f'', ''F'', ''false'', ''FALSE'', ''False''} then (False, None)
      else (False, num_error ''ParseBool'' s (Some ErrSyntax)))"

section \<open>Round trip\<close>

lemma num_error_None [simp]: "num_error fn s e = None \<longleftrightarrow> e = None" "num_error fn s None = None"
  by (simp_all add: num_error_def)

lemma parse_digits_append:
  "parse_digits mx (xs @ ys) n =
     (case parse_digits mx xs n of (m, None) \<Rightarrow> parse_digits mx ys m | r \<Rightarrow> r)"
  by (induction mx xs n rule: parse_digits.induct) (auto simp: Let_def)

lemma parse_digits_nat_digits: "n \<le> mx \<Longrightarrow> mx < 2 ^ 64 \<Longrightarrow> parse_digits mx (nat_digits n) 0 = (n, None)"
proof (induction n rule: nat_digits.induct)
  case (1 n)
  show ?case
  proof (cases "n < 10")
    case True
    with 1 show ?thesis
      by (subst nat_digits.simps) (simp add: uint_cutoff_def)
  next
    case False
    from 1 have lt: "n div 10 < uint_cutoff"
      by (auto simp: uint_cutoff_def)
    have "parse_digits mx (nat_digits (n div 10)) 0 = (n div 10, None)"
      by (rule "1.IH") (use False "1.prems" in auto)
    with False lt "1.prems" show ?thesis
      by (subst nat_digits.simps) (simp add: parse_digits_append)
  qed
qed

lemma nat_digits_hd: "hd (nat_digits n) \<noteq> CHR ''-''" "hd (nat_digits n) \<noteq> CHR ''+''"
proof -
  have "is_digit (hd (nat_digits n))"
    by (rule nat_digits_digit [OF hd_in_set]) simp
  then show "hd (nat_digits n) \<noteq> CHR ''-''" "hd (nat_digits n) \<noteq> CHR ''+''"
    by (auto simp: is_digit_def)
qed

lemma parse_int_format_int:
  assumes "- (2 ^ 63) \<le> i" "i < 2 ^ 63"
  shows "parse_int (format_int i) 64 = (i, None)"
proof (cases "i < 0")
  case True
  have "parse_uint (nat_digits (nat (- i))) 64 = (nat (- i), None)"
    unfolding parse_uint_def using assms by (auto intro!: parse_digits_nat_digits)
  with True assms show ?thesis
    by (simp add: format_int_def parse_int_def)
next
  case False
  obtain c cs where ds: "nat_digits (nat i) = c # cs"
    by (cases "nat_digits (nat i)") auto
  then have "c \<noteq> CHR ''-''" "c \<noteq> CHR ''+''"
    using nat_digits_hd [of "nat i"] by auto
  moreover have "parse_uint (c # cs) 64 = (nat i, None)"
    unfolding parse_uint_def ds [symmetric] using assms by (auto intro!: parse_digits_nat_digits)
  ultimately show ?thesis
    using False assms by (simp add: format_int_def parse_int_def ds nat_less_iff)
qed

lemma ParseInt_FormatInt [simp]: "ParseInt (FormatInt w) 64 = (w, None)"
  using parse_int_format_int [OF sint_int64_bounds, of w]
  by (simp add: ParseInt_def FormatInt_def)

lemma Atoi_FormatInt [simp]: "Atoi (FormatInt w) = (w, None)"
  using parse_int_format_int [OF sint_int64_bounds, of w]
  by (simp add: Atoi_def FormatInt_def)

end
