(* ===== verification/Cache_API.thy ===== *)
theory Cache_API
  imports Strconv
begin

text \<open>
  The interface \<open>cache.Cache\<close> of \<open>cache/cache.go\<close>, the key scheme of \<open>Key\<close>, and the
  contract a store promises its clients.

  A Go interface value is a record of its methods. \<open>'s\<close> is the state behind the value and
  \<open>'e\<close> what one call reads from its surroundings: the clock, the answers of a driver. Each
  call has its own \<open>'e\<close>, so two calls made one after the other may read different times.
\<close>

section \<open>The interface\<close>

record ('e, 's) cache =
  cGet :: "'e \<Rightarrow> string \<Rightarrow> 's \<Rightarrow> (gerr + bytes) \<times> 's"
  cSet :: "'e \<Rightarrow> string \<Rightarrow> bytes \<Rightarrow> duration \<Rightarrow> 's \<Rightarrow> gerr option \<times> 's"
  cTake :: "'e \<Rightarrow> string \<Rightarrow> 's \<Rightarrow> (gerr + bytes) \<times> 's"
  cExists :: "'e \<Rightarrow> string \<Rightarrow> 's \<Rightarrow> (gerr + bool) \<times> 's"
  cIncrement :: "'e \<Rightarrow> string \<Rightarrow> int64 \<Rightarrow> duration \<Rightarrow> 's \<Rightarrow> (gerr + int64) \<times> 's"
  cTTL :: "'e \<Rightarrow> string \<Rightarrow> 's \<Rightarrow> (gerr + duration) \<times> 's"
  cDelete :: "'e \<Rightarrow> string \<Rightarrow> 's \<Rightarrow> gerr option \<times> 's"
  cClose :: "'e \<Rightarrow> 's \<Rightarrow> gerr option \<times> 's"

text \<open>The error every store returns for an absent key.\<close>

abbreviation miss :: "gerr + 'a" where
  "miss \<equiv> Inl (Sentinel ErrMiss)"

section \<open>Keys\<close>

definition Key :: "string \<Rightarrow> string \<Rightarrow> string" where
  "Key prefix key =
     (let prefix = TrimRight prefix CHR '':'' in
      if prefix = [] then key else prefix @ '':'' @ key)"

lemma Key_inject [simp]: "Key p k = Key p k' \<longleftrightarrow> k = k'"
  by (simp add: Key_def Let_def)

lemma Key_TrimRight [simp]: "Key (TrimRight p CHR '':'') k = Key p k"
  by (simp add: Key_def)

lemma Key_comp: "TrimRight p CHR '':'' \<noteq> [] \<Longrightarrow> TrimRight q CHR '':'' \<noteq> [] \<Longrightarrow>
  Key p (Key q k) = Key (p' @ '':'' @ q) k" if "p' = TrimRight p CHR '':''"
proof -
  assume p: "TrimRight p CHR '':'' \<noteq> []" and q: "TrimRight q CHR '':'' \<noteq> []"
  have "dropWhile (\<lambda>x. x = CHR '':'') (rev q) \<noteq> []"
    using q by (simp add: TrimRight_def)
  then have "TrimRight (p' @ '':'' @ q) CHR '':'' = p' @ '':'' @ TrimRight q CHR '':''"
    unfolding TrimRight_def by (auto simp: dropWhile_append)
  with p q that show ?thesis
    by (simp add: Key_def Let_def)
qed

section \<open>The contract\<close>

text \<open>
  A store is a map from keys to values with an optional expiry instant. An entry counts only
  before its instant; whether a dead entry is still held is the store's business.
\<close>

type_synonym entry = "bytes \<times> time option"

definition alive :: "time \<Rightarrow> entry \<Rightarrow> bool" where
  "alive t en \<longleftrightarrow> (case snd en of None \<Rightarrow> True | Some u \<Rightarrow> t < u)"

definition live :: "(string \<rightharpoonup> entry) \<Rightarrow> time \<Rightarrow> string \<rightharpoonup> entry" where
  "live m t k = (case m k of None \<Rightarrow> None | Some en \<Rightarrow> if alive t en then Some en else None)"

definition expiry :: "time \<Rightarrow> duration \<Rightarrow> time option \<Rightarrow> time option" where
  "expiry t ttl old = (if 0 < sint ttl then Some (t + sint ttl) else old)"

text \<open>From instant \<open>t\<close> on, the two maps cannot be told apart.\<close>

definition same_from :: "time \<Rightarrow> (string \<rightharpoonup> entry) \<Rightarrow> (string \<rightharpoonup> entry) \<Rightarrow> bool" where
  "same_from t m m' \<longleftrightarrow> (\<forall>u k. t \<le> u \<longrightarrow> live m' u k = live m u k)"

lemma same_from_refl [simp]: "same_from t m m"
  by (simp add: same_from_def)

lemma same_from_trans: "same_from t m m' \<Longrightarrow> same_from u m' m'' \<Longrightarrow> t \<le> u \<Longrightarrow> same_from u m m''"
  unfolding same_from_def by (metis order_trans)

lemma same_from_live: "same_from t m m' \<Longrightarrow> t \<le> u \<Longrightarrow> live m' u k = live m u k"
  by (simp add: same_from_def)

lemma live_mono: "live m u k = Some en \<Longrightarrow> t \<le> u \<Longrightarrow> live m t k = Some en"
  by (auto simp: live_def alive_def split: option.splits if_splits)

lemma dead_mono: "live m t k = None \<Longrightarrow> t \<le> u \<Longrightarrow> live m u k = None"
  using live_mono [of m u k _ t] by (cases "live m u k") auto

text \<open>Dropping a dead entry cannot be told apart from keeping it.\<close>

lemma same_from_drop_dead: "live m t k = None \<Longrightarrow> same_from t m (m(k := None))"
  unfolding same_from_def by (auto simp: live_def alive_def split: option.splits if_splits)

lemma live_upd:
  "live (m(k := x)) t k' =
     (if k' = k then (case x of None \<Rightarrow> None | Some en \<Rightarrow> if alive t en then Some en else None)
      else live m t k')"
  by (simp add: live_def)

lemma alive_expiry:
  "t \<le> u \<Longrightarrow> alive u (v, expiry t ttl None) \<longleftrightarrow> (0 < sint ttl \<longrightarrow> u < t + sint ttl)"
  by (simp add: alive_def expiry_def)

text \<open>What the contract says about one result, for an entry that is live or not.\<close>

definition ttl_result :: "time \<Rightarrow> entry option \<Rightarrow> gerr + duration \<Rightarrow> bool" where
  "ttl_result t en r \<longleftrightarrow>
     (case en of
        None \<Rightarrow> r = miss
      | Some (v, None) \<Rightarrow> r = Inr 0
      | Some (v, Some u) \<Rightarrow> (\<exists>d. r = Inr d \<and> sint d = min (2 ^ 63 - 1) (u - t)))"

definition get_result :: "entry option \<Rightarrow> gerr + bytes" where
  "get_result en = (case en of None \<Rightarrow> miss | Some (v, x) \<Rightarrow> Inr v)"

lemma get_result_simps [simp]: "get_result None = miss" "get_result (Some (v, x)) = Inr v"
  by (simp_all add: get_result_def)

text \<open>
  The result of \<open>Increment\<close> and the map after it. \<open>en\<close> is the live entry, if any; the
  counter starts at 0, the expiry of an existing entry is kept when no positive \<open>ttl\<close> is
  given.
\<close>

definition incr_spec :: "time \<Rightarrow> int64 \<Rightarrow> duration \<Rightarrow> entry option \<Rightarrow> gerr + (int64 \<times> entry)" where
  "incr_spec t delta ttl en =
     (case en of
        None \<Rightarrow> Inr (delta, (FormatInt delta, expiry t ttl None))
      | Some (v, x) \<Rightarrow>
          (case ParseInt v 64 of
             (n, Some e) \<Rightarrow> Inl e
           | (n, None) \<Rightarrow> Inr (n + delta, (FormatInt (n + delta), expiry t ttl x))))"

text \<open>
  \<open>ok e\<close> says the surroundings let the call go through (a sane clock, a driver without
  faults), \<open>okttl e ttl\<close> that the expiry computed from the clock is representable.
\<close>

locale store_contract =
  fixes C :: "('e, 's) cache"
    and abs :: "'s \<Rightarrow> string \<rightharpoonup> entry"
    and inv :: "'s \<Rightarrow> bool"
    and tm :: "'e \<Rightarrow> time"
    and ok :: "'e \<Rightarrow> bool"
    and okttl :: "'e \<Rightarrow> duration \<Rightarrow> bool"
  assumes get: "inv s \<Longrightarrow> ok e \<Longrightarrow> cGet C e k s = (r, s') \<Longrightarrow>
      r = get_result (live (abs s) (tm e) k) \<and> inv s' \<and> same_from (tm e) (abs s) (abs s')"
    and set: "inv s \<Longrightarrow> ok e \<Longrightarrow> okttl e ttl \<Longrightarrow> cSet C e k v ttl s = (err, s') \<Longrightarrow>
      err = None \<and> inv s' \<and>
      same_from (tm e) ((abs s)(k \<mapsto> (v, expiry (tm e) ttl None))) (abs s')"
    and take: "inv s \<Longrightarrow> ok e \<Longrightarrow> cTake C e k s = (r, s') \<Longrightarrow>
      r = get_result (live (abs s) (tm e) k) \<and> inv s' \<and>
      same_from (tm e) ((abs s)(k := None)) (abs s')"
    and exists: "inv s \<Longrightarrow> ok e \<Longrightarrow> cExists C e k s = (b, s') \<Longrightarrow>
      b = Inr (live (abs s) (tm e) k \<noteq> None) \<and> inv s' \<and> same_from (tm e) (abs s) (abs s')"
    and ttl: "inv s \<Longrightarrow> ok e \<Longrightarrow> cTTL C e k s = (d, s') \<Longrightarrow>
      ttl_result (tm e) (live (abs s) (tm e) k) d \<and> inv s' \<and> same_from (tm e) (abs s) (abs s')"
    and delete: "inv s \<Longrightarrow> ok e \<Longrightarrow> cDelete C e k s = (err, s') \<Longrightarrow>
      err = None \<and> inv s' \<and> same_from (tm e) ((abs s)(k := None)) (abs s')"
begin

text \<open>Reading back a value that was set, before and after it expires.\<close>

lemma set_then_get:
  assumes "inv s" "ok e" "okttl e d" "cSet C e k v d s = (err, s1)"
    and "ok e'" "tm e \<le> tm e'" "cGet C e' k s1 = (r, s2)"
  shows "r = (if 0 < sint d \<and> tm e + sint d \<le> tm e' then miss else Inr v)"
proof -
  from set [OF assms(1-4)] have 1: "inv s1"
    "same_from (tm e) ((abs s)(k \<mapsto> (v, expiry (tm e) d None))) (abs s1)" by auto
  from get [OF 1(1) assms(5,7)] have "r = get_result (live (abs s1) (tm e') k)" by simp
  also have "live (abs s1) (tm e') k = live ((abs s)(k \<mapsto> (v, expiry (tm e) d None))) (tm e') k"
    by (rule same_from_live [OF 1(2) assms(6)])
  finally show ?thesis
    using alive_expiry [OF assms(6), of v d] by (auto simp: live_upd)
qed

text \<open>A set leaves every other key as it was.\<close>

lemma set_frame:
  assumes "inv s" "ok e" "okttl e d" "cSet C e k v d s = (err, s1)"
    and "ok e'" "tm e \<le> tm e'" "k' \<noteq> k"
  shows "fst (cGet C e' k' s1) = fst (cGet C e' k' s)"
proof -
  from set [OF assms(1-4)] have 1: "inv s1"
    "same_from (tm e) ((abs s)(k \<mapsto> (v, expiry (tm e) d None))) (abs s1)" by auto
  obtain r s2 where r: "cGet C e' k' s1 = (r, s2)" by (cases "cGet C e' k' s1")
  obtain q s3 where q: "cGet C e' k' s = (q, s3)" by (cases "cGet C e' k' s")
  have "live (abs s1) (tm e') k' = live (abs s) (tm e') k'"
    using same_from_live [OF 1(2) assms(6)] assms(7) by (simp add: live_upd)
  with get [OF 1(1) assms(5) r] get [OF assms(1,5) q] show ?thesis
    by (simp add: r q)
qed

text \<open>A taken value is gone: the next read misses, and so does the next take.\<close>

lemma take_once:
  assumes "inv s" "ok e" "cTake C e k s = (r, s1)"
    and "ok e'" "tm e \<le> tm e'"
  shows "fst (cTake C e' k s1) = miss" "fst (cGet C e' k s1) = miss"
proof -
  from take [OF assms(1-3)] have 1: "inv s1" "same_from (tm e) ((abs s)(k := None)) (abs s1)"
    by auto
  have dead: "live (abs s1) (tm e') k = None"
    using same_from_live [OF 1(2) assms(5), of k] by (simp add: live_upd)
  show "fst (cTake C e' k s1) = miss"
    using take [OF 1(1) assms(4), of k] dead by (cases "cTake C e' k s1") auto
  show "fst (cGet C e' k s1) = miss"
    using get [OF 1(1) assms(4), of k] dead by (cases "cGet C e' k s1") auto
qed

text \<open>A deleted key is absent.\<close>

lemma delete_then_get:
  assumes "inv s" "ok e" "cDelete C e k s = (err, s1)" "ok e'" "tm e \<le> tm e'"
  shows "fst (cGet C e' k s1) = miss"
proof -
  from delete [OF assms(1-3)] have 1: "inv s1" "same_from (tm e) ((abs s)(k := None)) (abs s1)"
    by auto
  have "live (abs s1) (tm e') k = None"
    using same_from_live [OF 1(2) assms(5), of k] by (simp add: live_upd)
  with get [OF 1(1) assms(4), of k] show ?thesis
    by (cases "cGet C e' k s1") auto
qed

end

text \<open>A store that also counts: the counter wraps at 64 bits and an entry that is no number is an error.\<close>

locale cache_contract = store_contract +
  assumes incr_ok: "inv s \<Longrightarrow> ok e \<Longrightarrow> okttl e ttl \<Longrightarrow> cIncrement C e k delta ttl s = (c, s') \<Longrightarrow>
      incr_spec (tm e) delta ttl (live (abs s) (tm e) k) = Inr (n, en) \<Longrightarrow>
      c = Inr n \<and> inv s' \<and> same_from (tm e) ((abs s)(k \<mapsto> en)) (abs s')"
    and incr_err: "inv s \<Longrightarrow> ok e \<Longrightarrow> cIncrement C e k delta ttl s = (c, s') \<Longrightarrow>
      incr_spec (tm e) delta ttl (live (abs s) (tm e) k) = Inl er \<Longrightarrow>
      c = Inl er \<and> inv s' \<and> same_from (tm e) (abs s) (abs s')"

end
