(* ===== verification/Cache_Memory.thy ===== *)
theory Cache_Memory
  imports Cache_API
begin

text \<open>
  The in-process store of \<open>cache/memory.go\<close>. One call of an operation is one step: the
  steps of concurrent calls are separated in \<open>Cache_Memory_Concurrent\<close>. The surroundings
  \<open>'e\<close> of a call are the reading of the clock field \<open>now\<close>; every operation reads it at
  most once. Values are copied on the way in and out in Go and are immutable here.
\<close>

section \<open>State and operations\<close>

record memoryItem =
  mi_value :: bytes
  mi_expiresAt :: time

record memory =
  items :: "string \<rightharpoonup> memoryItem"

definition NewMemory :: memory where
  "NewMemory = \<lparr>items = Map.empty\<rparr>"

text \<open>The test \<open>!item.expiresAt.IsZero() && !item.expiresAt.After(now)\<close>.\<close>

definition item_expired :: "memoryItem \<Rightarrow> time \<Rightarrow> bool" where
  "item_expired item now \<longleftrightarrow> \<not> IsZero (mi_expiresAt item) \<and> \<not> After (mi_expiresAt item) now"

definition Memory_Get :: "time \<Rightarrow> string \<Rightarrow> memory \<Rightarrow> (gerr + bytes) \<times> memory" where
  "Memory_Get now key m =
     (case items m key of
        None \<Rightarrow> (miss, m)
      | Some item \<Rightarrow>
          if item_expired item now then (miss, m\<lparr>items := (items m)(key := None)\<rparr>)
          else (Inr (mi_value item), m))"

definition Memory_Set :: "time \<Rightarrow> string \<Rightarrow> bytes \<Rightarrow> duration \<Rightarrow> memory \<Rightarrow> gerr option \<times> memory" where
  "Memory_Set now key value ttl m =
     (let item = \<lparr>mi_value = value, mi_expiresAt = zeroTime\<rparr>;
          item = (if 0 < sint ttl then item\<lparr>mi_expiresAt := Add now ttl\<rparr> else item)
      in (None, m\<lparr>items := (items m)(key \<mapsto> item)\<rparr>))"

definition Memory_Take :: "time \<Rightarrow> string \<Rightarrow> memory \<Rightarrow> (gerr + bytes) \<times> memory" where
  "Memory_Take now key m =
     (case items m key of
        None \<Rightarrow> (miss, m)
      | Some item \<Rightarrow>
          if item_expired item now then (miss, m\<lparr>items := (items m)(key := None)\<rparr>)
          else (Inr (mi_value item), m\<lparr>items := (items m)(key := None)\<rparr>))"

definition Memory_Exists :: "time \<Rightarrow> string \<Rightarrow> memory \<Rightarrow> (gerr + bool) \<times> memory" where
  "Memory_Exists now key m =
     (case Memory_Get now key m of
        (Inl err, m') \<Rightarrow> (if errors_Is err ErrMiss then Inr False else Inl err, m')
      | (Inr _, m') \<Rightarrow> (Inr True, m'))"

definition Memory_Increment ::
  "time \<Rightarrow> string \<Rightarrow> int64 \<Rightarrow> duration \<Rightarrow> memory \<Rightarrow> (gerr + int64) \<times> memory" where
  "Memory_Increment now key delta ttl m =
     (let found = items m key;
          expired = (case found of None \<Rightarrow> False | Some item \<Rightarrow> item_expired item now);
          m = (if expired then m\<lparr>items := (items m)(key := None)\<rparr> else m);
          found = (if expired then None else found);
          parsed = (case found of None \<Rightarrow> (0, None) | Some item \<Rightarrow> ParseInt (mi_value item) 64)
      in case parsed of
           (current, Some err) \<Rightarrow> (Inl err, m)
         | (current, None) \<Rightarrow>
             let next = current + delta;
                 expiresAt = (case found of None \<Rightarrow> zeroTime | Some item \<Rightarrow> mi_expiresAt item);
                 expiresAt = (if 0 < sint ttl then Add now ttl else expiresAt)
             in (Inr next,
                 m\<lparr>items := (items m)(key \<mapsto>
                    \<lparr>mi_value = FormatInt next, mi_expiresAt = expiresAt\<rparr>)\<rparr>))"

definition Memory_TTL :: "time \<Rightarrow> string \<Rightarrow> memory \<Rightarrow> (gerr + duration) \<times> memory" where
  "Memory_TTL now key m =
     (case items m key of
        None \<Rightarrow> (miss, m)
      | Some item \<Rightarrow>
          if IsZero (mi_expiresAt item) then (Inr 0, m)
          else let ttl = Sub (mi_expiresAt item) now in
               if sint ttl \<le> 0 then (miss, m\<lparr>items := (items m)(key := None)\<rparr>)
               else (Inr ttl, m))"

definition Memory_Delete :: "time \<Rightarrow> string \<Rightarrow> memory \<Rightarrow> gerr option \<times> memory" where
  "Memory_Delete now key m = (None, m\<lparr>items := (items m)(key := None)\<rparr>)"

definition Memory_Close :: "time \<Rightarrow> memory \<Rightarrow> gerr option \<times> memory" where
  "Memory_Close now m = (None, m)"

definition memory_cache :: "(time, memory) cache" where
  "memory_cache = \<lparr>cGet = Memory_Get, cSet = Memory_Set, cTake = Memory_Take,
     cExists = Memory_Exists, cIncrement = Memory_Increment, cTTL = Memory_TTL,
     cDelete = Memory_Delete, cClose = Memory_Close\<rparr>"

section \<open>The contract\<close>

definition item_entry :: "memoryItem \<Rightarrow> entry" where
  "item_entry item =
     (mi_value item, if IsZero (mi_expiresAt item) then None else Some (mi_expiresAt item))"

definition memory_abs :: "memory \<Rightarrow> string \<rightharpoonup> entry" where
  "memory_abs m k = map_option item_entry (items m k)"

text \<open>A clock reading after 1970: then no computed expiry is the zero time.\<close>

definition sane_clock :: "time \<Rightarrow> bool" where
  "sane_clock now \<longleftrightarrow> 0 \<le> now"

lemma alive_item_entry: "alive now (item_entry item) \<longleftrightarrow> \<not> item_expired item now"
  by (simp add: alive_def item_entry_def item_expired_def After_def)

lemma memory_abs_upd [simp]:
  "memory_abs (m\<lparr>items := (items m)(k := x)\<rparr>) = (memory_abs m)(k := map_option item_entry x)"
  by (auto simp: memory_abs_def)

lemma not_IsZero_Add [simp]: "sane_clock now \<Longrightarrow> 0 < sint ttl \<Longrightarrow> \<not> IsZero (Add now ttl)"
  by (simp add: IsZero_def Add_def zeroTime_def sane_clock_def)

lemma IsZero_zeroTime [simp]: "IsZero zeroTime"
  by (simp add: IsZero_def)

lemma live_memory_abs:
  "live (memory_abs m) now k =
     (case items m k of None \<Rightarrow> None
      | Some item \<Rightarrow> if item_expired item now then None else Some (item_entry item))"
  by (simp add: live_def memory_abs_def alive_item_entry split: option.splits)

lemma memory_abs_drop_expired:
  "items m k = Some item \<Longrightarrow> item_expired item now \<Longrightarrow>
   same_from now (memory_abs m) ((memory_abs m)(k := None))"
  by (rule same_from_drop_dead) (simp add: live_memory_abs)

lemma memory_abs_absent: "items m k = None \<Longrightarrow> (memory_abs m)(k := None) = memory_abs m"
  by (auto simp: memory_abs_def)

lemma item_entry_new:
  "sane_clock now \<Longrightarrow> item_entry \<lparr>mi_value = v, mi_expiresAt =
     (if 0 < sint ttl then Add now ttl else zeroTime)\<rparr> = (v, expiry now ttl None)"
  by (auto simp: item_entry_def expiry_def) (simp add: Add_def)

lemma item_entry_keep:
  "sane_clock now \<Longrightarrow> item_entry \<lparr>mi_value = v, mi_expiresAt =
     (if 0 < sint ttl then Add now ttl else mi_expiresAt item)\<rparr> =
   (v, expiry now ttl (snd (item_entry item)))"
  by (auto simp: item_entry_def expiry_def) (simp add: Add_def)

lemma Memory_Get_spec:
  "Memory_Get now k m = (r, m') \<Longrightarrow>
   r = get_result (live (memory_abs m) now k) \<and> same_from now (memory_abs m) (memory_abs m')"
  by (auto simp: Memory_Get_def live_memory_abs item_entry_def memory_abs_drop_expired
      split: option.splits if_splits)

lemma Memory_Take_spec:
  "Memory_Take now k m = (r, m') \<Longrightarrow>
   r = get_result (live (memory_abs m) now k) \<and>
   same_from now ((memory_abs m)(k := None)) (memory_abs m')"
  by (auto simp: Memory_Take_def live_memory_abs item_entry_def memory_abs_absent
      split: option.splits if_splits)

lemma Memory_Set_spec:
  "sane_clock now \<Longrightarrow> Memory_Set now k v ttl m = (err, m') \<Longrightarrow>
   err = None \<and> memory_abs m' = (memory_abs m)(k \<mapsto> (v, expiry now ttl None))"
  using item_entry_new [of now v ttl] by (auto simp: Memory_Set_def Let_def split: if_splits)

lemma Memory_Exists_spec:
  "Memory_Exists now k m = (b, m') \<Longrightarrow>
   b = Inr (live (memory_abs m) now k \<noteq> None) \<and> same_from now (memory_abs m) (memory_abs m')"
proof -
  assume ex: "Memory_Exists now k m = (b, m')"
  obtain r m1 where g: "Memory_Get now k m = (r, m1)"
    by (cases "Memory_Get now k m")
  from Memory_Get_spec [OF g] ex g show ?thesis
    by (cases "live (memory_abs m) now k") (auto simp: Memory_Exists_def)
qed

lemma sint_Sub_pos: "0 < sint (Sub u now) \<Longrightarrow> sint (Sub u now) = min (2 ^ 63 - 1) (u - now)"
  by (auto simp: sint_Sub)

lemma Memory_TTL_spec:
  "Memory_TTL now k m = (d, m') \<Longrightarrow>
   ttl_result now (live (memory_abs m) now k) d \<and> same_from now (memory_abs m) (memory_abs m')"
proof (cases "items m k")
  case None
  moreover assume "Memory_TTL now k m = (d, m')"
  ultimately show ?thesis by (auto simp: Memory_TTL_def ttl_result_def live_memory_abs)
next
  case (Some item)
  assume T: "Memory_TTL now k m = (d, m')"
  have le: "sint (Sub (mi_expiresAt item) now) \<le> 0 \<longleftrightarrow> \<not> After (mi_expiresAt item) now"
    by (simp add: After_def not_less)
  show ?thesis
  proof (cases "IsZero (mi_expiresAt item) \<or> After (mi_expiresAt item) now")
    case True
    with T Some show ?thesis
      by (auto simp: Memory_TTL_def ttl_result_def live_memory_abs item_expired_def item_entry_def
          Let_def After_def sint_Sub split: if_splits)
  next
    case False
    with T Some le memory_abs_drop_expired [OF Some, of now] show ?thesis
      by (auto simp: Memory_TTL_def ttl_result_def live_memory_abs item_expired_def Let_def)
  qed
qed

text \<open>
  \<open>Increment\<close> in one equation: what it returns and stores, from the live entry alone.
\<close>

lemma Memory_Increment_ok:
  assumes "sane_clock now" "Memory_Increment now k delta ttl m = (c, m')"
    and "incr_spec now delta ttl (live (memory_abs m) now k) = Inr (n, en)"
  shows "c = Inr n \<and> memory_abs m' = (memory_abs m)(k \<mapsto> en)"
proof (cases "live (memory_abs m) now k")
  case None
  with assms item_entry_new [OF assms(1), of "FormatInt delta" ttl] show ?thesis
    by (auto simp: Memory_Increment_def incr_spec_def live_memory_abs Let_def
        split: option.splits if_splits)
next
  case (Some en0)
  then obtain item where item: "items m k = Some item" "\<not> item_expired item now" "en0 = item_entry item"
    by (auto simp: live_memory_abs split: option.splits if_splits)
  from assms(3) Some item(3) obtain v where v: "ParseInt (mi_value item) 64 = (v, None)"
    by (cases "ParseInt (mi_value item) 64"; cases "snd (ParseInt (mi_value item) 64)")
      (auto simp: incr_spec_def item_entry_def)
  with assms Some item item_entry_keep [OF assms(1), of "FormatInt (v + delta)" ttl item] show ?thesis
    by (auto simp: Memory_Increment_def incr_spec_def Let_def item_entry_def split: if_splits)
qed

lemma Memory_Increment_err:
  assumes "Memory_Increment now k delta ttl m = (c, m')"
    and "incr_spec now delta ttl (live (memory_abs m) now k) = Inl er"
  shows "c = Inl er \<and> m' = m"
proof -
  from assms(2) obtain item where item: "items m k = Some item" "\<not> item_expired item now"
    by (auto simp: incr_spec_def live_memory_abs split: option.splits if_splits)
  with assms show ?thesis
    by (cases "ParseInt (mi_value item) 64"; cases "snd (ParseInt (mi_value item) 64)")
      (auto simp: Memory_Increment_def incr_spec_def live_memory_abs item_entry_def Let_def)
qed

lemmas memory_run_eqs [run_eqs] =
  memory_cache_def NewMemory_def Memory_Get_def Memory_Set_def Memory_Take_def Memory_Increment_def item_expired_def

interpretation mem: cache_contract memory_cache memory_abs "\<lambda>_. True" "\<lambda>now. now" sane_clock
  "\<lambda>_ _. True"
proof
  fix s e k r s'
  assume "cGet memory_cache e k s = (r, s')"
  then show "r = get_result (live (memory_abs s) e k) \<and> True \<and>
      same_from e (memory_abs s) (memory_abs s')"
    using Memory_Get_spec by (simp add: memory_cache_def)
next
  fix s e ttl k v err s'
  assume "sane_clock e" "cSet memory_cache e k v ttl s = (err, s')"
  then show "err = None \<and> True \<and>
      same_from e ((memory_abs s)(k \<mapsto> (v, expiry e ttl None))) (memory_abs s')"
    using Memory_Set_spec [of e k v ttl s err s'] by (simp add: memory_cache_def)
next
  fix s e k r s'
  assume "cTake memory_cache e k s = (r, s')"
  then show "r = get_result (live (memory_abs s) e k) \<and> True \<and>
      same_from e ((memory_abs s)(k := None)) (memory_abs s')"
    using Memory_Take_spec by (simp add: memory_cache_def)
next
  fix s e k b s'
  assume "cExists memory_cache e k s = (b, s')"
  then show "b = Inr (live (memory_abs s) e k \<noteq> None) \<and> True \<and>
      same_from e (memory_abs s) (memory_abs s')"
    using Memory_Exists_spec by (simp add: memory_cache_def)
next
  fix s e ttl k delta c s' n en
  assume "sane_clock e" "cIncrement memory_cache e k delta ttl s = (c, s')"
    "incr_spec e delta ttl (live (memory_abs s) e k) = Inr (n, en)"
  then show "c = Inr n \<and> True \<and> same_from e ((memory_abs s)(k \<mapsto> en)) (memory_abs s')"
    using Memory_Increment_ok [of e k delta ttl s c s' n en] by (simp add: memory_cache_def)
next
  fix s e k delta ttl c s' er
  assume "cIncrement memory_cache e k delta ttl s = (c, s')"
    "incr_spec e delta ttl (live (memory_abs s) e k) = Inl er"
  then show "c = Inl er \<and> True \<and> same_from e (memory_abs s) (memory_abs s')"
    using Memory_Increment_err [of e k delta ttl s c s' er] by (simp add: memory_cache_def)
next
  fix s e k d s'
  assume "cTTL memory_cache e k s = (d, s')"
  then show "ttl_result e (live (memory_abs s) e k) d \<and> True \<and>
      same_from e (memory_abs s) (memory_abs s')"
    using Memory_TTL_spec by (simp add: memory_cache_def)
next
  fix s e k err s'
  assume "cDelete memory_cache e k s = (err, s')"
  then show "err = None \<and> True \<and> same_from e ((memory_abs s)(k := None)) (memory_abs s')"
    by (auto simp: memory_cache_def Memory_Delete_def)
qed

section \<open>Properties\<close>

text \<open>
  A value set in the memory store is read back unchanged until its lifetime has passed, and
  from that instant on the read is a miss. A lifetime of zero or less never ends.
\<close>

theorem memory_set_then_get:
  assumes "0 \<le> now" "now \<le> now'"
  shows "fst (Memory_Get now' k (snd (Memory_Set now k v ttl m))) =
    (if 0 < sint ttl \<and> now + sint ttl \<le> now' then miss else Inr v)"
proof -
  obtain err m1 where s: "cSet memory_cache now k v ttl m = (err, m1)" by fastforce
  obtain r m2 where g: "cGet memory_cache now' k m1 = (r, m2)" by fastforce
  have "r = (if 0 < sint ttl \<and> now + sint ttl \<le> now' then miss else Inr v)"
    using assms by (intro mem.set_then_get [OF _ _ _ s _ _ g]) (simp_all add: sane_clock_def)
  with s g show ?thesis by (simp add: memory_cache_def)
qed

theorem memory_set_then_get_witness:
  "fst (Memory_Get 6 ''k'' (snd (Memory_Set 2 ''k'' ''v'' 5 NewMemory))) = Inr ''v'' \<and>
   fst (Memory_Get 7 ''k'' (snd (Memory_Set 2 ''k'' ''v'' 5 NewMemory))) = miss"
  using memory_set_then_get [of 2 6 "''k''" "''v''" 5 NewMemory]
    memory_set_then_get [of 2 7 "''k''" "''v''" 5 NewMemory] by simp

text \<open>
  \<open>Increment\<close> on a live counter answers the sum modulo 2^64 and stores its decimal form; it
  keeps the expiry unless a positive lifetime renews it. On a value that is not a decimal int64
  it fails with the parse error and leaves the store as it was.
\<close>

theorem memory_increment_live:
  assumes "items m k = Some item" "\<not> item_expired item now"
  shows "(\<forall>n. ParseInt (mi_value item) 64 = (n, None) \<longrightarrow>
           Memory_Increment now k delta ttl m =
             (Inr (n + delta), m\<lparr>items := (items m)(k \<mapsto>
                \<lparr>mi_value = FormatInt (n + delta),
                 mi_expiresAt = (if 0 < sint ttl then now + sint ttl else mi_expiresAt item)\<rparr>)\<rparr>)) \<and>
         (\<forall>n err. ParseInt (mi_value item) 64 = (n, Some err) \<longrightarrow>
           Memory_Increment now k delta ttl m = (Inl err, m))"
  using assms by (simp add: Memory_Increment_def Let_def Add_def)

theorem memory_increment_live_witness:
  "fst (Memory_Increment 9 ''k'' 1 0 \<lparr>items = [''k'' \<mapsto> \<lparr>mi_value = FormatInt (2 ^ 63 - 1), mi_expiresAt = 10\<rparr>]\<rparr>)
     = Inr (- (2 ^ 63))"
  using memory_increment_live [of "\<lparr>items = [''k'' \<mapsto> \<lparr>mi_value = FormatInt (2 ^ 63 - 1), mi_expiresAt = 10\<rparr>]\<rparr>"
      "''k''" "\<lparr>mi_value = FormatInt (2 ^ 63 - 1), mi_expiresAt = 10\<rparr>" 9 1 0]
  by (simp add: item_expired_def After_def)

end
