(* ===== verification/Cache_Prefix.thy ===== *)
theory Cache_Prefix
  imports Cache_Memory
begin

text \<open>
  The key-prefixing wrapper of \<open>cache/prefix.go\<close>: every operation forwards to the wrapped
  store with the key rewritten by \<open>Key\<close>. A wrapped store that keeps the contract makes a
  wrapper that keeps it; two wrappers over one store are isolated exactly when neither
  prefix extends the other.
\<close>

section \<open>The wrapper\<close>

definition prefixed :: "('e, 's) cache \<Rightarrow> string \<Rightarrow> ('e, 's) cache" where
  "prefixed store prefix =
     \<lparr>cGet = (\<lambda>e key. cGet store e (Key prefix key)),
      cSet = (\<lambda>e key value ttl. cSet store e (Key prefix key) value ttl),
      cTake = (\<lambda>e key. cTake store e (Key prefix key)),
      cExists = (\<lambda>e key. cExists store e (Key prefix key)),
      cIncrement = (\<lambda>e key delta ttl. cIncrement store e (Key prefix key) delta ttl),
      cTTL = (\<lambda>e key. cTTL store e (Key prefix key)),
      cDelete = (\<lambda>e key. cDelete store e (Key prefix key)),
      cClose = cClose store\<rparr>"

definition withStorePrefix :: "('e, 's) cache \<Rightarrow> string \<Rightarrow> ('e, 's) cache" where
  "withStorePrefix store prefix =
     (if TrimSpace prefix = [] then store else prefixed store prefix)"

lemma prefixed_simps [simp]:
  "cGet (prefixed C p) e k = cGet C e (Key p k)"
  "cSet (prefixed C p) e k v ttl = cSet C e (Key p k) v ttl"
  "cTake (prefixed C p) e k = cTake C e (Key p k)"
  "cExists (prefixed C p) e k = cExists C e (Key p k)"
  "cIncrement (prefixed C p) e k d ttl = cIncrement C e (Key p k) d ttl"
  "cTTL (prefixed C p) e k = cTTL C e (Key p k)"
  "cDelete (prefixed C p) e k = cDelete C e (Key p k)"
  "cClose (prefixed C p) = cClose C"
  by (simp_all add: prefixed_def)

section \<open>The wrapper keeps the contract\<close>

definition under :: "string \<Rightarrow> (string \<rightharpoonup> entry) \<Rightarrow> string \<rightharpoonup> entry" where
  "under p m k = m (Key p k)"

lemma live_under [simp]: "live (under p m) t k = live m t (Key p k)"
  by (simp add: live_def under_def)

lemma same_from_under: "same_from t m m' \<Longrightarrow> same_from t (under p m) (under p m')"
  by (simp add: same_from_def)

lemma under_upd: "under p (m(Key p k := x)) = (under p m)(k := x)"
  by (auto simp: under_def)

lemma same_from_under_upd:
  "same_from t (m(Key p k := x)) m' \<Longrightarrow> same_from t ((under p m)(k := x)) (under p m')"
  using same_from_under [of t "m(Key p k := x)" m' p] by (simp add: under_upd)

locale prefixed_contract = cache_contract +
  fixes prefix :: string

sublocale prefixed_contract \<subseteq> pfx: cache_contract "prefixed C prefix" "\<lambda>s. under prefix (abs s)"
  inv tm ok okttl
proof
  fix s e k r s'
  assume "inv s" "ok e" "cGet (prefixed C prefix) e k s = (r, s')"
  then show "r = get_result (live (under prefix (abs s)) (tm e) k) \<and> inv s' \<and>
      same_from (tm e) (under prefix (abs s)) (under prefix (abs s'))"
    using get by (simp add: same_from_under)
next
  fix s e ttl k v err s'
  assume "inv s" "ok e" "okttl e ttl" "cSet (prefixed C prefix) e k v ttl s = (err, s')"
  then show "err = None \<and> inv s' \<and>
      same_from (tm e) ((under prefix (abs s))(k \<mapsto> (v, expiry (tm e) ttl None))) (under prefix (abs s'))"
    using set by (simp add: same_from_under_upd)
next
  fix s e k r s'
  assume "inv s" "ok e" "cTake (prefixed C prefix) e k s = (r, s')"
  then show "r = get_result (live (under prefix (abs s)) (tm e) k) \<and> inv s' \<and>
      same_from (tm e) ((under prefix (abs s))(k := None)) (under prefix (abs s'))"
    using take by (simp add: same_from_under_upd)
next
  fix s e k b s'
  assume "inv s" "ok e" "cExists (prefixed C prefix) e k s = (b, s')"
  then show "b = Inr (live (under prefix (abs s)) (tm e) k \<noteq> None) \<and> inv s' \<and>
      same_from (tm e) (under prefix (abs s)) (under prefix (abs s'))"
    using exists by (simp add: same_from_under)
next
  fix s e ttl k delta c s' n en
  assume "inv s" "ok e" "okttl e ttl" "cIncrement (prefixed C prefix) e k delta ttl s = (c, s')"
    "incr_spec (tm e) delta ttl (live (under prefix (abs s)) (tm e) k) = Inr (n, en)"
  then show "c = Inr n \<and> inv s' \<and>
      same_from (tm e) ((under prefix (abs s))(k \<mapsto> en)) (under prefix (abs s'))"
    using incr_ok by (simp add: same_from_under_upd)
next
  fix s e k delta ttl c s' er
  assume "inv s" "ok e" "cIncrement (prefixed C prefix) e k delta ttl s = (c, s')"
    "incr_spec (tm e) delta ttl (live (under prefix (abs s)) (tm e) k) = Inl er"
  then show "c = Inl er \<and> inv s' \<and> same_from (tm e) (under prefix (abs s)) (under prefix (abs s'))"
    using incr_err by (simp add: same_from_under)
next
  fix s e k d s'
  assume "inv s" "ok e" "cTTL (prefixed C prefix) e k s = (d, s')"
  then show "ttl_result (tm e) (live (under prefix (abs s)) (tm e) k) d \<and> inv s' \<and>
      same_from (tm e) (under prefix (abs s)) (under prefix (abs s'))"
    using ttl by (simp add: same_from_under)
next
  fix s e k err s'
  assume "inv s" "ok e" "cDelete (prefixed C prefix) e k s = (err, s')"
  then show "err = None \<and> inv s' \<and>
      same_from (tm e) ((under prefix (abs s))(k := None)) (under prefix (abs s'))"
    using delete by (simp add: same_from_under_upd)
qed

interpretation pmem: prefixed_contract memory_cache memory_abs "\<lambda>_. True" "\<lambda>now. now" sane_clock
  "\<lambda>_ _. True" prefix
  for prefix
  by unfold_locales

section \<open>Isolation\<close>

text \<open>What a prefix puts in front of every key.\<close>

definition key_head :: "string \<Rightarrow> string" where
  "key_head p = (let p = TrimRight p CHR '':'' in if p = [] then [] else p @ '':'')"

lemma Key_key_head: "Key p k = key_head p @ k"
  by (simp add: Key_def key_head_def Let_def)

lemma Key_collision_iff:
  "(\<exists>k k'. Key p k = Key q k') \<longleftrightarrow>
   HasPrefix (key_head p) (key_head q) \<or> HasPrefix (key_head q) (key_head p)"
proof
  assume "\<exists>k k'. Key p k = Key q k'"
  then obtain k k' where "key_head p @ k = key_head q @ k'"
    by (auto simp: Key_key_head)
  then show "HasPrefix (key_head p) (key_head q) \<or> HasPrefix (key_head q) (key_head p)"
    by (metis HasPrefix_append append_eq_append_conv2)
next
  assume "HasPrefix (key_head p) (key_head q) \<or> HasPrefix (key_head q) (key_head p)"
  then obtain r where "key_head p = key_head q @ r \<or> key_head q = key_head p @ r"
    by (auto simp: HasPrefix_iff)
  then have "Key p [] = Key q r \<or> Key p r = Key q []"
    by (auto simp: Key_key_head)
  then show "\<exists>k k'. Key p k = Key q k'"
    by blast
qed

context cache_contract
begin

text \<open>A set through one prefix is invisible through a prefix that shares no key with it.\<close>

lemma prefix_set_isolated:
  assumes "inv s" "ok e" "okttl e d" "cSet (prefixed C p) e k v d s = (err, s1)"
    and "ok e'" "tm e \<le> tm e'" "Key p k \<noteq> Key q k'"
  shows "fst (cGet (prefixed C q) e' k' s1) = fst (cGet (prefixed C q) e' k' s)"
  using set_frame [OF assms(1-3) _ assms(5,6) assms(7) [symmetric], of v err s1] assms(4) by simp

end

section \<open>Properties\<close>

text \<open>
  Two prefixes share a full key exactly when what one of them puts in front of its keys starts
  with what the other puts there; so \<open>a\<close> and \<open>b\<close> never meet, while \<open>a\<close> and \<open>a:b\<close> do.
\<close>

theorem prefixes_share_keys_iff:
  "(\<exists>k k'. Key p k = Key q k') = (HasPrefix (key_head p) (key_head q) \<or> HasPrefix (key_head q) (key_head p))"
  by (rule Key_collision_iff)

text \<open>
  C33: A write through one prefix of a shared memory store changes no read through a prefix that
  shares no key with it.
\<close>

theorem prefixed_write_invisible:
  assumes "\<not> HasPrefix (key_head p) (key_head q)" "\<not> HasPrefix (key_head q) (key_head p)"
    and "0 \<le> now" "now \<le> now'"
  shows "fst (cGet (prefixed memory_cache q) now' k' (snd (cSet (prefixed memory_cache p) now k v ttl m)))
       = fst (cGet (prefixed memory_cache q) now' k' m)"
proof -
  obtain err m1 where s: "cSet (prefixed memory_cache p) now k v ttl m = (err, m1)" by fastforce
  have "Key p k \<noteq> Key q k'" using assms(1,2) Key_collision_iff [of p q] by blast
  from mem.prefix_set_isolated [OF _ _ _ s _ _ this, of now'] assms(3,4) s show ?thesis
    by (simp add: sane_clock_def)
qed

theorem prefixed_write_invisible_witness:
  "fst (cGet (prefixed memory_cache ''b'') 3 ''k'' (snd (cSet (prefixed memory_cache ''a:'') 2 ''k'' ''v'' 5 NewMemory)))
     = miss"
  using prefixed_write_invisible [of "''a:''" "''b''" 2 3 "''k''" "''k''" "''v''" 5 NewMemory]
  by (simp add: key_head_def TrimRight_def run_eqs)

end
