(* ===== verification/Cache_Fallback.thy ===== *)
theory Cache_Fallback
  imports Cache_Prefix
begin

text \<open>
  The two-level store of \<open>cache/fallback.go\<close>. Either level may be nil (\<^term>\<open>None\<close>). The
  state is the pair of the two stores' states and the surroundings of a call the pair of
  what the call to each store reads; an operation calls each store at most once. The two
  stores share no state.
\<close>

section \<open>Operations\<close>

type_synonym ('e, 's) level = "('e, 's) cache option"

fun Fallback_Get ::
  "('e1, 's1) level \<Rightarrow> ('e2, 's2) level \<Rightarrow> 'e1 \<times> 'e2 \<Rightarrow> string \<Rightarrow> 's1 \<times> 's2 \<Rightarrow>
   (gerr + bytes) \<times> ('s1 \<times> 's2)" where
  "Fallback_Get primary fallback (e1, e2) key (s1, s2) =
     (let second = (\<lambda>s1. case fallback of
            None \<Rightarrow> (miss, (s1, s2))
          | Some f \<Rightarrow> (case cGet f e2 key s2 of (r, s2') \<Rightarrow> (r, (s1, s2'))))
      in case primary of
           None \<Rightarrow> second s1
         | Some p \<Rightarrow>
             (case cGet p e1 key s1 of
                (Inr value, s1') \<Rightarrow> (Inr value, (s1', s2))
              | (Inl err, s1') \<Rightarrow>
                  if \<not> errors_Is err ErrMiss \<and> fallback = None then (Inl err, (s1', s2))
                  else second s1'))"

fun Fallback_Set ::
  "('e1, 's1) level \<Rightarrow> ('e2, 's2) level \<Rightarrow> 'e1 \<times> 'e2 \<Rightarrow> string \<Rightarrow> bytes \<Rightarrow> duration \<Rightarrow>
   's1 \<times> 's2 \<Rightarrow> gerr option \<times> ('s1 \<times> 's2)" where
  "Fallback_Set primary fallback (e1, e2) key value ttl (s1, s2) =
     (let (result, s1) = (case primary of
            None \<Rightarrow> (None, s1)
          | Some p \<Rightarrow> (case cSet p e1 key value ttl s1 of (err, s1) \<Rightarrow> (errors_Join [None, err], s1)));
          (result, s2) = (case fallback of
            None \<Rightarrow> (result, s2)
          | Some f \<Rightarrow> (case cSet f e2 key value ttl s2 of (err, s2) \<Rightarrow> (errors_Join [result, err], s2)))
      in (result, (s1, s2)))"

fun Fallback_Take ::
  "('e1, 's1) level \<Rightarrow> ('e2, 's2) level \<Rightarrow> 'e1 \<times> 'e2 \<Rightarrow> string \<Rightarrow> 's1 \<times> 's2 \<Rightarrow>
   (gerr + bytes) \<times> ('s1 \<times> 's2)" where
  "Fallback_Take primary fallback (e1, e2) key (s1, s2) =
     (let second = (\<lambda>s1. case fallback of
            None \<Rightarrow> (miss, (s1, s2))
          | Some f \<Rightarrow> (case cTake f e2 key s2 of (r, s2') \<Rightarrow> (r, (s1, s2'))))
      in case primary of
           None \<Rightarrow> second s1
         | Some p \<Rightarrow>
             (case cTake p e1 key s1 of
                (Inr value, s1') \<Rightarrow>
                  (Inr value, (s1', case fallback of None \<Rightarrow> s2 | Some f \<Rightarrow> snd (cDelete f e2 key s2)))
              | (Inl err, s1') \<Rightarrow>
                  if \<not> errors_Is err ErrMiss \<and> fallback = None then (Inl err, (s1', s2))
                  else second s1'))"

fun Fallback_Exists ::
  "('e1, 's1) level \<Rightarrow> ('e2, 's2) level \<Rightarrow> 'e1 \<times> 'e2 \<Rightarrow> string \<Rightarrow> 's1 \<times> 's2 \<Rightarrow>
   (gerr + bool) \<times> ('s1 \<times> 's2)" where
  "Fallback_Exists primary fallback (e1, e2) key (s1, s2) =
     (let second = (\<lambda>s1. case fallback of
            None \<Rightarrow> (Inr False, (s1, s2))
          | Some f \<Rightarrow> (case cExists f e2 key s2 of (r, s2') \<Rightarrow> (r, (s1, s2'))))
      in case primary of
           None \<Rightarrow> second s1
         | Some p \<Rightarrow>
             (case cExists p e1 key s1 of
                (Inr True, s1') \<Rightarrow> (Inr True, (s1', s2))
              | (Inl err, s1') \<Rightarrow> if fallback = None then (Inl err, (s1', s2)) else second s1'
              | (Inr False, s1') \<Rightarrow> if fallback = None then (Inr False, (s1', s2)) else second s1'))"

fun Fallback_Increment ::
  "('e1, 's1) level \<Rightarrow> ('e2, 's2) level \<Rightarrow> 'e1 \<times> 'e2 \<Rightarrow> string \<Rightarrow> int64 \<Rightarrow> duration \<Rightarrow>
   's1 \<times> 's2 \<Rightarrow> (gerr + int64) \<times> ('s1 \<times> 's2)" where
  "Fallback_Increment primary fallback (e1, e2) key delta ttl (s1, s2) =
     (let second = (\<lambda>s1. case fallback of
            None \<Rightarrow> (miss, (s1, s2))
          | Some f \<Rightarrow> (case cIncrement f e2 key delta ttl s2 of (r, s2') \<Rightarrow> (r, (s1, s2'))))
      in case primary of
           None \<Rightarrow> second s1
         | Some p \<Rightarrow>
             (case cIncrement p e1 key delta ttl s1 of
                (Inr next, s1') \<Rightarrow>
                  (Inr next, (s1', case fallback of None \<Rightarrow> s2
                     | Some f \<Rightarrow> snd (cSet f e2 key (FormatInt next) ttl s2)))
              | (Inl err, s1') \<Rightarrow>
                  if fallback = None then (Inl err, (s1', s2)) else second s1'))"

fun Fallback_TTL ::
  "('e1, 's1) level \<Rightarrow> ('e2, 's2) level \<Rightarrow> 'e1 \<times> 'e2 \<Rightarrow> string \<Rightarrow> 's1 \<times> 's2 \<Rightarrow>
   (gerr + duration) \<times> ('s1 \<times> 's2)" where
  "Fallback_TTL primary fallback (e1, e2) key (s1, s2) =
     (let second = (\<lambda>s1. case fallback of
            None \<Rightarrow> (miss, (s1, s2))
          | Some f \<Rightarrow> (case cTTL f e2 key s2 of (r, s2') \<Rightarrow> (r, (s1, s2'))))
      in case primary of
           None \<Rightarrow> second s1
         | Some p \<Rightarrow>
             (case cTTL p e1 key s1 of
                (Inr ttl, s1') \<Rightarrow> (Inr ttl, (s1', s2))
              | (Inl err, s1') \<Rightarrow>
                  if \<not> errors_Is err ErrMiss \<and> fallback = None then (Inl err, (s1', s2))
                  else second s1'))"

fun Fallback_Delete ::
  "('e1, 's1) level \<Rightarrow> ('e2, 's2) level \<Rightarrow> 'e1 \<times> 'e2 \<Rightarrow> string \<Rightarrow> 's1 \<times> 's2 \<Rightarrow>
   gerr option \<times> ('s1 \<times> 's2)" where
  "Fallback_Delete primary fallback (e1, e2) key (s1, s2) =
     (let (result, s1) = (case primary of
            None \<Rightarrow> (None, s1)
          | Some p \<Rightarrow> (case cDelete p e1 key s1 of (err, s1) \<Rightarrow> (errors_Join [None, err], s1)));
          (result, s2) = (case fallback of
            None \<Rightarrow> (result, s2)
          | Some f \<Rightarrow> (case cDelete f e2 key s2 of (err, s2) \<Rightarrow> (errors_Join [result, err], s2)))
      in (result, (s1, s2)))"

fun Fallback_Close ::
  "('e1, 's1) level \<Rightarrow> ('e2, 's2) level \<Rightarrow> 'e1 \<times> 'e2 \<Rightarrow> 's1 \<times> 's2 \<Rightarrow> gerr option \<times> ('s1 \<times> 's2)" where
  "Fallback_Close primary fallback (e1, e2) (s1, s2) =
     (let (result, s1) = (case primary of
            None \<Rightarrow> (None, s1)
          | Some p \<Rightarrow> (case cClose p e1 s1 of (err, s1) \<Rightarrow> (errors_Join [None, err], s1)));
          (result, s2) = (case fallback of
            None \<Rightarrow> (result, s2)
          | Some f \<Rightarrow> (case cClose f e2 s2 of (err, s2) \<Rightarrow> (errors_Join [result, err], s2)))
      in (result, (s1, s2)))"

definition fallback_cache ::
  "('e1, 's1) level \<Rightarrow> ('e2, 's2) level \<Rightarrow> ('e1 \<times> 'e2, 's1 \<times> 's2) cache" where
  "fallback_cache p f =
     \<lparr>cGet = Fallback_Get p f, cSet = Fallback_Set p f, cTake = Fallback_Take p f,
      cExists = Fallback_Exists p f, cIncrement = Fallback_Increment p f, cTTL = Fallback_TTL p f,
      cDelete = Fallback_Delete p f, cClose = Fallback_Close p f\<rparr>"

section \<open>What two contract-keeping levels give\<close>

text \<open>
  \<open>P\<close> is the primary and \<open>F\<close> the fallback, each with its own contract.
\<close>

locale two_levels =
  P: cache_contract C1 abs1 inv1 tm1 ok1 okttl1 + F: cache_contract C2 abs2 inv2 tm2 ok2 okttl2
  for C1 :: "('e1, 's1) cache" and abs1 inv1 tm1 ok1 okttl1
    and C2 :: "('e2, 's2) cache" and abs2 inv2 tm2 ok2 okttl2
begin

text \<open>
  A value set through the wrapper is still read when the primary answers nothing useful: the
  read succeeds as long as the fallback works, whatever error the primary returns.
\<close>

lemma get_survives_primary:
  assumes "inv1 s1" "inv2 s2" "ok2 e2" "okttl2 e2 d"
    and "Fallback_Set (Some C1) (Some C2) (e1, e2) k v d (s1, s2) = (err, (t1, t2))"
    and "ok2 e2'" "tm2 e2 \<le> tm2 e2'" "\<not> (0 < sint d \<and> tm2 e2 + sint d \<le> tm2 e2')"
    and "cGet C1 e1' k t1 = (Inl perr, t1')"
  shows "fst (Fallback_Get (Some C1) (Some C2) (e1', e2') k (t1, t2)) = Inr v"
proof -
  obtain ferr where st: "cSet C2 e2 k v d s2 = (ferr, t2)"
    using assms(5) by (cases "cSet C1 e1 k v d s1"; cases "cSet C2 e2 k v d s2") auto
  obtain r u2 where g: "cGet C2 e2' k t2 = (r, u2)"
    by (cases "cGet C2 e2' k t2")
  from F.set_then_get [OF assms(2-4) st assms(6,7) g] assms(8) have "r = Inr v" by auto
  with assms(9) g show ?thesis by simp
qed

text \<open>
  A value taken from the primary is gone from both levels when the fallback's delete goes
  through: neither a later take nor a later read finds it.
\<close>

lemma take_once_both:
  assumes "inv1 s1" "inv2 s2" "ok1 e1" "ok2 e2"
    and "Fallback_Take (Some C1) (Some C2) (e1, e2) k (s1, s2) = (Inr v, (t1, t2))"
    and "ok1 e1'" "ok2 e2'" "tm1 e1 \<le> tm1 e1'" "tm2 e2 \<le> tm2 e2'"
  shows "fst (Fallback_Take (Some C1) (Some C2) (e1', e2') k (t1, t2)) = miss"
    "fst (Fallback_Get (Some C1) (Some C2) (e1', e2') k (t1, t2)) = miss"
proof -
  obtain r1 u1 where p: "cTake C1 e1 k s1 = (r1, u1)" by (cases "cTake C1 e1 k s1")
  have t1: "t1 = u1" using assms(5) p
    by (auto simp: Let_def split: sum.splits prod.splits if_splits)
  have gone: "fst (cTake C2 e2' k t2) = miss \<and> fst (cGet C2 e2' k t2) = miss"
  proof -
    consider (primary) "t2 = snd (cDelete C2 e2 k s2)" | (fallback) "t2 = snd (cTake C2 e2 k s2)"
      using assms(5) p by (auto simp: Let_def split: sum.splits prod.splits if_splits)
    then show ?thesis
    proof cases
      case primary
      then obtain derr where d: "cDelete C2 e2 k s2 = (derr, t2)"
        by (cases "cDelete C2 e2 k s2") auto
      from F.delete [OF assms(2,4) d]
      have inv: "inv2 t2" and sf: "same_from (tm2 e2) ((abs2 s2)(k := None)) (abs2 t2)" by auto
      have dead: "live (abs2 t2) (tm2 e2') k = None"
        using same_from_live [OF sf assms(9), of k] by (simp add: live_upd)
      have "fst (cTake C2 e2' k t2) = miss"
        using F.take [OF inv assms(7), of k] dead by (cases "cTake C2 e2' k t2") auto
      with F.delete_then_get [OF assms(2,4) d assms(7,9)] show ?thesis by simp
    next
      case fallback
      then obtain r2 where d: "cTake C2 e2 k s2 = (r2, t2)"
        by (cases "cTake C2 e2 k s2") auto
      with F.take_once [OF assms(2,4) d assms(7,9)] show ?thesis by simp
    qed
  qed
  have gone1: "fst (cTake C1 e1' k t1) = miss" "fst (cGet C1 e1' k t1) = miss"
    unfolding t1 by (rule P.take_once [OF assms(1,3) p assms(6,8)])+
  show "fst (Fallback_Take (Some C1) (Some C2) (e1', e2') k (t1, t2)) = miss"
    using gone gone1 by (cases "cTake C1 e1' k t1"; cases "cTake C2 e2' k t2") auto
  show "fst (Fallback_Get (Some C1) (Some C2) (e1', e2') k (t1, t2)) = miss"
    using gone gone1 by (cases "cGet C1 e1' k t1"; cases "cGet C2 e2' k t2") auto
qed

end

interpretation mm: two_levels
  memory_cache memory_abs "\<lambda>_. True" "\<lambda>now. now" sane_clock "\<lambda>_ _. True"
  memory_cache memory_abs "\<lambda>_. True" "\<lambda>now. now" sane_clock "\<lambda>_ _. True"
  by unfold_locales

end
