(* ===== verification/Cache_RateLimit.thy ===== *)
theory Cache_RateLimit
  imports Cache_Fallback
begin

text \<open>
  The rate limiter of \<open>cache/rate_limit.go\<close>, over any store. A hit makes two calls to the
  store, an \<open>Increment\<close> and a \<open>TTL\<close>, each with its own surroundings. The lemmas about
  counting hold over every store that keeps the contract.
\<close>

section \<open>The limiter\<close>

record RateLimitResult =
  rl_Key :: string
  rl_Count :: int64
  rl_Limit :: int64
  rl_TTL :: duration

definition Exceeded :: "RateLimitResult \<Rightarrow> bool" where
  "Exceeded result \<longleftrightarrow> 0 < sint (rl_Limit result) \<and> sint (rl_Limit result) \<le> sint (rl_Count result)"

definition limiter_key :: "string \<Rightarrow> string \<Rightarrow> string" where
  "limiter_key prefix key = Key prefix (TrimSpace key)"

text \<open>The treatment of the error of \<open>store.TTL\<close>: a miss counts as no remaining time.\<close>

definition miss_as_zero :: "gerr + duration \<Rightarrow> gerr + duration" where
  "miss_as_zero r =
     (case r of Inr ttl \<Rightarrow> Inr ttl
      | Inl err \<Rightarrow> if errors_Is err ErrMiss then Inr 0 else Inl err)"

definition Hit ::
  "('e, 's) cache \<Rightarrow> string \<Rightarrow> 'e \<times> 'e \<Rightarrow> string \<Rightarrow> int64 \<Rightarrow> duration \<Rightarrow> 's \<Rightarrow>
   (gerr + RateLimitResult) \<times> 's" where
  "Hit store prefix ee key limit window s =
     (let fullKey = limiter_key prefix key in
      case cIncrement store (fst ee) fullKey 1 window s of
        (Inl err, s) \<Rightarrow> (Inl err, s)
      | (Inr count, s) \<Rightarrow>
          (case cTTL store (snd ee) fullKey s of (r, s) \<Rightarrow>
             (case miss_as_zero r of
                Inl err \<Rightarrow> (Inl err, s)
              | Inr ttl \<Rightarrow>
                  (Inr \<lparr>rl_Key = fullKey, rl_Count = count, rl_Limit = limit, rl_TTL = ttl\<rparr>, s))))"

definition Peek ::
  "('e, 's) cache \<Rightarrow> string \<Rightarrow> 'e \<times> 'e \<Rightarrow> string \<Rightarrow> int64 \<Rightarrow> 's \<Rightarrow>
   (gerr + RateLimitResult) \<times> 's" where
  "Peek store prefix ee key limit s =
     (let fullKey = limiter_key prefix key in
      case cGet store (fst ee) fullKey s of
        (Inl err, s) \<Rightarrow>
          (if errors_Is err ErrMiss
           then Inr \<lparr>rl_Key = fullKey, rl_Count = 0, rl_Limit = limit, rl_TTL = 0\<rparr>
           else Inl err, s)
      | (Inr value, s) \<Rightarrow>
          (case ParseInt value 64 of
             (_, Some err) \<Rightarrow> (Inl err, s)
           | (count, None) \<Rightarrow>
               (case cTTL store (snd ee) fullKey s of (r, s) \<Rightarrow>
                  (case miss_as_zero r of
                     Inl err \<Rightarrow> (Inl err, s)
                   | Inr ttl \<Rightarrow>
                       (Inr \<lparr>rl_Key = fullKey, rl_Count = count, rl_Limit = limit, rl_TTL = ttl\<rparr>, s)))))"

definition Reset :: "('e, 's) cache \<Rightarrow> string \<Rightarrow> 'e \<Rightarrow> string \<Rightarrow> 's \<Rightarrow> gerr option \<times> 's" where
  "Reset store prefix e key s = cDelete store e (limiter_key prefix key) s"

text \<open>A run of hits on one key, one pair of surroundings per hit.\<close>

fun Hits ::
  "('e, 's) cache \<Rightarrow> string \<Rightarrow> ('e \<times> 'e) list \<Rightarrow> string \<Rightarrow> int64 \<Rightarrow> duration \<Rightarrow> 's \<Rightarrow>
   (gerr + RateLimitResult) list \<times> 's" where
  "Hits store prefix [] key limit window s = ([], s)"
| "Hits store prefix (ee # es) key limit window s =
     (case Hit store prefix ee key limit window s of (r, s1) \<Rightarrow>
        case Hits store prefix es key limit window s1 of (rs, s2) \<Rightarrow> (r # rs, s2))"

section \<open>Counting\<close>

text \<open>
  The readings of a run: each hit comes no earlier than the last reading \<open>u\<close>, before the
  window opened by the previous hit at \<open>h\<close> has closed, and its two readings are in order.
\<close>

fun paced :: "('e \<Rightarrow> time) \<Rightarrow> duration \<Rightarrow> time \<Rightarrow> time \<Rightarrow> ('e \<times> 'e) list \<Rightarrow> bool" where
  "paced tm w h u [] = True"
| "paced tm w h u ((e1, e2) # es) =
     (u \<le> tm e1 \<and> tm e1 < h + sint w \<and> tm e1 \<le> tm e2 \<and> paced tm w (tm e1) (tm e2) es)"

text \<open>The result of the \<open>n\<close>-th hit, whatever the remaining time.\<close>

definition is_hit :: "string \<Rightarrow> int64 \<Rightarrow> int64 \<Rightarrow> gerr + RateLimitResult \<Rightarrow> bool" where
  "is_hit fullKey n limit r \<longleftrightarrow>
     (\<exists>ttl. r = Inr \<lparr>rl_Key = fullKey, rl_Count = n, rl_Limit = limit, rl_TTL = ttl\<rparr>)"

lemma ttl_result_miss_as_zero: "ttl_result t en d \<Longrightarrow> \<exists>ttl. miss_as_zero d = Inr ttl"
  by (auto simp: ttl_result_def miss_as_zero_def split: option.splits)

context cache_contract
begin

lemma hit_step:
  assumes "inv s" "ok (fst ee)" "ok (snd ee)" "okttl (fst ee) w" "tm (fst ee) \<le> tm (snd ee)"
    and "Hit C p ee k lim w s = (r, s')"
    and "incr_spec (tm (fst ee)) 1 w (live (abs s) (tm (fst ee)) (limiter_key p k)) = Inr (n, en)"
  shows "is_hit (limiter_key p k) n lim r" "inv s'"
    "same_from (tm (snd ee)) ((abs s)(limiter_key p k \<mapsto> en)) (abs s')"
proof -
  let ?k = "limiter_key p k"
  obtain c s1 where i: "cIncrement C (fst ee) ?k 1 w s = (c, s1)"
    by (cases "cIncrement C (fst ee) ?k 1 w s")
  from incr_ok [OF assms(1,2,4) i assms(7)]
  have 1: "c = Inr n" "inv s1" "same_from (tm (fst ee)) ((abs s)(?k \<mapsto> en)) (abs s1)" by auto
  obtain d s2 where t: "cTTL C (snd ee) ?k s1 = (d, s2)" by (cases "cTTL C (snd ee) ?k s1")
  from ttl [OF 1(2) assms(3) t]
  have 2: "inv s2" "same_from (tm (snd ee)) (abs s1) (abs s2)" and "\<exists>ttl. miss_as_zero d = Inr ttl"
    using ttl_result_miss_as_zero by blast+
  then obtain ttl where d: "miss_as_zero d = Inr ttl" by blast
  with assms(6) i t 1 have r: "s' = s2"
    "r = Inr \<lparr>rl_Key = ?k, rl_Count = n, rl_Limit = lim, rl_TTL = ttl\<rparr>"
    by (auto simp: Hit_def Let_def)
  then show "is_hit ?k n lim r" "inv s'"
    using 2 by (auto simp: is_hit_def)
  show "same_from (tm (snd ee)) ((abs s)(?k \<mapsto> en)) (abs s')"
    using same_from_trans [OF 1(3) 2(2) assms(5)] r by simp
qed

text \<open>
  Consecutive hits inside the window count one by one from the count held at the start.
\<close>

lemma hits_count:
  assumes "inv s" "\<forall>(e1, e2) \<in> set es. ok e1 \<and> ok e2 \<and> okttl e1 w" "paced tm w h u es" "0 < sint w"
    and "\<And>t. u \<le> t \<Longrightarrow> t < h + sint w \<Longrightarrow>
      live (abs s) t (limiter_key p k) = Some (FormatInt n, Some (h + sint w))"
    and "Hits C p es k lim w s = (rs, s')" "i < length es"
  shows "is_hit (limiter_key p k) (n + 1 + of_nat i) lim (rs ! i)"
  using assms
proof (induction es arbitrary: s h u n rs i)
  case Nil
  then show ?case by simp
next
  case (Cons ee es)
  let ?k = "limiter_key p k"
  obtain e1 e2 where ee: "ee = (e1, e2)" by (cases ee)
  obtain r s1 rs1 where h1: "Hit C p ee k lim w s = (r, s1)" and hs: "Hits C p es k lim w s1 = (rs1, s')"
    and rs: "rs = r # rs1"
    using Cons.prems(6) by (auto split: prod.splits)
  have pc: "u \<le> tm e1" "tm e1 < h + sint w" "tm e1 \<le> tm e2" "paced tm w (tm e1) (tm e2) es"
    using Cons.prems(3) by (simp_all add: ee)
  let ?en = "(FormatInt (n + 1), Some (tm e1 + sint w))"
  have "incr_spec (tm e1) 1 w (live (abs s) (tm e1) ?k) = Inr (n + 1, ?en)"
    using Cons.prems(4) Cons.prems(5) [OF pc(1,2)] by (simp add: incr_spec_def expiry_def)
  then have st: "is_hit ?k (n + 1) lim r" "inv s1" "same_from (tm e2) ((abs s)(?k \<mapsto> ?en)) (abs s1)"
    using hit_step [OF Cons.prems(1) _ _ _ _ h1, of "n + 1" ?en] Cons.prems(2) pc by (auto simp: ee)
  show ?case
  proof (cases i)
    case 0
    with st rs show ?thesis by simp
  next
    case (Suc j)
    have "is_hit ?k (n + 1 + 1 + of_nat j) lim (rs1 ! j)"
    proof (rule Cons.IH [OF st(2) _ pc(4) Cons.prems(4) _ hs])
      show "\<forall>(e1, e2) \<in> set es. ok e1 \<and> ok e2 \<and> okttl e1 w"
        using Cons.prems(2) by auto
      show "live (abs s1) t ?k = Some ?en" if "tm e2 \<le> t" "t < tm e1 + sint w" for t
        using same_from_live [OF st(3) that(1), of ?k] that(2) by (simp add: live_upd alive_def)
      show "j < length es"
        using Suc Cons.prems(7) by simp
    qed
    with rs Suc show ?thesis by (simp add: algebra_simps)
  qed
qed

text \<open>The first hit on an absent key counts 1, and those that follow go on from there.\<close>

lemma hits_from_absent:
  assumes "inv s" "\<forall>(e1, e2) \<in> set (ee # es). ok e1 \<and> ok e2 \<and> okttl e1 w"
    and "tm (fst ee) \<le> tm (snd ee)" "paced tm w (tm (fst ee)) (tm (snd ee)) es" "0 < sint w"
    and "live (abs s) (tm (fst ee)) (limiter_key p k) = None"
    and "Hits C p (ee # es) k lim w s = (rs, s')" "i < Suc (length es)"
  shows "is_hit (limiter_key p k) (of_nat (Suc i)) lim (rs ! i)"
proof -
  let ?k = "limiter_key p k" and ?t = "tm (fst ee)"
  let ?en = "(FormatInt 1, Some (?t + sint w))"
  obtain r s1 rs1 where h1: "Hit C p ee k lim w s = (r, s1)" and hs: "Hits C p es k lim w s1 = (rs1, s')"
    and rs: "rs = r # rs1"
    using assms(7) by (auto split: prod.splits)
  have "incr_spec ?t 1 w (live (abs s) ?t ?k) = Inr (1, ?en)"
    using assms(5,6) by (simp add: incr_spec_def expiry_def)
  then have st: "is_hit ?k 1 lim r" "inv s1" "same_from (tm (snd ee)) ((abs s)(?k \<mapsto> ?en)) (abs s1)"
    using hit_step [OF assms(1) _ _ _ assms(3) h1, of 1 ?en] assms(2) by (auto simp: case_prod_beta)
  show ?thesis
  proof (cases i)
    case 0
    with st rs show ?thesis by simp
  next
    case (Suc j)
    have "is_hit ?k (1 + 1 + of_nat j) lim (rs1 ! j)"
    proof (rule hits_count [OF st(2) _ assms(4,5) _ hs])
      show "\<forall>(e1, e2) \<in> set es. ok e1 \<and> ok e2 \<and> okttl e1 w"
        using assms(2) by auto
      show "live (abs s1) t ?k = Some ?en" if "tm (snd ee) \<le> t" "t < ?t + sint w" for t
        using same_from_live [OF st(3) that(1), of ?k] that(2) by (simp add: live_upd alive_def)
      show "j < length es"
        using Suc assms(8) by simp
    qed
    with rs Suc show ?thesis by simp
  qed
qed

text \<open>A peek reports the held count and changes nothing; after a reset it reports 0.\<close>

lemma peek_count:
  assumes "inv s" "ok (fst ee)" "ok (snd ee)" "Peek C p ee k lim s = (r, s')"
    and "tm (fst ee) \<le> tm (snd ee)"
  shows "(case live (abs s) (tm (fst ee)) (limiter_key p k) of
            None \<Rightarrow> is_hit (limiter_key p k) 0 lim r
          | Some (v, x) \<Rightarrow>
              (case ParseInt v 64 of (n, None) \<Rightarrow> is_hit (limiter_key p k) n lim r
               | (_, Some err) \<Rightarrow> r = Inl err))"
    "inv s'" "same_from (tm (snd ee)) (abs s) (abs s')"
proof -
  let ?k = "limiter_key p k"
  obtain g s1 where g: "cGet C (fst ee) ?k s = (g, s1)" by (cases "cGet C (fst ee) ?k s")
  from get [OF assms(1,2) g] have 1: "g = get_result (live (abs s) (tm (fst ee)) ?k)" "inv s1"
    "same_from (tm (fst ee)) (abs s) (abs s1)" by auto
  obtain d s2 where t: "cTTL C (snd ee) ?k s1 = (d, s2)" by (cases "cTTL C (snd ee) ?k s1")
  from ttl [OF 1(2) assms(3) t]
  have 2: "inv s2" "same_from (tm (snd ee)) (abs s1) (abs s2)" and "\<exists>ttl. miss_as_zero d = Inr ttl"
    using ttl_result_miss_as_zero by blast+
  then obtain ttl where d: "miss_as_zero d = Inr ttl" by blast
  have s': "s' = s1 \<or> s' = s2"
    using assms(4) g t d 1(1)
    by (cases "live (abs s) (tm (fst ee)) ?k")
      (auto simp: Peek_def Let_def get_result_def split: option.splits prod.splits)
  then show "inv s'" using 1 2 by auto
  have "same_from (tm (snd ee)) (abs s) (abs s1)"
    using 1(3) assms(5) by (auto simp: same_from_def)
  with s' 2(2) show "same_from (tm (snd ee)) (abs s) (abs s')"
    using same_from_trans by blast
  show "case live (abs s) (tm (fst ee)) ?k of
            None \<Rightarrow> is_hit ?k 0 lim r
          | Some (v, x) \<Rightarrow>
              (case ParseInt v 64 of (n, None) \<Rightarrow> is_hit ?k n lim r | (_, Some err) \<Rightarrow> r = Inl err)"
    using assms(4) g t d 1(1)
    by (auto simp: Peek_def Let_def is_hit_def split: option.splits prod.splits)
qed

lemma reset_then_peek:
  assumes "inv s" "ok e" "Reset C p e k s = (err, s1)"
    and "ok (fst ee)" "ok (snd ee)" "tm e \<le> tm (fst ee)" "tm (fst ee) \<le> tm (snd ee)"
  shows "err = None \<and> is_hit (limiter_key p k) 0 lim (fst (Peek C p ee k lim s1))"
proof -
  let ?k = "limiter_key p k"
  from delete [OF assms(1,2)] assms(3)
  have 1: "err = None" "inv s1" "same_from (tm e) ((abs s)(?k := None)) (abs s1)"
    by (auto simp: Reset_def)
  have "live (abs s1) (tm (fst ee)) ?k = None"
    using same_from_live [OF 1(3) assms(6), of ?k] by (simp add: live_upd)
  moreover obtain r s2 where pk: "Peek C p ee k lim s1 = (r, s2)"
    by (cases "Peek C p ee k lim s1")
  ultimately show ?thesis
    using peek_count(1) [OF 1(2) assms(4,5) pk assms(7)] 1(1) by simp
qed

end

section \<open>Properties\<close>



text \<open>After \<open>Reset\<close> a peek at the same key reports a count of 0, which no positive limit exceeds.\<close>

theorem reset_clears_count:
  assumes "0 \<le> t" "t \<le> t1" "t1 \<le> t2"
  shows "\<exists>res. fst (Peek memory_cache p (t1, t2) k lim (snd (Reset memory_cache p t k m))) = Inr res \<and>
    rl_Count res = 0 \<and> \<not> Exceeded res"
proof -
  obtain err m1 where r: "Reset memory_cache p t k m = (err, m1)" by fastforce
  have "is_hit (limiter_key p k) 0 lim (fst (Peek memory_cache p (t1, t2) k lim m1))"
    using mem.reset_then_peek [OF _ _ r, of "(t1, t2)" lim] assms by (simp add: sane_clock_def)
  with r show ?thesis by (auto simp: is_hit_def Exceeded_def)
qed

theorem reset_clears_count_witness:
  "\<exists>res. fst (Peek memory_cache ''p'' (4, 5) ''k'' 2 (snd (Reset memory_cache ''p'' 3 ''k''
      \<lparr>items = [''p:k'' \<mapsto> \<lparr>mi_value = ''7'', mi_expiresAt = 100\<rparr>]\<rparr>))) = Inr res \<and>
    rl_Count res = 0 \<and> \<not> Exceeded res"
  by (rule reset_clears_count) simp_all

end
