(* ===== verification/Cache_Database.thy ===== *)
theory Cache_Database
  imports Cache_RateLimit
begin

text \<open>
  The SQL-backed store of \<open>cache/database.go\<close>. The database is a set of named tables of
  rows keyed by \<open>cache_key\<close>; each statement the code sends has the meaning SQL gives it.
  The surroundings of a call are the clock reading and, for the \<open>i\<close>-th driver call of the
  operation, the error it returns, if any. A statement that fails has no effect; a
  transaction works on a copy of the tables that \<open>Commit\<close> installs and \<open>Rollback\<close>
  discards. \<^term>\<open>None\<close> for the store is a nil receiver or a nil \<open>*sql.DB\<close>.
\<close>

section \<open>Tables and statements\<close>

record sqlrow =
  r_value :: bytes
  r_expires :: int64

type_synonym sqldb = "string \<rightharpoonup> (string \<rightharpoonup> sqlrow)"

record dbenv =
  db_now :: time
  db_fault :: "nat \<Rightarrow> gerr option"

definition fails :: "dbenv \<Rightarrow> nat \<Rightarrow> gerr option" where
  "fails e i = db_fault e i"

text \<open>The surroundings of a nested call that starts at the \<open>n\<close>-th driver call.\<close>

definition from_call :: "nat \<Rightarrow> dbenv \<Rightarrow> dbenv" where
  "from_call n e = e\<lparr>db_fault := \<lambda>i. db_fault e (i + n)\<rparr>"

definition no_table :: "string \<Rightarrow> gerr" where
  "no_table tbl = Errorf ''no such table: %s'' [tbl]"

definition on_table ::
  "dbenv \<Rightarrow> nat \<Rightarrow> string \<Rightarrow> sqldb \<Rightarrow> ((string \<rightharpoonup> sqlrow) \<Rightarrow> gerr + 'a) \<Rightarrow> gerr + 'a" where
  "on_table e i tbl db f =
     (case fails e i of Some err \<Rightarrow> Inl err
      | None \<Rightarrow> (case db tbl of None \<Rightarrow> Inl (no_table tbl) | Some t \<Rightarrow> f t))"

text \<open>\<open>SELECT cache_value, expires_at FROM tbl WHERE cache_key = ?\<close>, scanned.\<close>

definition sql_select :: "dbenv \<Rightarrow> nat \<Rightarrow> string \<Rightarrow> string \<Rightarrow> sqldb \<Rightarrow> gerr + sqlrow" where
  "sql_select e i tbl key db =
     on_table e i tbl db (\<lambda>t. case t key of None \<Rightarrow> Inl (Sentinel ErrNoRows) | Some row \<Rightarrow> Inr row)"

text \<open>\<open>DELETE FROM tbl WHERE cache_key = ?\<close>.\<close>

definition sql_delete :: "dbenv \<Rightarrow> nat \<Rightarrow> string \<Rightarrow> string \<Rightarrow> sqldb \<Rightarrow> gerr + sqldb" where
  "sql_delete e i tbl key db = on_table e i tbl db (\<lambda>t. Inr (db(tbl \<mapsto> t(key := None))))"

text \<open>\<open>INSERT INTO tbl (cache_key, cache_value, expires_at) VALUES (?, ?, ?)\<close>.\<close>

definition sql_insert ::
  "dbenv \<Rightarrow> nat \<Rightarrow> string \<Rightarrow> string \<Rightarrow> sqlrow \<Rightarrow> sqldb \<Rightarrow> gerr + sqldb" where
  "sql_insert e i tbl key row db =
     on_table e i tbl db (\<lambda>t. if t key \<noteq> None then Inl (Errorf ''duplicate key %s'' [key])
                             else Inr (db(tbl \<mapsto> t(key \<mapsto> row))))"

text \<open>\<open>UPDATE tbl SET cache_value = ?, expires_at = ? WHERE cache_key = ?\<close>.\<close>

definition sql_update ::
  "dbenv \<Rightarrow> nat \<Rightarrow> string \<Rightarrow> string \<Rightarrow> sqlrow \<Rightarrow> sqldb \<Rightarrow> gerr + sqldb" where
  "sql_update e i tbl key row db =
     on_table e i tbl db (\<lambda>t. Inr (db(tbl \<mapsto> (if t key = None then t else t(key \<mapsto> row)))))"

text \<open>\<open>BeginTx\<close> hands out a copy, \<open>Commit\<close> installs it.\<close>

definition sql_begin :: "dbenv \<Rightarrow> nat \<Rightarrow> sqldb \<Rightarrow> gerr + sqldb" where
  "sql_begin e i db = (case fails e i of Some err \<Rightarrow> Inl err | None \<Rightarrow> Inr db)"

section \<open>Opening\<close>

record database =
  d_driver :: string
  d_table :: string

type_synonym db_ref = "database option"

text \<open>The pattern \<open>^[A-Za-z_][A-Za-z0-9_]*$\<close>.\<close>

definition is_ident_start :: "char \<Rightarrow> bool" where
  "is_ident_start c \<longleftrightarrow> (let n = of_char c :: nat in (65 \<le> n \<and> n \<le> 90) \<or> (97 \<le> n \<and> n \<le> 122) \<or> n = 95)"

definition identifierPattern :: "string \<Rightarrow> bool" where
  "identifierPattern s \<longleftrightarrow>
     (case s of [] \<Rightarrow> False | c # cs \<Rightarrow> is_ident_start c \<and> list_all (\<lambda>d. is_ident_start d \<or> is_digit d) cs)"

definition cleanIdentifier :: "string \<Rightarrow> gerr + string" where
  "cleanIdentifier value =
     (let value = TrimSpace value;
          value = (if value = [] then ''chobits_cache'' else value)
      in if \<not> identifierPattern value then Inl (Errorf ''invalid SQL identifier %q'' [value])
         else Inr value)"

definition normalizeDriver :: "string \<Rightarrow> string" where
  "normalizeDriver driver =
     (let driver = ToLower (TrimSpace driver) in
      if driver = ''sqlite3'' then ''sqlite'' else if driver = [] then ''mysql'' else driver)"

definition NewDatabase :: "bool \<Rightarrow> string \<Rightarrow> string \<Rightarrow> gerr + database" where
  "NewDatabase db_set driver table =
     (if \<not> db_set then Inl (Sentinel ErrDatabaseUnset)
      else case cleanIdentifier table of
        Inl err \<Rightarrow> Inl err
      | Inr table \<Rightarrow>
          let driver = (if TrimSpace driver = [] then ''mysql'' else driver);
              driver = normalizeDriver driver
          in if driver = ''mysql'' \<or> driver = ''sqlite''
             then Inr \<lparr>d_driver = driver, d_table = table\<rparr>
             else Inl (Errorf ''unsupported database cache driver %q'' [driver]))"

text \<open>
  \<open>Migrate\<close> sends \<open>CREATE TABLE IF NOT EXISTS\<close> in the driver's dialect; both dialects
  declare the same three columns.
\<close>

definition Migrate :: "db_ref \<Rightarrow> dbenv \<Rightarrow> sqldb \<Rightarrow> gerr option \<times> sqldb" where
  "Migrate cache e db =
     (case cache of None \<Rightarrow> (Some (Sentinel ErrDatabaseUnset), db)
      | Some c \<Rightarrow>
          if d_driver c \<notin> {''sqlite'', ''sqlite3'', [], ''mysql''}
          then (Some (Errorf ''unsupported database cache driver %q'' [d_driver c]), db)
          else (case fails e 0 of
                  Some err \<Rightarrow> (Some (Wrapf ''migrate database cache: %w'' err []), db)
                | None \<Rightarrow> (None, if db (d_table c) = None then db(d_table c \<mapsto> Map.empty) else db)))"

section \<open>Operations\<close>

definition Database_Delete :: "db_ref \<Rightarrow> dbenv \<Rightarrow> string \<Rightarrow> sqldb \<Rightarrow> gerr option \<times> sqldb" where
  "Database_Delete cache e key db =
     (case cache of None \<Rightarrow> (Some (Sentinel ErrDatabaseUnset), db)
      | Some c \<Rightarrow> (case sql_delete e 0 (d_table c) key db of
                     Inl err \<Rightarrow> (Some err, db)
                   | Inr db' \<Rightarrow> (None, db')))"

text \<open>The test \<open>expiresAt > 0 && expiresAt <= cache.now().UnixNano()\<close>.\<close>

definition row_expired :: "sqlrow \<Rightarrow> time \<Rightarrow> bool" where
  "row_expired row now \<longleftrightarrow> 0 < sint (r_expires row) \<and> sint (r_expires row) \<le> sint (UnixNano now)"

definition no_rows_as_miss :: "gerr \<Rightarrow> gerr" where
  "no_rows_as_miss err = (if errors_Is err ErrNoRows then Sentinel ErrMiss else err)"

definition Database_Get :: "db_ref \<Rightarrow> dbenv \<Rightarrow> string \<Rightarrow> sqldb \<Rightarrow> (gerr + bytes) \<times> sqldb" where
  "Database_Get cache e key db =
     (case cache of None \<Rightarrow> (Inl (Sentinel ErrDatabaseUnset), db)
      | Some c \<Rightarrow>
          (case sql_select e 0 (d_table c) key db of
             Inl err \<Rightarrow> (Inl (no_rows_as_miss err), db)
           | Inr row \<Rightarrow>
               if row_expired row (db_now e)
               then (miss, snd (Database_Delete cache (from_call 1 e) key db))
               else (Inr (r_value row), db)))"

definition Database_Set ::
  "db_ref \<Rightarrow> dbenv \<Rightarrow> string \<Rightarrow> bytes \<Rightarrow> duration \<Rightarrow> sqldb \<Rightarrow> gerr option \<times> sqldb" where
  "Database_Set cache e key value ttl db =
     (case cache of None \<Rightarrow> (Some (Sentinel ErrDatabaseUnset), db)
      | Some c \<Rightarrow>
          let expiresAt = (if 0 < sint ttl then UnixNano (Add (db_now e) ttl) else 0) in
          (case sql_begin e 0 db of
             Inl err \<Rightarrow> (Some err, db)
           | Inr tx \<Rightarrow>
             (case sql_delete e 1 (d_table c) key tx of
                Inl err \<Rightarrow> (Some err, db)
              | Inr tx \<Rightarrow>
                (case sql_insert e 2 (d_table c) key \<lparr>r_value = value, r_expires = expiresAt\<rparr> tx of
                   Inl err \<Rightarrow> (Some err, db)
                 | Inr tx \<Rightarrow>
                   (case fails e 3 of Some err \<Rightarrow> (Some err, db) | None \<Rightarrow> (None, tx))))))"

definition Database_Take :: "db_ref \<Rightarrow> dbenv \<Rightarrow> string \<Rightarrow> sqldb \<Rightarrow> (gerr + bytes) \<times> sqldb" where
  "Database_Take cache e key db =
     (case cache of None \<Rightarrow> (Inl (Sentinel ErrDatabaseUnset), db)
      | Some c \<Rightarrow>
          (case sql_begin e 0 db of
             Inl err \<Rightarrow> (Inl err, db)
           | Inr tx \<Rightarrow>
             (case sql_select e 1 (d_table c) key tx of
                Inl err \<Rightarrow> (Inl (no_rows_as_miss err), db)
              | Inr row \<Rightarrow>
                (case sql_delete e 2 (d_table c) key tx of
                   Inl err \<Rightarrow> (Inl err, db)
                 | Inr tx \<Rightarrow>
                   (case fails e 3 of
                      Some err \<Rightarrow> (Inl err, db)
                    | None \<Rightarrow>
                        (if row_expired row (db_now e) then miss else Inr (r_value row), tx))))))"

definition Database_Exists :: "db_ref \<Rightarrow> dbenv \<Rightarrow> string \<Rightarrow> sqldb \<Rightarrow> (gerr + bool) \<times> sqldb" where
  "Database_Exists cache e key db =
     (case Database_Get cache e key db of
        (Inl err, db) \<Rightarrow> (if errors_Is err ErrMiss then Inr False else Inl err, db)
      | (Inr _, db) \<Rightarrow> (Inr True, db))"

text \<open>
  \<open>Increment\<close>: the row is read under the transaction, an expired row is deleted, the
  counter is parsed, then the row is updated or inserted. \<open>increment_write\<close> is the part
  after the expiry test; \<open>i\<close> counts the driver calls made so far, \<open>db\<close> is what a rollback
  returns to.
\<close>

definition increment_write ::
  "dbenv \<Rightarrow> nat \<Rightarrow> string \<Rightarrow> string \<Rightarrow> sqlrow option \<Rightarrow> time \<Rightarrow> int64 \<Rightarrow> duration \<Rightarrow> sqldb \<Rightarrow> sqldb \<Rightarrow>
   (gerr + int64) \<times> sqldb" where
  "increment_write e i tbl key found now delta ttl tx db =
     (case (case found of None \<Rightarrow> (0, None) | Some row \<Rightarrow> ParseInt (r_value row) 64) of
        (current, Some err) \<Rightarrow> (Inl err, db)
      | (current, None) \<Rightarrow>
          let next = current + delta;
              expiresAt = (case found of None \<Rightarrow> 0 | Some row \<Rightarrow> r_expires row);
              expiresAt = (if 0 < sint ttl then UnixNano (Add now ttl) else expiresAt);
              row = \<lparr>r_value = FormatInt next, r_expires = expiresAt\<rparr>
          in (case (if found \<noteq> None then sql_update e i tbl key row tx
                    else sql_insert e i tbl key row tx) of
                Inl err \<Rightarrow> (Inl err, db)
              | Inr tx \<Rightarrow>
                  (case fails e (i + 1) of Some err \<Rightarrow> (Inl err, db) | None \<Rightarrow> (Inr next, tx))))"

definition Database_Increment ::
  "db_ref \<Rightarrow> dbenv \<Rightarrow> string \<Rightarrow> int64 \<Rightarrow> duration \<Rightarrow> sqldb \<Rightarrow> (gerr + int64) \<times> sqldb" where
  "Database_Increment cache e key delta ttl db =
     (case cache of None \<Rightarrow> (Inl (Sentinel ErrDatabaseUnset), db)
      | Some c \<Rightarrow>
          let tbl = d_table c; now = db_now e in
          (case sql_begin e 0 db of
             Inl err \<Rightarrow> (Inl err, db)
           | Inr tx \<Rightarrow>
             (case sql_select e 1 tbl key tx of
                Inl err \<Rightarrow>
                  if errors_Is err ErrNoRows
                  then increment_write e 2 tbl key None now delta ttl tx db
                  else (Inl err, db)
              | Inr row \<Rightarrow>
                  if row_expired row now
                  then (case sql_delete e 2 tbl key tx of
                          Inl err \<Rightarrow> (Inl err, db)
                        | Inr tx \<Rightarrow> increment_write e 3 tbl key None now delta ttl tx db)
                  else increment_write e 2 tbl key (Some row) now delta ttl tx db)))"

definition Database_TTL :: "db_ref \<Rightarrow> dbenv \<Rightarrow> string \<Rightarrow> sqldb \<Rightarrow> (gerr + duration) \<times> sqldb" where
  "Database_TTL cache e key db =
     (case cache of None \<Rightarrow> (Inl (Sentinel ErrDatabaseUnset), db)
      | Some c \<Rightarrow>
          (case sql_select e 0 (d_table c) key db of
             Inl err \<Rightarrow> (Inl (no_rows_as_miss err), db)
           | Inr row \<Rightarrow>
               if r_expires row = 0 then (Inr 0, db)
               else let ttl = r_expires row - UnixNano (db_now e) in
                    if sint ttl \<le> 0
                    then (miss, snd (Database_Delete cache (from_call 1 e) key db))
                    else (Inr ttl, db)))"

definition Database_Close :: "db_ref \<Rightarrow> dbenv \<Rightarrow> sqldb \<Rightarrow> gerr option \<times> sqldb" where
  "Database_Close cache e db = (None, db)"

definition database_cache :: "db_ref \<Rightarrow> (dbenv, sqldb) cache" where
  "database_cache c = \<lparr>cGet = Database_Get c, cSet = Database_Set c, cTake = Database_Take c,
     cExists = Database_Exists c, cIncrement = Database_Increment c, cTTL = Database_TTL c,
     cDelete = Database_Delete c, cClose = Database_Close c\<rparr>"

section \<open>The contract\<close>

text \<open>
  The store's table exists and every stored expiry is 0 or a time after 1970.
\<close>

definition db_inv :: "database \<Rightarrow> sqldb \<Rightarrow> bool" where
  "db_inv c db \<longleftrightarrow>
     (\<exists>t. db (d_table c) = Some t \<and> (\<forall>k row. t k = Some row \<longrightarrow> 0 \<le> sint (r_expires row)))"

definition row_entry :: "sqlrow \<Rightarrow> entry" where
  "row_entry row = (r_value row, if r_expires row = 0 then None else Some (sint (r_expires row)))"

definition db_abs :: "database \<Rightarrow> sqldb \<Rightarrow> string \<rightharpoonup> entry" where
  "db_abs c db k =
     (case db (d_table c) of None \<Rightarrow> None | Some t \<Rightarrow> map_option row_entry (t k))"

text \<open>No driver call fails, and the clock reads a time that fits in 64-bit nanoseconds.\<close>

definition db_ok :: "dbenv \<Rightarrow> bool" where
  "db_ok e \<longleftrightarrow> (\<forall>i. db_fault e i = None) \<and> 0 \<le> db_now e \<and> db_now e < 2 ^ 63"

definition db_okttl :: "dbenv \<Rightarrow> duration \<Rightarrow> bool" where
  "db_okttl e ttl \<longleftrightarrow> (0 < sint ttl \<longrightarrow> db_now e + sint ttl < 2 ^ 63)"

lemma db_ok_simps [simp]:
  assumes "db_ok e"
  shows "fails e i = None" "fails (from_call n e) i = None"
    "sint (UnixNano (db_now e)) = db_now e"
  using assms by (simp_all add: db_ok_def fails_def from_call_def sint_UnixNano)

lemma sint_expires_zero: "sint (w :: int64) = 0 \<longleftrightarrow> w = 0"
proof
  assume "sint w = 0"
  then have "word_of_int (sint w) = (0 :: int64)" by simp
  then show "w = 0" by simp
qed simp

lemma db_abs_upd [simp]:
  "db (d_table c) = Some t \<Longrightarrow>
   db_abs c (db(d_table c \<mapsto> t(k := x))) = (db_abs c db)(k := map_option row_entry x)"
  by (auto simp: db_abs_def)

lemma db_inv_upd [simp]:
  "db_inv c db \<Longrightarrow> db (d_table c) = Some t \<Longrightarrow>
   (case x of None \<Rightarrow> True | Some row \<Rightarrow> 0 \<le> sint (r_expires row)) \<Longrightarrow>
   db_inv c (db(d_table c \<mapsto> t(k := x)))"
  by (auto simp: db_inv_def)

lemma db_ok_expires:
  "db_ok e \<Longrightarrow> db_okttl e ttl \<Longrightarrow> 0 < sint ttl \<Longrightarrow>
   sint (UnixNano (Add (db_now e) ttl)) = db_now e + sint ttl"
  by (auto simp: db_ok_def db_okttl_def Add_def intro!: sint_UnixNano)

lemma row_entry_new:
  assumes "db_ok e" "db_okttl e ttl"
  shows "row_entry \<lparr>r_value = v, r_expires = (if 0 < sint ttl then UnixNano (Add (db_now e) ttl) else 0)\<rparr> =
      (v, expiry (db_now e) ttl None)"
    "0 \<le> sint (if 0 < sint ttl then UnixNano (Add (db_now e) ttl) else 0)"
  using assms db_ok_expires [OF assms]
  by (auto simp: row_entry_def expiry_def db_ok_def sint_expires_zero [symmetric])

lemma row_entry_keep:
  assumes "db_ok e" "db_okttl e ttl"
  shows "row_entry \<lparr>r_value = v, r_expires = (if 0 < sint ttl then UnixNano (Add (db_now e) ttl) else r_expires row)\<rparr> =
      (v, expiry (db_now e) ttl (snd (row_entry row)))"
    "0 \<le> sint (r_expires row) \<Longrightarrow>
     0 \<le> sint (if 0 < sint ttl then UnixNano (Add (db_now e) ttl) else r_expires row)"
  using assms db_ok_expires [OF assms]
  by (auto simp: row_entry_def expiry_def db_ok_def sint_expires_zero [symmetric])

lemma row_expired_iff:
  "db_ok e \<Longrightarrow> 0 \<le> sint (r_expires row) \<Longrightarrow> row_expired row (db_now e) \<longleftrightarrow> \<not> alive (db_now e) (row_entry row)"
  by (auto simp: row_expired_def alive_def row_entry_def sint_expires_zero [symmetric])

text \<open>
  What a call finds: the table, and the row under the key as the contract's live entry sees it.
\<close>

lemma db_inv_E:
  assumes "db_inv c db"
  obtains t where "db (d_table c) = Some t" "\<forall>k row. t k = Some row \<longrightarrow> 0 \<le> sint (r_expires row)"
  using assms by (auto simp: db_inv_def)

lemma live_db_abs:
  assumes "db_ok e" "db (d_table c) = Some t" "\<forall>k row. t k = Some row \<longrightarrow> 0 \<le> sint (r_expires row)"
  shows "live (db_abs c db) (db_now e) k =
     (case t k of None \<Rightarrow> None
      | Some row \<Rightarrow> if row_expired row (db_now e) then None else Some (row_entry row))"
  using assms by (auto simp: live_def db_abs_def row_expired_iff split: option.splits)

lemma sql_ok:
  assumes "db_ok e" "db tbl = Some t"
  shows "sql_select e i tbl k db = (case t k of None \<Rightarrow> Inl (Sentinel ErrNoRows) | Some row \<Rightarrow> Inr row)"
    "sql_delete e i tbl k db = Inr (db(tbl \<mapsto> t(k := None)))"
    "sql_delete (from_call n e) i tbl k db = Inr (db(tbl \<mapsto> t(k := None)))"
    "sql_insert e i tbl k row db =
       (if t k \<noteq> None then Inl (Errorf ''duplicate key %s'' [k]) else Inr (db(tbl \<mapsto> t(k \<mapsto> row))))"
    "sql_update e i tbl k row db = Inr (db(tbl \<mapsto> (if t k = None then t else t(k \<mapsto> row))))"
    "sql_begin e i db = Inr db"
  using assms by (simp_all add: sql_select_def sql_delete_def sql_insert_def sql_update_def
      sql_begin_def on_table_def)

lemma Database_Delete_ok:
  assumes "db_inv c db" "db_ok e" "Database_Delete (Some c) e k db = (err, db')"
  shows "err = None \<and> db_inv c db' \<and> db_abs c db' = (db_abs c db)(k := None)"
proof -
  obtain t where t: "db (d_table c) = Some t" using assms(1) by (rule db_inv_E)
  with assms sql_ok(2) [where e = e and db = db and tbl = "d_table c" and t = t, OF assms(2) t] show ?thesis
    by (auto simp: Database_Delete_def)
qed

text \<open>The cleanup after an expired row was read: same statement, later driver call.\<close>

lemma Database_Delete_later:
  assumes "db_inv c db" "db_ok e" "live (db_abs c db) (db_now e) k = None"
  shows "db_inv c (snd (Database_Delete (Some c) (from_call n e) k db))"
    "same_from (db_now e) (db_abs c db) (db_abs c (snd (Database_Delete (Some c) (from_call n e) k db)))"
proof -
  have "db_ok (from_call n e)"
    using assms(2) by (simp add: db_ok_def from_call_def)
  then have d: "db_inv c (snd (Database_Delete (Some c) (from_call n e) k db))"
    "db_abs c (snd (Database_Delete (Some c) (from_call n e) k db)) = (db_abs c db)(k := None)"
    using Database_Delete_ok [OF assms(1)]
    by (cases "Database_Delete (Some c) (from_call n e) k db", force)+
  show "db_inv c (snd (Database_Delete (Some c) (from_call n e) k db))" by (fact d(1))
  show "same_from (db_now e) (db_abs c db) (db_abs c (snd (Database_Delete (Some c) (from_call n e) k db)))"
    unfolding d(2) by (rule same_from_drop_dead [OF assms(3)])
qed

lemma Database_Get_ok:
  assumes "db_inv c db" "db_ok e" "Database_Get (Some c) e k db = (r, db')"
  shows "r = get_result (live (db_abs c db) (db_now e) k) \<and> db_inv c db' \<and>
    same_from (db_now e) (db_abs c db) (db_abs c db')"
proof -
  obtain t where t: "db (d_table c) = Some t" "\<forall>k row. t k = Some row \<longrightarrow> 0 \<le> sint (r_expires row)"
    using assms(1) by (rule db_inv_E)
  note live = live_db_abs [of e db c t k, OF assms(2) t]
  note cleanup = Database_Delete_later [OF assms(1,2), where k = k and n = 1]
  show ?thesis
    using assms live cleanup sql_ok(1) [where e = e and db = db and tbl = "d_table c" and t = t, OF assms(2) t(1)]
    by (auto simp: Database_Get_def no_rows_as_miss_def row_entry_def
        split: option.splits if_splits)
qed

lemma Database_Exists_ok:
  assumes "db_inv c db" "db_ok e" "Database_Exists (Some c) e k db = (b, db')"
  shows "b = Inr (live (db_abs c db) (db_now e) k \<noteq> None) \<and> db_inv c db' \<and>
    same_from (db_now e) (db_abs c db) (db_abs c db')"
proof -
  obtain r db1 where g: "Database_Get (Some c) e k db = (r, db1)"
    by (cases "Database_Get (Some c) e k db")
  from Database_Get_ok [OF assms(1,2) g] assms(3) g show ?thesis
    by (cases "live (db_abs c db) (db_now e) k") (auto simp: Database_Exists_def)
qed

lemma Database_Take_ok:
  assumes "db_inv c db" "db_ok e" "Database_Take (Some c) e k db = (r, db')"
  shows "r = get_result (live (db_abs c db) (db_now e) k) \<and> db_inv c db' \<and>
    same_from (db_now e) ((db_abs c db)(k := None)) (db_abs c db')"
proof -
  obtain t where t: "db (d_table c) = Some t" "\<forall>k row. t k = Some row \<longrightarrow> 0 \<le> sint (r_expires row)"
    using assms(1) by (rule db_inv_E)
  note live = live_db_abs [of e db c t k, OF assms(2) t]
  have absent: "t k = None \<Longrightarrow> (db_abs c db)(k := None) = db_abs c db"
    using t(1) by (auto simp: db_abs_def)
  show ?thesis
    using assms live absent t(1) sql_ok [where e = e and db = db and tbl = "d_table c" and t = t, OF assms(2) t(1)]
    by (auto simp: Database_Take_def no_rows_as_miss_def row_entry_def
        split: option.splits if_splits)
qed

lemma Database_Set_ok:
  assumes "db_inv c db" "db_ok e" "db_okttl e ttl" "Database_Set (Some c) e k v ttl db = (err, db')"
  shows "err = None \<and> db_inv c db' \<and> db_abs c db' = (db_abs c db)(k \<mapsto> (v, expiry (db_now e) ttl None))"
proof -
  obtain t where t: "db (d_table c) = Some t" using assms(1) by (rule db_inv_E)
  let ?row = "\<lparr>r_value = v, r_expires = (if 0 < sint ttl then UnixNano (Add (db_now e) ttl) else 0)\<rparr>"
  have "(db(d_table c \<mapsto> t(k := None))) (d_table c) = Some (t(k := None))" by simp
  note ins = sql_ok(4) [where e = e and db = "db(d_table c \<mapsto> t(k := None))" and tbl = "d_table c" and t = "t(k := None)", OF assms(2) this]
  have "err = None" "db' = db(d_table c \<mapsto> t(k \<mapsto> ?row))"
    using assms(2,4) sql_ok [where e = e and db = db and tbl = "d_table c" and t = t, OF assms(2) t] ins by (auto simp: Database_Set_def)
  with row_entry_new [OF assms(2,3)] assms(1) t show ?thesis
    by simp
qed

lemma Database_TTL_ok:
  assumes "db_inv c db" "db_ok e" "Database_TTL (Some c) e k db = (d, db')"
  shows "ttl_result (db_now e) (live (db_abs c db) (db_now e) k) d \<and> db_inv c db' \<and>
    same_from (db_now e) (db_abs c db) (db_abs c db')"
proof -
  obtain t where t: "db (d_table c) = Some t" "\<forall>k row. t k = Some row \<longrightarrow> 0 \<le> sint (r_expires row)"
    using assms(1) by (rule db_inv_E)
  note live = live_db_abs [of e db c t k, OF assms(2) t]
  note cleanup = Database_Delete_later [OF assms(1,2), where k = k and n = 1]
  show ?thesis
  proof (cases "t k")
    case None
    with assms live sql_ok(1) [where e = e and db = db and tbl = "d_table c" and t = t, OF assms(2) t(1)] show ?thesis
      by (auto simp: Database_TTL_def no_rows_as_miss_def ttl_result_def)
  next
    case (Some row)
    have now: "0 \<le> db_now e" "db_now e < 2 ^ 63" using assms(2) by (auto simp: db_ok_def)
    have b: "0 \<le> sint (r_expires row)" "sint (r_expires row) < 2 ^ 63"
      using t(2) Some sint_int64_bounds by auto
    have diff: "sint (r_expires row - UnixNano (db_now e)) = sint (r_expires row) - db_now e"
    proof -
      have "r_expires row - UnixNano (db_now e) = word_of_int (sint (r_expires row) - db_now e)"
        by (simp add: UnixNano_def)
      then show ?thesis
        by (simp only:) (rule sint_of_int64, use now b in auto)
    qed
    have ex: "row_expired row (db_now e) \<longleftrightarrow> r_expires row \<noteq> 0 \<and> sint (r_expires row) \<le> db_now e"
      using b(1) assms(2) by (auto simp: row_expired_def sint_expires_zero [symmetric])
    show ?thesis
      using assms Some live cleanup sql_ok(1) [where e = e and db = db and tbl = "d_table c" and t = t, OF assms(2) t(1)] now b
      by (auto simp: Database_TTL_def ttl_result_def row_entry_def Let_def diff ex
          split: if_splits)
  qed
qed

text \<open>\<open>Increment\<close>, in the three situations the row can be in.\<close>

lemma increment_write_fresh:
  assumes "db_ok e" "db_okttl e ttl" "tx tbl = Some t" "t k = None"
  shows "increment_write e i tbl k None (db_now e) delta ttl tx db =
    (Inr delta, tx(tbl \<mapsto> t(k \<mapsto> \<lparr>r_value = FormatInt delta,
       r_expires = (if 0 < sint ttl then UnixNano (Add (db_now e) ttl) else 0)\<rparr>)))"
  using assms sql_ok [where e = e and db = tx and tbl = tbl and t = t, OF assms(1,3)] by (simp add: increment_write_def Let_def)

lemma increment_write_found:
  assumes "db_ok e" "db_okttl e ttl" "tx tbl = Some t" "t k = Some row"
    and "ParseInt (r_value row) 64 = (n, None)"
  shows "increment_write e i tbl k (Some row) (db_now e) delta ttl tx db =
    (Inr (n + delta), tx(tbl \<mapsto> t(k \<mapsto> \<lparr>r_value = FormatInt (n + delta),
       r_expires = (if 0 < sint ttl then UnixNano (Add (db_now e) ttl) else r_expires row)\<rparr>)))"
  using assms sql_ok [where e = e and db = tx and tbl = tbl and t = t, OF assms(1,3)] by (simp add: increment_write_def Let_def)

lemma increment_write_err:
  assumes "ParseInt (r_value row) 64 = (n, Some er)"
  shows "increment_write e i tbl k (Some row) now delta ttl tx db = (Inl er, db)"
  using assms by (simp add: increment_write_def)

lemma Database_Increment_ok:
  assumes "db_inv c db" "db_ok e" "db_okttl e ttl"
    and "Database_Increment (Some c) e k delta ttl db = (r, db')"
    and "incr_spec (db_now e) delta ttl (live (db_abs c db) (db_now e) k) = Inr (n, en)"
  shows "r = Inr n \<and> db_inv c db' \<and> db_abs c db' = (db_abs c db)(k \<mapsto> en)"
proof -
  obtain t where t: "db (d_table c) = Some t" "\<forall>k row. t k = Some row \<longrightarrow> 0 \<le> sint (r_expires row)"
    using assms(1) by (rule db_inv_E)
  note live = live_db_abs [of e db c t k, OF assms(2) t]
  note sql = sql_ok [where e = e and db = db and tbl = "d_table c" and t = t, OF assms(2) t(1)]
  let ?ex = "if 0 < sint ttl then UnixNano (Add (db_now e) ttl) else 0"
  consider (fresh) "t k = None" | (dead) row where "t k = Some row" "row_expired row (db_now e)"
    | (found) row where "t k = Some row" "\<not> row_expired row (db_now e)"
    by (cases "t k") auto
  then show ?thesis
  proof cases
    case fresh
    with assms(4) sql increment_write_fresh [of e ttl db "d_table c" t k, OF assms(2,3) t(1) fresh]
    have "r = Inr delta" "db' = db(d_table c \<mapsto> t(k \<mapsto> \<lparr>r_value = FormatInt delta, r_expires = ?ex\<rparr>))"
      by (auto simp: Database_Increment_def Let_def)
    with assms(1,5) live fresh t(1) row_entry_new [OF assms(2,3)] show ?thesis
      by (auto simp: incr_spec_def)
  next
    case dead
    have u: "(db(d_table c \<mapsto> t(k := None))) (d_table c) = Some (t(k := None))" by simp
    from dead assms(4) sql increment_write_fresh [of e ttl "db(d_table c \<mapsto> t(k := None))" "d_table c" "t(k := None)" k, OF assms(2,3) u]
    have "r = Inr delta" "db' = db(d_table c \<mapsto> t(k \<mapsto> \<lparr>r_value = FormatInt delta, r_expires = ?ex\<rparr>))"
      by (auto simp: Database_Increment_def Let_def)
    with assms(1,5) live dead t(1) row_entry_new [OF assms(2,3)] show ?thesis
      by (auto simp: incr_spec_def)
  next
    case found
    obtain m where m: "ParseInt (r_value row) 64 = (m, None)"
      using assms(5) live found
      by (cases "ParseInt (r_value row) 64"; cases "snd (ParseInt (r_value row) 64)")
        (auto simp: incr_spec_def row_entry_def)
    from found assms(4) sql increment_write_found [of e ttl db "d_table c" t k row, OF assms(2,3) t(1) found(1) m]
    have "r = Inr (m + delta)" "db' = db(d_table c \<mapsto> t(k \<mapsto> \<lparr>r_value = FormatInt (m + delta),
       r_expires = (if 0 < sint ttl then UnixNano (Add (db_now e) ttl) else r_expires row)\<rparr>))"
      by (auto simp: Database_Increment_def Let_def)
    moreover have "n = m + delta" "en = (FormatInt (m + delta), expiry (db_now e) ttl (snd (row_entry row)))"
      using assms(5) live found m by (auto simp: incr_spec_def row_entry_def)
    ultimately show ?thesis
      using assms(1) t found(1) row_entry_keep [OF assms(2,3)]
      by simp
  qed
qed

lemma Database_Increment_err:
  assumes "db_inv c db" "db_ok e"
    and "Database_Increment (Some c) e k delta ttl db = (r, db')"
    and "incr_spec (db_now e) delta ttl (live (db_abs c db) (db_now e) k) = Inl er"
  shows "r = Inl er \<and> db' = db"
proof -
  obtain t where t: "db (d_table c) = Some t" "\<forall>k row. t k = Some row \<longrightarrow> 0 \<le> sint (r_expires row)"
    using assms(1) by (rule db_inv_E)
  note live = live_db_abs [of e db c t k, OF assms(2) t]
  obtain row where row: "t k = Some row" "\<not> row_expired row (db_now e)"
    using assms(4) live by (auto simp: incr_spec_def split: option.splits if_splits)
  obtain m where m: "ParseInt (r_value row) 64 = (m, Some er)"
    using assms(4) live row
    by (cases "ParseInt (r_value row) 64"; cases "snd (ParseInt (r_value row) 64)")
      (auto simp: incr_spec_def row_entry_def)
  show ?thesis
    using assms(3) row sql_ok [where e = e and db = db and tbl = "d_table c" and t = t, OF assms(2) t(1)] increment_write_err [OF m]
    by (auto simp: Database_Increment_def Let_def)
qed

interpretation dbc: cache_contract "database_cache (Some c)" "db_abs c" "db_inv c" db_now db_ok db_okttl
  for c
proof
  fix s e k r s'
  assume "db_inv c s" "db_ok e" "cGet (database_cache (Some c)) e k s = (r, s')"
  then show "r = get_result (live (db_abs c s) (db_now e) k) \<and> db_inv c s' \<and>
      same_from (db_now e) (db_abs c s) (db_abs c s')"
    using Database_Get_ok by (simp add: database_cache_def)
next
  fix s e ttl k v err s'
  assume "db_inv c s" "db_ok e" "db_okttl e ttl" "cSet (database_cache (Some c)) e k v ttl s = (err, s')"
  then show "err = None \<and> db_inv c s' \<and>
      same_from (db_now e) ((db_abs c s)(k \<mapsto> (v, expiry (db_now e) ttl None))) (db_abs c s')"
    using Database_Set_ok [of c s e ttl k v err s'] by (simp add: database_cache_def)
next
  fix s e k r s'
  assume "db_inv c s" "db_ok e" "cTake (database_cache (Some c)) e k s = (r, s')"
  then show "r = get_result (live (db_abs c s) (db_now e) k) \<and> db_inv c s' \<and>
      same_from (db_now e) ((db_abs c s)(k := None)) (db_abs c s')"
    using Database_Take_ok by (simp add: database_cache_def)
next
  fix s e k b s'
  assume "db_inv c s" "db_ok e" "cExists (database_cache (Some c)) e k s = (b, s')"
  then show "b = Inr (live (db_abs c s) (db_now e) k \<noteq> None) \<and> db_inv c s' \<and>
      same_from (db_now e) (db_abs c s) (db_abs c s')"
    using Database_Exists_ok by (simp add: database_cache_def)
next
  fix s e ttl k delta r s' n en
  assume "db_inv c s" "db_ok e" "db_okttl e ttl"
    "cIncrement (database_cache (Some c)) e k delta ttl s = (r, s')"
    "incr_spec (db_now e) delta ttl (live (db_abs c s) (db_now e) k) = Inr (n, en)"
  then show "r = Inr n \<and> db_inv c s' \<and> same_from (db_now e) ((db_abs c s)(k \<mapsto> en)) (db_abs c s')"
    using Database_Increment_ok [of c s e ttl k delta r s' n en] by (simp add: database_cache_def)
next
  fix s e k delta ttl r s' er
  assume "db_inv c s" "db_ok e" "cIncrement (database_cache (Some c)) e k delta ttl s = (r, s')"
    "incr_spec (db_now e) delta ttl (live (db_abs c s) (db_now e) k) = Inl er"
  then show "r = Inl er \<and> db_inv c s' \<and> same_from (db_now e) (db_abs c s) (db_abs c s')"
    using Database_Increment_err [of c s e k delta ttl r s' er] by (simp add: database_cache_def)
next
  fix s e k d s'
  assume "db_inv c s" "db_ok e" "cTTL (database_cache (Some c)) e k s = (d, s')"
  then show "ttl_result (db_now e) (live (db_abs c s) (db_now e) k) d \<and> db_inv c s' \<and>
      same_from (db_now e) (db_abs c s) (db_abs c s')"
    using Database_TTL_ok by (simp add: database_cache_def)
next
  fix s e k err s'
  assume "db_inv c s" "db_ok e" "cDelete (database_cache (Some c)) e k s = (err, s')"
  then show "err = None \<and> db_inv c s' \<and> same_from (db_now e) ((db_abs c s)(k := None)) (db_abs c s')"
    using Database_Delete_ok [of c s e k err s'] by (simp add: database_cache_def)
qed

section \<open>Properties\<close>

text \<open>
  A value set in a working database store is read back unchanged until its lifetime has
  passed, and from that instant on the read is a miss. A lifetime of zero or less never ends.
\<close>

theorem database_set_then_get:
  assumes "db_inv c db" "db_ok e" "db_okttl e ttl" "db_ok e'" "db_now e \<le> db_now e'"
  shows "fst (Database_Get (Some c) e' k (snd (Database_Set (Some c) e k v ttl db))) =
    (if 0 < sint ttl \<and> db_now e + sint ttl \<le> db_now e' then miss else Inr v)"
proof -
  obtain err db1 where s: "cSet (database_cache (Some c)) e k v ttl db = (err, db1)" by fastforce
  obtain r db2 where g: "cGet (database_cache (Some c)) e' k db1 = (r, db2)" by fastforce
  have "r = (if 0 < sint ttl \<and> db_now e + sint ttl \<le> db_now e' then miss else Inr v)"
    by (rule dbc.set_then_get [OF assms(1-3) s assms(4,5) g])
  with s g show ?thesis by (simp add: database_cache_def)
qed

theorem database_set_then_get_witness:
  "fst (Database_Get (Some \<lparr>d_driver = ''sqlite'', d_table = ''t''\<rparr>) \<lparr>db_now = 7, db_fault = \<lambda>_. None\<rparr> ''k''
     (snd (Database_Set (Some \<lparr>d_driver = ''sqlite'', d_table = ''t''\<rparr>) \<lparr>db_now = 2, db_fault = \<lambda>_. None\<rparr> ''k'' ''v'' 5
       [''t'' \<mapsto> Map.empty]))) = miss"
  using database_set_then_get [of "\<lparr>d_driver = ''sqlite'', d_table = ''t''\<rparr>" "[''t'' \<mapsto> Map.empty]"
      "\<lparr>db_now = 2, db_fault = \<lambda>_. None\<rparr>" 5 "\<lparr>db_now = 7, db_fault = \<lambda>_. None\<rparr>" "''k''" "''v''"]
  by (simp add: db_inv_def db_ok_def db_okttl_def)



lemma cleanIdentifier_ok: "cleanIdentifier v = Inr t \<Longrightarrow> identifierPattern t"
  unfolding cleanIdentifier_def Let_def by (simp split: if_splits)

lemma identifierPattern_chars:
  "identifierPattern t \<Longrightarrow> t \<noteq> [] \<and> is_ident_start (hd t) \<and> (\<forall>x \<in> set t. is_ident_start x \<or> is_digit x)"
  by (cases t) (simp_all add: identifierPattern_def list_all_iff)

lemma NewDatabase_ok:
  "NewDatabase given driver table = Inr c \<Longrightarrow>
   cleanIdentifier table = Inr (d_table c) \<and> d_driver c \<in> {''mysql'', ''sqlite''}"
  unfolding NewDatabase_def Let_def by (auto split: if_split_asm sum.split_asm)

text \<open>
  The table name of an opened database store is a plain SQL identifier: letters, digits and
  underscores only, not starting with a digit. No quote, space or semicolon of a configured name
  reaches a statement. The driver is one of the two supported ones.
\<close>

theorem opened_table_is_identifier:
  "NewDatabase given driver table = Inr c \<Longrightarrow>
   d_table c \<noteq> [] \<and> is_ident_start (hd (d_table c)) \<and>
   (\<forall>x \<in> set (d_table c). is_ident_start x \<or> is_digit x) \<and> d_driver c \<in> {''mysql'', ''sqlite''}"
  using NewDatabase_ok [of given driver table c] cleanIdentifier_ok identifierPattern_chars by blast

theorem opened_table_is_identifier_witness:
  "NewDatabase True ''SQLite3'' ''users_1'' = Inr \<lparr>d_driver = ''sqlite'', d_table = ''users_1''\<rparr> \<and>
   is_ident_start (hd ''users_1'')"
proof -
  have t: "TrimSpace ''users_1'' = ''users_1''" "TrimSpace ''SQLite3'' = ''SQLite3''"
    by (rule TrimSpace_graphic, simp add: graphic_def)+
  have l: "ToLower ''SQLite3'' = ''sqlite3''" by code_simp
  have nd: "normalizeDriver ''SQLite3'' = ''sqlite''"
    unfolding normalizeDriver_def Let_def t l by simp
  have i: "cleanIdentifier ''users_1'' = Inr ''users_1''"
    unfolding cleanIdentifier_def Let_def t
    by (simp add: identifierPattern_def is_ident_start_def is_digit_def)
  have n: "NewDatabase True ''SQLite3'' ''users_1'' = Inr \<lparr>d_driver = ''sqlite'', d_table = ''users_1''\<rparr>"
    unfolding NewDatabase_def i by (simp add: t nd)
  from opened_table_is_identifier [OF n] n show ?thesis by simp
qed

end
