(* ===== verification/Cache_Equivalence.thy ===== *)
theory Cache_Equivalence
  imports Cache_Database Cache_Fallback
begin

text \<open>
  Two stores that keep the contract answer a client alike: a sequence of calls gives the same
  results on both, whatever they hold internally, when they start from the same entries and
  read the same times. The memory store and the database store are such a pair, so the
  in-process store is a stand-in for the database one.
\<close>

section \<open>Sequences of calls\<close>

datatype cop =
    OGet string
  | OSet string bytes duration
  | OTake string
  | OExists string
  | OIncrement string int64 duration
  | OTTL string
  | ODelete string

datatype answer =
    ABytes "gerr + bytes"
  | AError "gerr option"
  | ABool "gerr + bool"
  | AInt "gerr + int64"
  | ATime "gerr + duration"

fun perform :: "('e, 's) cache \<Rightarrow> 'e \<Rightarrow> cop \<Rightarrow> 's \<Rightarrow> answer \<times> 's" where
  "perform C e (OGet k) s = (case cGet C e k s of (r, s) \<Rightarrow> (ABytes r, s))"
| "perform C e (OSet k v d) s = (case cSet C e k v d s of (r, s) \<Rightarrow> (AError r, s))"
| "perform C e (OTake k) s = (case cTake C e k s of (r, s) \<Rightarrow> (ABytes r, s))"
| "perform C e (OExists k) s = (case cExists C e k s of (r, s) \<Rightarrow> (ABool r, s))"
| "perform C e (OIncrement k n d) s = (case cIncrement C e k n d s of (r, s) \<Rightarrow> (AInt r, s))"
| "perform C e (OTTL k) s = (case cTTL C e k s of (r, s) \<Rightarrow> (ATime r, s))"
| "perform C e (ODelete k) s = (case cDelete C e k s of (r, s) \<Rightarrow> (AError r, s))"

fun performs :: "('e, 's) cache \<Rightarrow> ('e \<times> cop) list \<Rightarrow> 's \<Rightarrow> answer list \<times> 's" where
  "performs C [] s = ([], s)"
| "performs C ((e, p) # ps) s =
     (case perform C e p s of (r, s) \<Rightarrow> case performs C ps s of (rs, s) \<Rightarrow> (r # rs, s))"

text \<open>The lifetime a call asks for.\<close>

fun lifetime :: "cop \<Rightarrow> duration" where
  "lifetime (OSet _ _ d) = d"
| "lifetime (OIncrement _ _ d) = d"
| "lifetime _ = 0"

section \<open>What one call does to the entries\<close>

text \<open>The entries after a call, and the answers the contract allows.\<close>

fun spec_entries :: "time \<Rightarrow> cop \<Rightarrow> (string \<rightharpoonup> entry) \<Rightarrow> string \<rightharpoonup> entry" where
  "spec_entries t (OSet k v d) m = m(k \<mapsto> (v, expiry t d None))"
| "spec_entries t (OTake k) m = m(k := None)"
| "spec_entries t (ODelete k) m = m(k := None)"
| "spec_entries t (OIncrement k n d) m =
     (case incr_spec t n d (live m t k) of Inl _ \<Rightarrow> m | Inr (_, en) \<Rightarrow> m(k \<mapsto> en))"
| "spec_entries t _ m = m"

fun spec_answer :: "time \<Rightarrow> cop \<Rightarrow> (string \<rightharpoonup> entry) \<Rightarrow> answer \<Rightarrow> bool" where
  "spec_answer t (OGet k) m a \<longleftrightarrow> a = ABytes (get_result (live m t k))"
| "spec_answer t (OSet k v d) m a \<longleftrightarrow> a = AError None"
| "spec_answer t (OTake k) m a \<longleftrightarrow> a = ABytes (get_result (live m t k))"
| "spec_answer t (OExists k) m a \<longleftrightarrow> a = ABool (Inr (live m t k \<noteq> None))"
| "spec_answer t (OIncrement k n d) m a \<longleftrightarrow>
     a = AInt (case incr_spec t n d (live m t k) of Inl err \<Rightarrow> Inl err | Inr (c, _) \<Rightarrow> Inr c)"
| "spec_answer t (OTTL k) m a \<longleftrightarrow> (\<exists>d. a = ATime d \<and> ttl_result t (live m t k) d)"
| "spec_answer t (ODelete k) m a \<longleftrightarrow> a = AError None"

lemma sint_determines: "sint (a :: int64) = n \<Longrightarrow> sint b = n \<Longrightarrow> a = b"
proof -
  assume "sint a = n" "sint b = n"
  then have "word_of_int (sint a) = (word_of_int (sint b) :: int64)" by simp
  then show "a = b" by simp
qed

lemma ttl_result_unique: "ttl_result t en d \<Longrightarrow> ttl_result t en d' \<Longrightarrow> d = d'"
  by (auto simp: ttl_result_def split: option.splits prod.splits intro: sint_determines)

lemma spec_answer_unique: "spec_answer t p m a \<Longrightarrow> spec_answer t p m a' \<Longrightarrow> a = a'"
  by (cases p) (auto dest: ttl_result_unique)

text \<open>Both depend only on what is live from the time of the call on.\<close>

lemma spec_answer_same: "same_from t m m' \<Longrightarrow> spec_answer t p m' a = spec_answer t p m a"
  by (cases p) (simp_all add: same_from_live)

lemma spec_entries_same: "same_from t m m' \<Longrightarrow> same_from t (spec_entries t p m) (spec_entries t p m')"
  by (cases p) (auto simp: same_from_def live_upd split: sum.splits)

lemma same_from_later: "same_from t m m' \<Longrightarrow> t \<le> u \<Longrightarrow> same_from u m m'"
  by (auto simp: same_from_def)

lemma same_from_sym: "same_from t m m' \<Longrightarrow> same_from t m' m"
  by (simp add: same_from_def)

context cache_contract
begin

lemma perform_spec:
  assumes "inv s" "ok e" "okttl e (lifetime p)" "perform C e p s = (a, s')"
  shows "spec_answer (tm e) p (abs s) a \<and> inv s' \<and> same_from (tm e) (spec_entries (tm e) p (abs s)) (abs s')"
proof (cases p)
  case (OGet k)
  with assms(4) get [OF assms(1,2)] show ?thesis by (fastforce split: prod.splits)
next
  case (OSet k v d)
  with assms(3,4) set [OF assms(1,2)] show ?thesis by (fastforce split: prod.splits)
next
  case (OTake k)
  with assms(4) take [OF assms(1,2)] show ?thesis by (fastforce split: prod.splits)
next
  case (OExists k)
  with assms(4) exists [OF assms(1,2)] show ?thesis by (fastforce split: prod.splits)
next
  case (OTTL k)
  with assms(4) ttl [OF assms(1,2)] show ?thesis by (fastforce split: prod.splits)
next
  case (ODelete k)
  with assms(4) delete [OF assms(1,2)] show ?thesis by (fastforce split: prod.splits)
next
  case (OIncrement k n d)
  obtain c s1 where i: "cIncrement C e k n d s = (c, s1)" by fastforce
  show ?thesis
  proof (cases "incr_spec (tm e) n d (live (abs s) (tm e) k)")
    case (Inl er)
    with i OIncrement assms(4) incr_err [OF assms(1,2) i Inl] show ?thesis by auto
  next
    case (Inr x)
    obtain m en where x: "x = (m, en)" by (cases x)
    with i OIncrement assms(3,4) Inr incr_ok [OF assms(1,2) _ i, of m en] show ?thesis by auto
  qed
qed

end

section \<open>Agreement\<close>

text \<open>Surroundings of the two stores, call by call: both are sane, and they read the same time.\<close>

fun matched ::
  "('e1 \<Rightarrow> time) \<Rightarrow> ('e2 \<Rightarrow> time) \<Rightarrow> ('e1 \<Rightarrow> duration \<Rightarrow> bool) \<Rightarrow> ('e2 \<Rightarrow> duration \<Rightarrow> bool) \<Rightarrow> time \<Rightarrow>
   ('e1 \<times> 'e2 \<times> cop) list \<Rightarrow> bool" where
  "matched tm1 tm2 good1 good2 t [] = True"
| "matched tm1 tm2 good1 good2 t ((e1, e2, p) # ps) =
     (t \<le> tm1 e1 \<and> tm1 e1 = tm2 e2 \<and> good1 e1 (lifetime p) \<and> good2 e2 (lifetime p) \<and>
      matched tm1 tm2 good1 good2 (tm1 e1) ps)"

context two_levels
begin

lemma stores_agree:
  assumes "inv1 s1" "inv2 s2" "same_from t (abs1 s1) (abs2 s2)"
    and "matched tm1 tm2 (\<lambda>e d. ok1 e \<and> okttl1 e d) (\<lambda>e d. ok2 e \<and> okttl2 e d) t ps"
  shows "fst (performs C1 (map (\<lambda>(e1, e2, p). (e1, p)) ps) s1)
       = fst (performs C2 (map (\<lambda>(e1, e2, p). (e2, p)) ps) s2)"
  using assms
proof (induction ps arbitrary: s1 s2 t)
  case (Cons x ps)
  obtain e1 e2 p where x: "x = (e1, e2, p)" by (cases x)
  let ?u = "tm1 e1"
  have m: "t \<le> ?u" "tm2 e2 = ?u" "ok1 e1" "okttl1 e1 (lifetime p)" "ok2 e2" "okttl2 e2 (lifetime p)"
    "matched tm1 tm2 (\<lambda>e d. ok1 e \<and> okttl1 e d) (\<lambda>e d. ok2 e \<and> okttl2 e d) ?u ps"
    using Cons.prems(4) x by auto
  obtain a1 t1 where p1: "perform C1 e1 p s1 = (a1, t1)" by fastforce
  obtain a2 t2 where p2: "perform C2 e2 p s2 = (a2, t2)" by fastforce
  have 1: "spec_answer ?u p (abs1 s1) a1" "inv1 t1" "same_from ?u (spec_entries ?u p (abs1 s1)) (abs1 t1)"
    using P.perform_spec [OF Cons.prems(1) m(3,4) p1] by auto
  have 2: "spec_answer ?u p (abs2 s2) a2" "inv2 t2" "same_from ?u (spec_entries ?u p (abs2 s2)) (abs2 t2)"
    using F.perform_spec [OF Cons.prems(2) m(5,6) p2] m(2) by auto
  have now: "same_from ?u (abs1 s1) (abs2 s2)" by (rule same_from_later [OF Cons.prems(3) m(1)])
  have "a1 = a2"
    using 1(1) 2(1) spec_answer_same [OF now] spec_answer_unique by blast
  moreover have "same_from ?u (abs1 t1) (abs2 t2)"
    using 1(3) 2(3) spec_entries_same [OF now] by (meson order_refl same_from_sym same_from_trans)
  ultimately show ?case
    using Cons.IH [OF 1(2) 2(2) _ m(7)] x p1 p2 by (simp add: case_prod_beta)
qed simp

end

interpretation md: two_levels
  memory_cache memory_abs "\<lambda>_. True" "\<lambda>now. now" sane_clock "\<lambda>_ _. True"
  "database_cache (Some c)" "db_abs c" "db_inv c" db_now db_ok db_okttl
  for c
  by unfold_locales

text \<open>The database in front and memory behind it, the arrangement \<open>cache.Fallback\<close> is for.\<close>

interpretation dm: two_levels
  "database_cache (Some c)" "db_abs c" "db_inv c" db_now db_ok db_okttl
  memory_cache memory_abs "\<lambda>_. True" "\<lambda>now. now" sane_clock "\<lambda>_ _. True"
  for c
  by unfold_locales

section \<open>Properties\<close>



text \<open>
  With a database in front of memory, a value set through the fallback cache is read back for
  its whole lifetime even when the database answers the read with an error.
\<close>

theorem fallback_read_survives_database:
  assumes "db_inv c db" "0 \<le> t"
    and "Fallback_Set (Some (database_cache (Some c))) (Some memory_cache) (e, t) k v d (db, m) = (err, (db1, m1))"
    and "t \<le> t'" "\<not> (0 < sint d \<and> t + sint d \<le> t')"
    and "fst (Database_Get (Some c) e' k db1) = Inl perr"
  shows "fst (Fallback_Get (Some (database_cache (Some c))) (Some memory_cache) (e', t') k (db1, m1)) = Inr v"
proof -
  obtain db2 where "cGet (database_cache (Some c)) e' k db1 = (Inl perr, db2)"
    using assms(6) by (cases "Database_Get (Some c) e' k db1") (simp add: database_cache_def)
  from dm.get_survives_primary [OF assms(1) _ _ _ assms(3) _ _ assms(5) this] show ?thesis
    using assms(2,4) by (simp add: sane_clock_def)
qed

theorem fallback_read_survives_database_witness:
  "fst (Fallback_Get (Some (database_cache (Some \<lparr>d_driver = ''sqlite'', d_table = ''t''\<rparr>))) (Some memory_cache)
     (\<lparr>db_now = 4, db_fault = \<lambda>_. Some (Sentinel ErrEOF)\<rparr>, 4) ''k''
     (snd (Fallback_Set (Some (database_cache (Some \<lparr>d_driver = ''sqlite'', d_table = ''t''\<rparr>))) (Some memory_cache)
        (\<lparr>db_now = 3, db_fault = \<lambda>_. None\<rparr>, 3) ''k'' ''v'' 5 ([''t'' \<mapsto> Map.empty], NewMemory)))) = Inr ''v''"
proof -
  let ?c = "\<lparr>d_driver = ''sqlite'', d_table = ''t''\<rparr>"
  obtain err db1 m1 where s: "Fallback_Set (Some (database_cache (Some ?c))) (Some memory_cache)
      (\<lparr>db_now = 3, db_fault = \<lambda>_. None\<rparr>, 3) ''k'' ''v'' 5 ([''t'' \<mapsto> Map.empty], NewMemory) = (err, (db1, m1))"
    by (metis prod.collapse)
  have "fst (Database_Get (Some ?c) \<lparr>db_now = 4, db_fault = \<lambda>_. Some (Sentinel ErrEOF)\<rparr> ''k'' db1) = Inl (Sentinel ErrEOF)"
    by (simp add: Database_Get_def sql_select_def on_table_def fails_def no_rows_as_miss_def)
  from fallback_read_survives_database [OF _ _ s _ _ this, of 4] s show ?thesis
    by (simp add: db_inv_def)
qed

text \<open>
  A value taken through the fallback cache is gone from both levels: a later take or read
  through it misses, when no call of the two levels fails in between.
\<close>

theorem fallback_take_is_final:
  assumes "db_inv c db" "db_ok e" "0 \<le> t"
    and "Fallback_Take (Some (database_cache (Some c))) (Some memory_cache) (e, t) k (db, m) = (Inr v, (db1, m1))"
    and "db_ok e'" "0 \<le> t'" "db_now e \<le> db_now e'" "t \<le> t'"
  shows "fst (Fallback_Take (Some (database_cache (Some c))) (Some memory_cache) (e', t') k (db1, m1)) = miss \<and>
         fst (Fallback_Get (Some (database_cache (Some c))) (Some memory_cache) (e', t') k (db1, m1)) = miss"
  using dm.take_once_both [OF assms(1) _ assms(2) _ assms(4) assms(5) _ assms(7,8)] assms(3,6)
  by (simp add: sane_clock_def)

theorem fallback_take_is_final_witness:
  "fst (Fallback_Take (Some (database_cache (Some \<lparr>d_driver = ''sqlite'', d_table = ''t''\<rparr>))) (Some memory_cache)
     (\<lparr>db_now = 4, db_fault = \<lambda>_. None\<rparr>, 4) ''k''
     (snd (Fallback_Take (Some (database_cache (Some \<lparr>d_driver = ''sqlite'', d_table = ''t''\<rparr>))) (Some memory_cache)
        (\<lparr>db_now = 3, db_fault = \<lambda>_. None\<rparr>, 3) ''k''
        ([''t'' \<mapsto> [''k'' \<mapsto> \<lparr>r_value = ''v'', r_expires = 0\<rparr>]], NewMemory)))) = miss"
proof -
  let ?c = "\<lparr>d_driver = ''sqlite'', d_table = ''t''\<rparr>"
  let ?db = "[''t'' \<mapsto> [''k'' \<mapsto> \<lparr>r_value = ''v'', r_expires = 0\<rparr>]]"
  obtain db1 m1 where s: "Fallback_Take (Some (database_cache (Some ?c))) (Some memory_cache)
      (\<lparr>db_now = 3, db_fault = \<lambda>_. None\<rparr>, 3) ''k'' (?db, NewMemory) = (Inr ''v'', (db1, m1))"
    by (simp add: database_cache_def Database_Take_def sql_begin_def sql_select_def sql_delete_def on_table_def
        fails_def row_expired_def split: prod.splits)
  from fallback_take_is_final [OF _ _ _ s, of "\<lparr>db_now = 4, db_fault = \<lambda>_. None\<rparr>" 4] s show ?thesis
    by (simp add: db_inv_def db_ok_def)
qed

text \<open>
  An increment through the fallback cache without a positive lifetime keeps the expiry of a
  live counter in the primary level, but writes the counter to the fallback level without any
  expiry: the two levels disagree about when the counter ends.
\<close>

theorem fallback_increment_loses_expiry:
  assumes "items m1 k = Some \<lparr>mi_value = FormatInt n, mi_expiresAt = u\<rparr>" "\<not> IsZero u" "t < u" "sint ttl \<le> 0"
  shows "\<exists>m1' m2'. Fallback_Increment (Some memory_cache) (Some memory_cache) (t, t') k delta ttl (m1, m2)
        = (Inr (n + delta), (m1', m2')) \<and>
      items m1' k = Some \<lparr>mi_value = FormatInt (n + delta), mi_expiresAt = u\<rparr> \<and>
      items m2' k = Some \<lparr>mi_value = FormatInt (n + delta), mi_expiresAt = zeroTime\<rparr>"
  using assms by (simp add: memory_cache_def Memory_Increment_def Memory_Set_def item_expired_def After_def Let_def)

theorem fallback_increment_loses_expiry_witness:
  "\<exists>m1' m2'. Fallback_Increment (Some memory_cache) (Some memory_cache) (5, 5) ''k'' 1 0
      (\<lparr>items = [''k'' \<mapsto> \<lparr>mi_value = FormatInt 3, mi_expiresAt = 9\<rparr>]\<rparr>, NewMemory) = (Inr 4, (m1', m2')) \<and>
      items m2' ''k'' = Some \<lparr>mi_value = FormatInt 4, mi_expiresAt = zeroTime\<rparr>"
  using fallback_increment_loses_expiry [of "\<lparr>items = [''k'' \<mapsto> \<lparr>mi_value = FormatInt 3, mi_expiresAt = 9\<rparr>]\<rparr>"
      "''k''" 3 9 5 0 5 1 NewMemory]
  by (auto simp: IsZero_def zeroTime_def)

end
