(* ===== verification/Cache_Redis_Wire.thy ===== *)
theory Cache_Redis_Wire
  imports Strconv
begin

text \<open>
  The wire format of \<open>cache/redis.go\<close>: \<open>writeRedisCommand\<close> and \<open>redisArgBytes\<close>, which turn a
  command into bytes, and \<open>readRedisReply\<close> and \<open>readRedisLine\<close>, which turn the bytes of a
  connection into a value. The lemmas show that the reader always ends, that it reads back what
  a server printed, that a command is framed so that no argument can pretend to be another one,
  and what two unusual replies do to it: an error inside an array, and an enormous length.
\<close>

section \<open>Values on the wire\<close>

text \<open>The \<open>any\<close> values a reply is read into.\<close>

datatype rvalue = VNil | VString string | VBytes bytes | VInt int64 | VBool bool | VList "rvalue list"

text \<open>
  The \<open>any\<close> values a command is made of, by the cases of the type switch. The last stands for
  every other type, with the text \<open>fmt.Sprint\<close> gives it.
\<close>

datatype rarg =
    ArgNil
  | ArgBytes bytes
  | ArgString string
  | ArgInt int64
  | ArgInt64 int64
  | ArgInt32 "32 word"
  | ArgUint "64 word"
  | ArgUint64 "64 word"
  | ArgDuration duration
  | ArgOther string

abbreviation CR :: char where
  "CR \<equiv> CHR 0x0D"

abbreviation LF :: char where
  "LF \<equiv> CHR 0x0A"

abbreviation CRLF :: string where
  "CRLF \<equiv> [CR, LF]"

section \<open>Commands\<close>

fun redisArgBytes :: "rarg \<Rightarrow> bytes" where
  "redisArgBytes ArgNil = []"
| "redisArgBytes (ArgBytes value) = value"
| "redisArgBytes (ArgString value) = value"
| "redisArgBytes (ArgInt value) = FormatInt value"
| "redisArgBytes (ArgInt64 value) = FormatInt value"
| "redisArgBytes (ArgInt32 value) = format_int (sint value)"
| "redisArgBytes (ArgUint value) = FormatUint value"
| "redisArgBytes (ArgUint64 value) = FormatUint value"
| "redisArgBytes (ArgDuration value) = FormatInt value"
| "redisArgBytes (ArgOther text) = text"

text \<open>The writes of one command, in order.\<close>

definition arg_writes :: "rarg \<Rightarrow> bytes list" where
  "arg_writes arg =
     (let dat = redisArgBytes arg in [''$'' @ format_int (int (length dat)) @ CRLF, dat, CRLF])"

definition command_writes :: "rarg list \<Rightarrow> bytes list" where
  "command_writes args =
     (''*'' @ format_int (int (length args)) @ CRLF) # concat (map arg_writes args)"

text \<open>
  The writes are made one by one up to the first that fails. \<open>fault i\<close> says how the \<open>i\<close>-th
  write fails, if it does, and how many of its bytes went out all the same. The result is the
  error and everything that went out.
\<close>

fun write_each :: "(nat \<Rightarrow> (gerr \<times> nat) option) \<Rightarrow> nat \<Rightarrow> bytes list \<Rightarrow> gerr option \<times> bytes" where
  "write_each fault i [] = (None, [])"
| "write_each fault i (w # ws) =
     (case fault i of
        Some (err, n) \<Rightarrow> (Some err, take n w)
      | None \<Rightarrow> (case write_each fault (i + 1) ws of (err, sent) \<Rightarrow> (err, w @ sent)))"

definition writeRedisCommand :: "(nat \<Rightarrow> (gerr \<times> nat) option) \<Rightarrow> rarg list \<Rightarrow> gerr option \<times> bytes" where
  "writeRedisCommand fault args = write_each fault 0 (command_writes args)"

section \<open>Replies\<close>

text \<open>
  A \<open>bufio.Reader\<close> on a connection: the bytes that arrive, and the error \<open>fin\<close> a read reports
  when there are no more (the end of the stream, a deadline). A read returns its result and the
  bytes it leaves.
\<close>

definition ReadString :: "gerr \<Rightarrow> bytes \<Rightarrow> (gerr + string) \<times> bytes" where
  "ReadString fin bs =
     (case Cut bs [LF] of None \<Rightarrow> (Inl fin, []) | Some (line, rest) \<Rightarrow> (Inr (line @ [LF]), rest))"

definition readRedisLine :: "gerr \<Rightarrow> bytes \<Rightarrow> (gerr + string) \<times> bytes" where
  "readRedisLine fin bs =
     (case ReadString fin bs of
        (Inl err, rest) \<Rightarrow> (Inl err, rest)
      | (Inr line, rest) \<Rightarrow> (Inr (TrimSuffix (TrimSuffix line [LF]) [CR]), rest))"

text \<open>\<open>io.ReadFull\<close> into a buffer of \<open>n\<close> bytes.\<close>

definition ReadFull :: "gerr \<Rightarrow> nat \<Rightarrow> bytes \<Rightarrow> (gerr + bytes) \<times> bytes" where
  "ReadFull fin n bs =
     (if n \<le> length bs then (Inr (take n bs), drop n bs)
      else (Inl (if bs \<noteq> [] \<and> fin = Sentinel ErrEOF then Sentinel ErrUnexpectedEOF else fin), []))"

text \<open>
  \<open>make\<close> panics when the length is negative or the memory is beyond the address space of the
  runtime (64-bit: \<open>2 ^ 48\<close> bytes). A length between the memory of the machine and that bound
  ends the process and is not modelled.
\<close>

definition max_alloc :: int where
  "max_alloc = 2 ^ 48"

definition make_panics :: "int \<Rightarrow> int64 \<Rightarrow> bool" where
  "make_panics elem n \<longleftrightarrow> sint n < 0 \<or> max_alloc < sint n * elem"

definition slice_panic :: gerr where
  "slice_panic = Errorf ''makeslice: len out of range'' []"

type_synonym 'a parse = "(gerr + 'a) outcome \<times> bytes"

text \<open>The value of a nil reply, at the top of a reply and inside an array.\<close>

definition nil_value :: "bool \<Rightarrow> gerr + rvalue" where
  "nil_value nilAsError = (if nilAsError then Inl (Sentinel ErrRedisNil) else Inr VNil)"

definition read_bulk :: "gerr \<Rightarrow> bool \<Rightarrow> string \<Rightarrow> bytes \<Rightarrow> rvalue parse" where
  "read_bulk fin nilAsError line bs =
     (case Atoi line of
        (_, Some err) \<Rightarrow> (Return (Inl err), bs)
      | (len, None) \<Rightarrow>
          if sint len < 0 then (Return (nil_value nilAsError), bs)
          else if make_panics 1 (len + 2) then (Panic slice_panic, bs)
          else (case ReadFull fin (nat (sint (len + 2))) bs of
                  (Inl err, rest) \<Rightarrow> (Return (Inl err), rest)
                | (Inr buf, rest) \<Rightarrow> (Return (Inr (VBytes (take (nat (sint len)) buf))), rest)))"

text \<open>The loop over the elements of an array; \<open>rd\<close> reads one.\<close>

primrec read_values :: "(bytes \<Rightarrow> rvalue parse option) \<Rightarrow> nat \<Rightarrow> bytes \<Rightarrow> rvalue list parse option" where
  "read_values rd 0 bs = Some (Return (Inr []), bs)"
| "read_values rd (Suc k) bs =
     (case rd bs of
        None \<Rightarrow> None
      | Some (Panic p, rest) \<Rightarrow> Some (Panic p, rest)
      | Some (Return (Inl err), rest) \<Rightarrow> Some (Return (Inl err), rest)
      | Some (Return (Inr value), rest) \<Rightarrow>
          (case read_values rd k rest of
             Some (Return (Inr vs), rest) \<Rightarrow> Some (Return (Inr (value # vs)), rest)
           | r \<Rightarrow> r))"

definition read_array :: "(bytes \<Rightarrow> rvalue parse option) \<Rightarrow> bool \<Rightarrow> string \<Rightarrow> bytes \<Rightarrow> rvalue parse option" where
  "read_array rd nilAsError line bs =
     (case Atoi line of
        (_, Some err) \<Rightarrow> Some (Return (Inl err), bs)
      | (len, None) \<Rightarrow>
          if sint len < 0 then Some (Return (nil_value nilAsError), bs)
          else if make_panics 16 len then Some (Panic slice_panic, bs)
          else (case read_values rd (nat (sint len)) bs of
                  None \<Rightarrow> None
                | Some (Panic p, rest) \<Rightarrow> Some (Panic p, rest)
                | Some (Return (Inl err), rest) \<Rightarrow> Some (Return (Inl err), rest)
                | Some (Return (Inr vs), rest) \<Rightarrow> Some (Return (Inr (VList vs)), rest)))"

text \<open>
  \<open>readRedisReply\<close> reads the prefix, and then a line in every case of its switch; what follows
  the line is \<open>reply_body\<close>. It calls itself for the elements of an array. \<open>read_reply n\<close> is the
  function with at most \<open>n\<close> nested calls; every call reads a byte first, so the number of
  bytes bounds the depth.
\<close>

definition with_line :: "gerr \<Rightarrow> bytes \<Rightarrow> (string \<Rightarrow> bytes \<Rightarrow> rvalue parse option) \<Rightarrow> rvalue parse option" where
  "with_line fin bs f =
     (case readRedisLine fin bs of
        (Inl err, rest) \<Rightarrow> Some (Return (Inl err), rest)
      | (Inr line, rest) \<Rightarrow> f line rest)"

definition reply_body ::
  "(bytes \<Rightarrow> rvalue parse option) \<Rightarrow> gerr \<Rightarrow> bool \<Rightarrow> char \<Rightarrow> string \<Rightarrow> bytes \<Rightarrow> rvalue parse option" where
  "reply_body rd fin nilAsError c line rest =
     (if c = CHR ''*'' then read_array rd nilAsError line rest
      else Some
       (if c = CHR ''+'' then (Return (Inr (VString line)), rest)
        else if c = CHR ''-'' then (Return (Inl (CommandError line)), rest)
        else if c = CHR '':'' then
          (Return (case ParseInt line 64 of (_, Some err) \<Rightarrow> Inl err | (i, None) \<Rightarrow> Inr (VInt i)), rest)
        else if c = CHR ''$'' then read_bulk fin nilAsError line rest
        else if c = CHR ''_'' then (Return (nil_value nilAsError), rest)
        else (Return (Inr (VBool (line = ''t''))), rest)))"

fun read_reply :: "nat \<Rightarrow> gerr \<Rightarrow> bool \<Rightarrow> bytes \<Rightarrow> rvalue parse option" where
  "read_reply 0 fin nilAsError bs = None"
| "read_reply (Suc n) fin nilAsError [] = Some (Return (Inl fin), [])"
| "read_reply (Suc n) fin nilAsError (c # bs) =
     (if c \<in> set ''+-:$*_#''
      then with_line fin bs (reply_body (read_reply n fin False) fin nilAsError c)
      else Some (Return (Inl (Errorf ''unsupported redis reply prefix %q'' [[c]])), bs))"

definition readRedisReply :: "gerr \<Rightarrow> bool \<Rightarrow> bytes \<Rightarrow> rvalue parse" where
  "readRedisReply fin nilAsError bs = the (read_reply (Suc (length bs)) fin nilAsError bs)"

section \<open>The reader ends\<close>

lemma readRedisLine_rest: "readRedisLine fin bs = (r, rest) \<Longrightarrow> \<exists>used. bs = used @ rest"
proof -
  assume r: "readRedisLine fin bs = (r, rest)"
  show ?thesis
  proof (cases "Cut bs [LF]")
    case None
    with r show ?thesis by (auto simp: readRedisLine_def ReadString_def)
  next
    case (Some x)
    obtain line after where x: "x = (line, after)" by (cases x)
    with r Some have "rest = after" by (auto simp: readRedisLine_def ReadString_def)
    with Cut_append [OF Some [unfolded x]] show ?thesis by simp
  qed
qed

lemma ReadFull_rest: "ReadFull fin n bs = (r, rest) \<Longrightarrow> \<exists>used. bs = used @ rest"
proof (cases "n \<le> length bs")
  case True
  assume "ReadFull fin n bs = (r, rest)"
  with True have "bs = take n bs @ rest" by (auto simp: ReadFull_def)
  then show ?thesis by blast
qed (auto simp: ReadFull_def)

lemma read_bulk_rest: "read_bulk fin b line bs = (r, rest) \<Longrightarrow> \<exists>used. bs = used @ rest"
  using ReadFull_rest [of fin _ bs]
  by (fastforce simp: read_bulk_def split: prod.splits option.splits if_splits sum.splits)

lemma read_values_rest:
  assumes "\<And>bs r rest. rd bs = Some (r, rest) \<Longrightarrow> \<exists>used. bs = used @ rest"
  shows "read_values rd k bs = Some (r, rest) \<Longrightarrow> \<exists>used. bs = used @ rest"
proof (induction k arbitrary: bs r)
  case (Suc k)
  obtain r1 rest1 where 1: "rd bs = Some (r1, rest1)" using Suc.prems by (cases "rd bs") auto
  from assms [OF 1] obtain u where u: "bs = u @ rest1" by blast
  show ?case
  proof (cases "\<exists>v. r1 = Return (Inr v)")
    case True
    then obtain v where v: "r1 = Return (Inr v)" by blast
    obtain r2 where 2: "read_values rd k rest1 = Some (r2, rest)"
      using Suc.prems 1 v by (auto split: option.splits outcome.splits sum.splits)
    from Suc.IH [OF 2] u show ?thesis by auto
  next
    case False
    with Suc.prems 1 have "rest = rest1" by (auto split: outcome.splits sum.splits)
    with u show ?thesis by blast
  qed
qed simp

lemma with_line_rest:
  assumes "with_line fin bs f = Some (r, rest)"
    and "\<And>line bs. f line bs = Some (r, rest) \<Longrightarrow> \<exists>used. bs = used @ rest"
  shows "\<exists>used. bs = used @ rest"
proof -
  obtain l rest1 where l: "readRedisLine fin bs = (l, rest1)" by fastforce
  from readRedisLine_rest [OF l] obtain u where u: "bs = u @ rest1" by blast
  show ?thesis
  proof (cases l)
    case (Inl err)
    with assms(1) l u show ?thesis by (auto simp: with_line_def)
  next
    case (Inr line)
    with assms(1) l have "f line rest1 = Some (r, rest)" by (simp add: with_line_def)
    from assms(2) [OF this] u show ?thesis by auto
  qed
qed

lemma read_array_rest:
  assumes "\<And>bs r rest. rd bs = Some (r, rest) \<Longrightarrow> \<exists>used. bs = used @ rest"
    and "read_array rd b line bs = Some (r, rest)"
  shows "\<exists>used. bs = used @ rest"
proof -
  obtain len err where a: "Atoi line = (len, err)" by fastforce
  show ?thesis
  proof (cases "err \<noteq> None \<or> sint len < 0 \<or> make_panics 16 len")
    case True
    with assms(2) a have "rest = bs" by (auto simp: read_array_def split: if_splits option.splits)
    then show ?thesis by simp
  next
    case False
    with assms(2) a obtain r1 where "read_values rd (nat (sint len)) bs = Some (r1, rest)"
      by (auto simp: read_array_def split: option.splits outcome.splits sum.splits)
    with read_values_rest assms(1) show ?thesis by metis
  qed
qed

lemma reply_body_rest:
  assumes "\<And>bs r rest. rd bs = Some (r, rest) \<Longrightarrow> \<exists>used. bs = used @ rest"
    and "reply_body rd fin b c line bs = Some (r, rest)"
  shows "\<exists>used. bs = used @ rest"
proof (cases "c = CHR ''*''")
  case True
  with assms(2) read_array_rest [of rd, OF assms(1)] show ?thesis by (simp add: reply_body_def)
next
  case False
  with assms(2) show ?thesis by (auto simp: reply_body_def dest: read_bulk_rest split: if_splits)
qed

text \<open>A read consumes a front part of the bytes, whatever its result.\<close>

lemma read_reply_rest: "read_reply n fin b bs = Some (r, rest) \<Longrightarrow> \<exists>used. bs = used @ rest"
proof (induction n arbitrary: b bs r rest)
  case (Suc n)
  show ?case
  proof (cases bs)
    case Nil
    with Suc.prems show ?thesis by simp
  next
    case (Cons c cs)
    have "\<exists>used. cs = used @ rest"
    proof (cases "c \<in> set ''+-:$*_#''")
      case True
      with Suc.prems Cons have "with_line fin cs (reply_body (read_reply n fin False) fin b c) = Some (r, rest)"
        by simp
      then show ?thesis
        by (rule with_line_rest) (rule reply_body_rest [of "read_reply n fin False", OF Suc.IH])
    next
      case False
      with Suc.prems Cons show ?thesis by simp
    qed
    with Cons show ?thesis by (metis append_Cons)
  qed
qed simp

lemma read_values_total:
  assumes "\<And>bs. length bs \<le> m \<Longrightarrow> rd bs \<noteq> None"
    and "\<And>bs r rest. rd bs = Some (r, rest) \<Longrightarrow> \<exists>used. bs = used @ rest"
  shows "length bs \<le> m \<Longrightarrow> read_values rd k bs \<noteq> None"
proof (induction k arbitrary: bs)
  case (Suc k)
  obtain r rest where r: "rd bs = Some (r, rest)" using assms(1) [OF Suc.prems] by auto
  from assms(2) [OF r] Suc.prems have "length rest \<le> m" by auto
  from Suc.IH [OF this] r show ?case by (auto split: outcome.splits sum.splits option.splits)
qed simp

lemma with_line_total:
  assumes "\<And>line rest. length rest \<le> length bs \<Longrightarrow> f line rest \<noteq> None"
  shows "with_line fin bs f \<noteq> None"
proof -
  obtain l rest where l: "readRedisLine fin bs = (l, rest)" by fastforce
  from readRedisLine_rest [OF l] have "length rest \<le> length bs" by auto
  from assms [OF this] l show ?thesis by (auto simp: with_line_def split: sum.splits)
qed

lemma reply_body_total: "(\<And>k. read_values rd k bs \<noteq> None) \<Longrightarrow> reply_body rd fin b c line bs \<noteq> None"
  by (simp add: reply_body_def read_array_def split: prod.split option.split outcome.split sum.split)
    (metis not_None_eq)

lemma read_reply_total: "length bs < n \<Longrightarrow> read_reply n fin b bs \<noteq> None"
proof (induction n arbitrary: b bs)
  case (Suc n)
  show ?case
  proof (cases bs)
    case (Cons c cs)
    have "with_line fin cs (reply_body (read_reply n fin False) fin b c) \<noteq> None"
    proof (rule with_line_total, rule reply_body_total)
      fix line k and rest :: bytes
      assume rest: "length rest \<le> length cs"
      show "read_values (read_reply n fin False) k rest \<noteq> None"
      proof (rule read_values_total [OF _ _ rest])
        show "read_reply n fin False bs' \<noteq> None" if "length bs' \<le> length cs" for bs'
          using Suc that Cons by simp
      qed (rule read_reply_rest)
    qed
    then show ?thesis using Cons by simp
  qed simp
qed simp

text \<open>More depth than needed changes nothing.\<close>

lemma read_values_mono:
  assumes "\<And>bs x. rd bs = Some x \<Longrightarrow> rd' bs = Some x"
  shows "read_values rd k bs = Some y \<Longrightarrow> read_values rd' k bs = Some y"
proof (induction k arbitrary: bs y)
  case (Suc k)
  obtain r rest where r: "rd bs = Some (r, rest)" using Suc.prems by (cases "rd bs") auto
  note r' = assms [OF r]
  show ?case
  proof (cases "\<exists>v. r = Return (Inr v)")
    case True
    then obtain v where v: "r = Return (Inr v)" by blast
    obtain z where z: "read_values rd k rest = Some z"
      using Suc.prems r v by (cases "read_values rd k rest") auto
    from Suc.IH [OF z] Suc.prems r r' v z show ?thesis by simp
  next
    case False
    with Suc.prems r r' show ?thesis by (auto split: outcome.splits sum.splits)
  qed
qed simp

lemma read_array_mono:
  assumes "\<And>bs x. rd bs = Some x \<Longrightarrow> rd' bs = Some x"
    and "read_array rd b line bs = Some y"
  shows "read_array rd' b line bs = Some y"
proof -
  obtain len err where a: "Atoi line = (len, err)" by fastforce
  show ?thesis
  proof (cases "err \<noteq> None \<or> sint len < 0 \<or> make_panics 16 len")
    case True
    with assms(2) a show ?thesis by (auto simp: read_array_def split: if_splits option.splits)
  next
    case False
    with assms(2) a obtain z where z: "read_values rd (nat (sint len)) bs = Some z"
      by (cases "read_values rd (nat (sint len)) bs") (auto simp: read_array_def)
    from read_values_mono [OF assms(1) z] assms(2) a False z show ?thesis by (simp add: read_array_def)
  qed
qed

lemma with_line_mono:
  assumes "with_line fin bs f = Some y" and "\<And>line bs. f line bs = Some y \<Longrightarrow> g line bs = Some y"
  shows "with_line fin bs g = Some y"
proof -
  obtain l rest where l: "readRedisLine fin bs = (l, rest)" by fastforce
  show ?thesis
    using assms(1) assms(2) [of _ rest] by (cases l) (simp_all add: with_line_def l)
qed

lemma reply_body_mono:
  assumes "\<And>bs x. rd bs = Some x \<Longrightarrow> rd' bs = Some x"
    and "reply_body rd fin b c line bs = Some y"
  shows "reply_body rd' fin b c line bs = Some y"
proof (cases "c = CHR ''*''")
  case True
  with assms(2) read_array_mono [of rd, OF assms(1)] show ?thesis by (simp add: reply_body_def)
next
  case False
  with assms(2) show ?thesis by (simp add: reply_body_def)
qed

lemma read_reply_mono: "read_reply n fin b bs = Some x \<Longrightarrow> n \<le> m \<Longrightarrow> read_reply m fin b bs = Some x"
proof (induction n arbitrary: m b bs x)
  case (Suc n)
  from Suc.prems(2) obtain m' where m: "m = Suc m'" "n \<le> m'" by (cases m) auto
  have rec: "read_reply n fin False bs = Some y \<Longrightarrow> read_reply m' fin False bs = Some y" for bs y
    using Suc.IH m(2) by blast
  show ?case
  proof (cases bs)
    case Nil
    with Suc.prems m show ?thesis by simp
  next
    case (Cons c cs)
    show ?thesis
    proof (cases "c \<in> set ''+-:$*_#''")
      case True
      with Suc.prems Cons have "with_line fin cs (reply_body (read_reply n fin False) fin b c) = Some x"
        by simp
      then have "with_line fin cs (reply_body (read_reply m' fin False) fin b c) = Some x"
        by (rule with_line_mono) (rule reply_body_mono [of "read_reply n fin False", OF rec])
      with True Cons m(1) show ?thesis by simp
    next
      case False
      with Suc.prems Cons m(1) show ?thesis by simp
    qed
  qed
qed simp

lemma read_reply_eq:
  assumes "length bs < n"
  shows "read_reply n fin b bs = Some (readRedisReply fin b bs)"
proof -
  obtain x where x: "read_reply (Suc (length bs)) fin b bs = Some x"
    using read_reply_total [OF lessI, of bs fin b] by blast
  with assms read_reply_mono [OF x, of n] show ?thesis
    by (simp add: readRedisReply_def Suc_leI del: read_reply.simps)
qed

text \<open>The reader by its prefix, without the depth.\<close>

lemma readRedisReply_Cons:
  assumes "c \<in> set ''+-:$*_#''" "readRedisLine fin bs = (Inr line, rest)"
    and "\<And>n. length bs < n \<Longrightarrow> reply_body (read_reply n fin False) fin b c line rest = Some x"
  shows "readRedisReply fin b (c # bs) = x"
proof -
  have "read_reply (Suc (Suc (length bs))) fin b (c # bs) = Some x"
    unfolding read_reply.simps using assms(1,2) assms(3) [of "Suc (length bs)"] by (simp add: with_line_def)
  then show ?thesis by (simp only: readRedisReply_def list.size option.sel add_Suc_right Nat.add_0_right)
qed

lemma readRedisReply_rest: "readRedisReply fin b bs = (r, rest) \<Longrightarrow> \<exists>used. bs = used @ rest"
  using read_reply_eq [OF lessI, of bs fin b] read_reply_rest [of "Suc (length bs)" fin b bs r rest] by simp

section \<open>What a server prints\<close>

text \<open>
  The replies of the protocol and their bytes, as the reference for the reader. \<open>fits\<close> says
  that a simple text has no line break, that a length stays below the bound of \<open>make\<close>, and that
  no array holds an error.
\<close>

datatype resp =
    RSimple string
  | RError string
  | RInteger int64
  | RBulk bytes
  | RNullBulk
  | RNullArray
  | RNull
  | RBoolean bool
  | RArr "resp list"

definition num :: "nat \<Rightarrow> string" where
  "num n = format_int (int n)"

fun print_resp :: "resp \<Rightarrow> bytes" where
  "print_resp (RSimple s) = ''+'' @ s @ CRLF"
| "print_resp (RError s) = ''-'' @ s @ CRLF"
| "print_resp (RInteger i) = '':'' @ FormatInt i @ CRLF"
| "print_resp (RBulk bs) = ''$'' @ num (length bs) @ CRLF @ bs @ CRLF"
| "print_resp RNullBulk = ''$-1'' @ CRLF"
| "print_resp RNullArray = ''*-1'' @ CRLF"
| "print_resp RNull = ''_'' @ CRLF"
| "print_resp (RBoolean t) = ''#'' @ (if t then ''t'' else ''f'') @ CRLF"
| "print_resp (RArr rs) = ''*'' @ num (length rs) @ CRLF @ concat (map print_resp rs)"

fun is_error :: "resp \<Rightarrow> bool" where
  "is_error (RError _) = True"
| "is_error _ = False"

fun fits :: "resp \<Rightarrow> bool" where
  "fits (RSimple s) = (LF \<notin> set s)"
| "fits (RError s) = (LF \<notin> set s)"
| "fits (RBulk bs) = (int (length bs) + 2 \<le> max_alloc)"
| "fits (RArr rs) = (int (length rs) * 16 \<le> max_alloc \<and> (\<forall>r \<in> set rs. fits r \<and> \<not> is_error r))"
| "fits _ = True"

fun elem_value :: "resp \<Rightarrow> rvalue" where
  "elem_value (RSimple s) = VString s"
| "elem_value (RInteger i) = VInt i"
| "elem_value (RBulk bs) = VBytes bs"
| "elem_value (RBoolean t) = VBool t"
| "elem_value (RArr rs) = VList (map elem_value rs)"
| "elem_value _ = VNil"

text \<open>What \<open>readRedisReply\<close> returns for a reply.\<close>

fun meaning :: "bool \<Rightarrow> resp \<Rightarrow> gerr + rvalue" where
  "meaning nilAsError (RError s) = Inl (CommandError s)"
| "meaning nilAsError RNullBulk = nil_value nilAsError"
| "meaning nilAsError RNullArray = nil_value nilAsError"
| "meaning nilAsError RNull = nil_value nilAsError"
| "meaning nilAsError r = Inr (elem_value r)"

lemma meaning_elem: "\<not> is_error r \<Longrightarrow> meaning False r = Inr (elem_value r)"
  by (cases r) (simp_all add: nil_value_def)

section \<open>The reader reads what was printed\<close>

lemma is_digit_LF [simp]: "\<not> is_digit LF" "\<not> is_digit CR"
  by (simp_all add: is_digit_def)

lemma LF_format_int [simp]: "LF \<notin> set (format_int i)"
  using nat_digits_digit [of LF] by (auto simp: format_int_def)

lemma LF_FormatInt [simp]: "LF \<notin> set (FormatInt w)"
  by (simp add: FormatInt_def)

lemma LF_num [simp]: "LF \<notin> set (num n)"
  by (simp add: num_def)

lemma readRedisLine_append [simp]:
  "LF \<notin> set line \<Longrightarrow> readRedisLine fin (line @ CR # LF # rest) = (Inr line, rest)"
proof -
  assume "LF \<notin> set line"
  then have "LF \<notin> set (line @ [CR])" by simp
  from Cut_char [OF this, of rest] have "Cut (line @ CR # LF # rest) [LF] = Some (line @ [CR], rest)" by simp
  moreover have "TrimSuffix (line @ [CR, LF]) [LF] = line @ [CR]"
    using TrimSuffix_append [of "line @ [CR]" "[LF]"] by simp
  ultimately show ?thesis by (simp add: readRedisLine_def ReadString_def)
qed

lemma sint_int_of_nat: "int n < 2 ^ 63 \<Longrightarrow> sint (of_nat n :: int64) = int n"
  using sint_of_int64 [of "int n"] by simp

lemma Atoi_num: "int n < 2 ^ 63 \<Longrightarrow> Atoi (num n) = (of_nat n, None)"
  using Atoi_FormatInt [of "of_nat n"] by (simp add: FormatInt_def num_def sint_int_of_nat)

lemma Atoi_minus1: "Atoi ''-1'' = (- 1, None)"
proof -
  have "digit_char 1 = CHR ''1''" by code_simp
  then have "FormatInt (- 1) = ''-1''"
    by (simp add: FormatInt_def format_int_def nat_digits.simps)
  then show ?thesis using Atoi_FormatInt [of "- 1"] by simp
qed

lemma read_bulk_num:
  assumes "int (length bs) + 2 \<le> max_alloc"
  shows "read_bulk fin b (num (length bs)) (bs @ CR # LF # rest) = (Return (Inr (VBytes bs)), rest)"
proof -
  let ?w = "of_nat (length bs) :: int64"
  have n: "int (length bs) < 2 ^ 63" "int (length bs) + 2 < 2 ^ 63" using assms by (simp_all add: max_alloc_def)
  have w: "sint ?w = int (length bs)" by (rule sint_int_of_nat [OF n(1)])
  have "sint (2 :: int64) = 2" by simp
  then have w2: "sint (?w + 2) = int (length bs) + 2"
    using sint_add_int64 [of ?w 2] w n(2) by simp
  have full: "ReadFull fin (nat (int (length bs) + 2)) (bs @ CR # LF # rest) = (Inr (bs @ CRLF), rest)"
    by (simp add: ReadFull_def nat_add_distrib)
  show ?thesis
    using assms by (simp add: read_bulk_def Atoi_num [OF n(1)] full w2 make_panics_def w)
qed

lemma read_array_num:
  assumes "int k * 16 \<le> max_alloc"
  shows "read_array rd b (num k) bs =
     (case read_values rd k bs of
        None \<Rightarrow> None
      | Some (Panic p, rest) \<Rightarrow> Some (Panic p, rest)
      | Some (Return (Inl err), rest) \<Rightarrow> Some (Return (Inl err), rest)
      | Some (Return (Inr vs), rest) \<Rightarrow> Some (Return (Inr (VList vs)), rest))"
proof -
  have n: "int k < 2 ^ 63" using assms by (simp add: max_alloc_def)
  have w: "sint (of_nat k :: int64) = int k" by (rule sint_int_of_nat [OF n])
  show ?thesis
    unfolding read_array_def Atoi_num [OF n] using assms
    by (simp add: w make_panics_def max_alloc_def)
qed

text \<open>The elements of an array, up to the end or up to the first error.\<close>

lemma read_values_print:
  assumes "\<And>r rest. r \<in> set rs \<Longrightarrow> readRedisReply fin False (print_resp r @ rest) = (Return (Inr (elem_value r)), rest)"
    and "length (concat (map print_resp rs) @ rest) < n"
  shows "read_values (read_reply n fin False) (length rs + k) (concat (map print_resp rs) @ rest) =
    (case read_values (read_reply n fin False) k rest of
       Some (Return (Inr vs), rest) \<Rightarrow> Some (Return (Inr (map elem_value rs @ vs)), rest)
     | x \<Rightarrow> x)"
  using assms
proof (induction rs)
  case Nil
  then show ?case by (auto split: option.split prod.split outcome.split sum.split)
next
  case (Cons r rs)
  let ?tail = "concat (map print_resp rs) @ rest"
  have "read_reply n fin False (print_resp r @ ?tail) = Some (Return (Inr (elem_value r)), ?tail)"
    using Cons.prems by (subst read_reply_eq) auto
  moreover have "read_values (read_reply n fin False) (length rs + k) ?tail =
    (case read_values (read_reply n fin False) k rest of
       Some (Return (Inr vs), rest) \<Rightarrow> Some (Return (Inr (map elem_value rs @ vs)), rest)
     | x \<Rightarrow> x)"
    using Cons.prems by (intro Cons.IH) auto
  ultimately show ?case by (auto split: option.split prod.split outcome.split sum.split)
qed

lemma read_print:
  "fits r \<Longrightarrow> readRedisReply fin b (print_resp r @ rest) = (Return (meaning b r), rest)"
proof (induction r arbitrary: b rest)
  case (RSimple s)
  then show ?case by (simp add: readRedisReply_Cons reply_body_def)
next
  case (RError s)
  then show ?case by (simp add: readRedisReply_Cons reply_body_def)
next
  case (RInteger i)
  then show ?case by (simp add: readRedisReply_Cons reply_body_def)
next
  case (RBulk bs)
  then show ?case by (simp add: readRedisReply_Cons reply_body_def read_bulk_num)
next
  case RNull
  then show ?case
    using readRedisLine_append [of "[]" fin rest] by (simp add: readRedisReply_Cons reply_body_def)
next
  case (RBoolean t)
  then show ?case
    using readRedisLine_append [of "''t''" fin rest] readRedisLine_append [of "''f''" fin rest]
    by (simp add: readRedisReply_Cons reply_body_def)
next
  case RNullBulk
  from Atoi_minus1 show ?case
    using readRedisLine_append [of "''-1''" fin rest]
    by (simp add: readRedisReply_Cons reply_body_def read_bulk_def)
next
  case RNullArray
  from Atoi_minus1 show ?case
    using readRedisLine_append [of "''-1''" fin rest]
    by (simp add: readRedisReply_Cons reply_body_def read_array_def)
next
  case (RArr rs)
  let ?body = "concat (map print_resp rs) @ rest"
  have elems: "readRedisReply fin False (print_resp r @ rest') = (Return (Inr (elem_value r)), rest')"
    if "r \<in> set rs" for r rest'
    using RArr.IH [OF that] RArr.prems that by (simp add: meaning_elem)
  have "read_values (read_reply n fin False) (length rs) ?body = Some (Return (Inr (map elem_value rs)), rest)"
    if "length ?body < n" for n
    using read_values_print [of rs fin rest n 0, OF elems that] by simp
  then have "reply_body (read_reply n fin False) fin b CHR ''*'' (num (length rs)) ?body
      = Some (Return (Inr (VList (map elem_value rs))), rest)"
    if "length (num (length rs) @ CR # LF # ?body) < n" for n
    using that RArr.prems by (simp add: reply_body_def read_array_num)
  then have "readRedisReply fin b (CHR ''*'' # num (length rs) @ CR # LF # ?body)
      = (Return (Inr (VList (map elem_value rs))), rest)"
    by (intro readRedisReply_Cons [OF _ readRedisLine_append [OF LF_num]]) simp_all
  then show ?case by simp
qed

section \<open>A reply that is cut short\<close>

text \<open>
  A read that does not run into the end of the bytes is not changed by bytes behind them. So
  no proper front part of a reply is read as a reply: it ends in the error of the connection.
\<close>

definition hit_end :: "gerr \<Rightarrow> (gerr + 'a) outcome \<Rightarrow> bool" where
  "hit_end fin r \<longleftrightarrow> r = Return (Inl fin) \<or> r = Return (Inl (Sentinel ErrUnexpectedEOF))"

lemma hit_end_simps [simp]:
  "hit_end fin (Return (Inl fin))" "\<not> hit_end fin (Return (Inr x))" "\<not> hit_end fin (Panic p)"
  "hit_end fin (Return (Inl e)) \<longleftrightarrow> e = fin \<or> e = Sentinel ErrUnexpectedEOF"
  by (auto simp: hit_end_def)

lemma Cut_extend: "Cut s [x] = Some (b, a) \<Longrightarrow> Cut (s @ t) [x] = Some (b, a @ t)"
proof -
  assume c: "Cut s [x] = Some (b, a)"
  have "x \<notin> set b" by (rule Cut_before_free [OF c])
  with Cut_append [OF c] show ?thesis using Cut_char [of x b "a @ t"] by simp
qed

lemma readRedisLine_extend:
  "readRedisLine fin bs = (Inr line, rest) \<Longrightarrow> readRedisLine fin (bs @ t) = (Inr line, rest @ t)"
  using Cut_extend [of bs LF _ _ t]
  by (auto simp: readRedisLine_def ReadString_def split: option.splits prod.splits)

lemma readRedisLine_err: "readRedisLine fin bs = (Inl e, rest) \<Longrightarrow> e = fin"
  by (auto simp: readRedisLine_def ReadString_def split: option.splits)

lemma read_bulk_extend:
  assumes "read_bulk fin b line bs = (r, rest)" "\<not> hit_end fin r"
  shows "read_bulk fin b line (bs @ t) = (r, rest @ t)"
proof -
  obtain len err where a: "Atoi line = (len, err)" by fastforce
  show ?thesis
  proof (cases "err \<noteq> None \<or> sint len < 0 \<or> make_panics 1 (len + 2)")
    case True
    with assms a show ?thesis by (auto simp: read_bulk_def split: if_splits option.splits)
  next
    case False
    with assms a show ?thesis
      by (cases "nat (sint (len + 2)) \<le> length bs") (auto simp: read_bulk_def ReadFull_def split: if_splits)
  qed
qed

lemma read_values_extend:
  assumes "\<And>bs r rest. rd bs = Some (r, rest) \<Longrightarrow> \<not> hit_end fin r \<Longrightarrow> rd (bs @ t) = Some (r, rest @ t)"
  shows "read_values rd k bs = Some (r, rest) \<Longrightarrow> \<not> hit_end fin r \<Longrightarrow> read_values rd k (bs @ t) = Some (r, rest @ t)"
proof (induction k arbitrary: bs r)
  case (Suc k)
  obtain r1 rest1 where 1: "rd bs = Some (r1, rest1)" using Suc.prems(1) by (cases "rd bs") auto
  show ?case
  proof (cases "\<exists>v. r1 = Return (Inr v)")
    case True
    then obtain v where v: "r1 = Return (Inr v)" by blast
    with assms [OF 1] have ext1: "rd (bs @ t) = Some (Return (Inr v), rest1 @ t)" by simp
    obtain r2 where 2: "read_values rd k rest1 = Some (r2, rest)"
      using Suc.prems(1) 1 v by (auto split: option.splits outcome.splits sum.splits)
    have "\<not> hit_end fin r2"
      using Suc.prems 1 v 2 by (auto split: outcome.splits sum.splits)
    from Suc.IH [OF 2 this] Suc.prems(1) 1 ext1 v 2 show ?thesis by (auto split: outcome.splits sum.splits)
  next
    case False
    with Suc.prems(1) 1 have r: "rest = rest1" "(\<exists>p. r1 = Panic p \<and> r = Panic p) \<or> (\<exists>e. r1 = Return (Inl e) \<and> r = Return (Inl e))"
      by (auto split: outcome.splits sum.splits)
    with Suc.prems(2) have "\<not> hit_end fin r1" by auto
    from assms [OF 1 this] r show ?thesis by auto
  qed
qed simp

lemma read_array_extend:
  assumes "\<And>bs r rest. rd bs = Some (r, rest) \<Longrightarrow> \<not> hit_end fin r \<Longrightarrow> rd (bs @ t) = Some (r, rest @ t)"
    and "read_array rd b line bs = Some (r, rest)" "\<not> hit_end fin r"
  shows "read_array rd b line (bs @ t) = Some (r, rest @ t)"
proof -
  obtain len err where a: "Atoi line = (len, err)" by fastforce
  show ?thesis
  proof (cases "err \<noteq> None \<or> sint len < 0 \<or> make_panics 16 len")
    case True
    with assms(2) a show ?thesis by (auto simp: read_array_def split: if_splits option.splits)
  next
    case False
    with assms(2) a obtain r1 where 1: "read_values rd (nat (sint len)) bs = Some (r1, rest)"
      by (auto simp: read_array_def split: option.splits outcome.splits sum.splits)
    have "\<not> hit_end fin r1"
      using assms(2,3) a False 1 by (auto simp: read_array_def split: outcome.splits sum.splits)
    from read_values_extend [where rd = rd, OF assms(1) 1 this] assms(2) a False 1 show ?thesis
      by (auto simp: read_array_def split: outcome.splits sum.splits)
  qed
qed

lemma reply_body_extend:
  assumes "\<And>bs r rest. rd bs = Some (r, rest) \<Longrightarrow> \<not> hit_end fin r \<Longrightarrow> rd (bs @ t) = Some (r, rest @ t)"
    and "reply_body rd fin b c line bs = Some (r, rest)" "\<not> hit_end fin r"
  shows "reply_body rd fin b c line (bs @ t) = Some (r, rest @ t)"
proof (cases "c = CHR ''*''")
  case True
  with assms(2,3) read_array_extend [where rd = rd, OF assms(1)] show ?thesis by (simp add: reply_body_def)
next
  case False
  with assms(2,3) show ?thesis
    by (auto simp: reply_body_def read_bulk_extend split: if_splits)
qed

lemma read_reply_extend:
  "read_reply n fin b bs = Some (r, rest) \<Longrightarrow> \<not> hit_end fin r \<Longrightarrow> read_reply n fin b (bs @ t) = Some (r, rest @ t)"
proof (induction n arbitrary: b bs r rest)
  case (Suc n)
  show ?case
  proof (cases bs)
    case Nil
    with Suc.prems show ?thesis by auto
  next
    case (Cons c cs)
    show ?thesis
    proof (cases "c \<in> set ''+-:$*_#''")
      case True
      obtain l rest1 where l: "readRedisLine fin cs = (l, rest1)" by fastforce
      show ?thesis
      proof (cases l)
        case (Inl e)
        with readRedisLine_err [of fin cs e rest1] Suc.prems True Cons l show ?thesis by (auto simp: with_line_def)
      next
        case (Inr line)
        with Suc.prems(1) True Cons l have "reply_body (read_reply n fin False) fin b c line rest1 = Some (r, rest)"
          by (simp add: with_line_def)
        from reply_body_extend [where rd = "read_reply n fin False", OF Suc.IH this Suc.prems(2)]
        have "reply_body (read_reply n fin False) fin b c line (rest1 @ t) = Some (r, rest @ t)" .
        with True Cons Inr readRedisLine_extend [of fin cs line rest1 t] l show ?thesis by (simp add: with_line_def)
      qed
    next
      case False
      with Suc.prems Cons show ?thesis by auto
    qed
  qed
qed simp

lemma readRedisReply_extend:
  assumes "readRedisReply fin b bs = (r, rest)" "\<not> hit_end fin r"
  shows "readRedisReply fin b (bs @ t) = (r, rest @ t)"
proof -
  let ?n = "Suc (length (bs @ t))"
  have "read_reply ?n fin b bs = Some (r, rest)"
    using assms(1) read_reply_eq [of bs ?n fin b] by simp
  from read_reply_extend [OF this assms(2), of t] show ?thesis
    using read_reply_eq [of "bs @ t" ?n fin b] by simp
qed

lemma read_cut:
  assumes "fits r" "print_resp r = bs @ t" "t \<noteq> []" "readRedisReply fin b bs = (x, rest)"
  shows "hit_end fin x"
proof (rule ccontr)
  assume "\<not> hit_end fin x"
  from readRedisReply_extend [OF assms(4) this, of t]
  have "readRedisReply fin b (print_resp r) = (x, rest @ t)" by (simp add: assms(2))
  with read_print [OF assms(1), of fin b "[]"] assms(3) show False by simp
qed

section \<open>Commands on the wire\<close>

definition command_bytes :: "rarg list \<Rightarrow> bytes" where
  "command_bytes args = concat (command_writes args)"

text \<open>A command is an array of bulk strings.\<close>

lemma command_bytes_resp: "command_bytes args = print_resp (RArr (map (\<lambda>a. RBulk (redisArgBytes a)) args))"
proof -
  have "concat (concat (map arg_writes args)) = concat (map (\<lambda>a. print_resp (RBulk (redisArgBytes a))) args)"
    by (induction args) (simp_all add: arg_writes_def num_def Let_def)
  then show ?thesis by (simp add: command_bytes_def command_writes_def num_def comp_def)
qed

lemma write_each_ok: "write_each fault i ws = (None, sent) \<Longrightarrow> sent = concat ws"
  by (induction ws arbitrary: i sent) (auto split: option.splits prod.splits)

lemma write_each_no_fault: "write_each (\<lambda>_. None) i ws = (None, concat ws)"
  by (induction ws arbitrary: i) simp_all

lemma writeRedisCommand_ok: "writeRedisCommand fault args = (None, sent) \<Longrightarrow> sent = command_bytes args"
  unfolding writeRedisCommand_def command_bytes_def by (rule write_each_ok)

text \<open>The sizes of a command that the reader of the other side can take.\<close>

definition sized :: "rarg list \<Rightarrow> bool" where
  "sized args \<longleftrightarrow>
     int (length args) * 16 \<le> max_alloc \<and> list_all (\<lambda>a. int (length (redisArgBytes a)) + 2 \<le> max_alloc) args"

lemma command_read_back:
  "sized args \<Longrightarrow>
   readRedisReply fin b (command_bytes args @ rest) = (Return (Inr (VList (map (\<lambda>a. VBytes (redisArgBytes a)) args))), rest)"
  unfolding command_bytes_resp
  by (subst read_print) (auto simp: sized_def list_all_iff comp_def)

section \<open>Two unusual replies\<close>

text \<open>
  An error among the elements of an array is returned at once: the elements behind it stay
  unread. A length near the largest int64 overflows when the line end is added, and \<open>make\<close>
  panics.
\<close>

lemma read_nested_error:
  assumes "\<forall>r \<in> set rs. fits r \<and> \<not> is_error r" "LF \<notin> set e" "int (length rs + Suc k) * 16 \<le> max_alloc"
  shows "readRedisReply fin b (''*'' @ num (length rs + Suc k) @ CRLF @ concat (map print_resp rs) @ print_resp (RError e) @ rest)
    = (Return (Inl (CommandError e)), rest)"
proof -
  let ?tail = "print_resp (RError e) @ rest"
  let ?body = "concat (map print_resp rs) @ ?tail"
  have elems: "readRedisReply fin False (print_resp r @ rest') = (Return (Inr (elem_value r)), rest')"
    if "r \<in> set rs" for r rest'
    using read_print [of r] assms(1) that by (simp add: meaning_elem)
  have "read_reply n fin False ?tail = Some (Return (Inl (CommandError e)), rest)" if "length ?body < n" for n
    using that assms(2) read_reply_eq [of ?tail n fin False] read_print [of "RError e" fin False rest] by simp
  then have "read_values (read_reply n fin False) (length rs + Suc k) ?body = Some (Return (Inl (CommandError e)), rest)"
    if "length ?body < n" for n
    using read_values_print [of rs fin ?tail n "Suc k", OF elems that] that by simp
  then have "reply_body (read_reply n fin False) fin b CHR ''*'' (num (length rs + Suc k)) ?body
      = Some (Return (Inl (CommandError e)), rest)"
    if "length (num (length rs + Suc k) @ CR # LF # ?body) < n" for n
    using that read_array_num [OF assms(3)] by (simp add: reply_body_def)
  then have "readRedisReply fin b (CHR ''*'' # num (length rs + Suc k) @ CR # LF # ?body) = (Return (Inl (CommandError e)), rest)"
    by (intro readRedisReply_Cons [OF _ readRedisLine_append [OF LF_num]]) simp_all
  then show ?thesis by simp
qed

lemma sint_add_two:
  fixes w :: int64
  assumes "2 ^ 63 - 2 \<le> sint w"
  shows "sint (w + 2) < 0"
proof -
  have wrap: "word_of_int i = (word_of_int (i - 2 ^ 64) :: int64)" for i
    by (subst word_of_int_eq_iff) (simp add: take_bit_eq_mod mod_diff_eq [symmetric])
  have "sint (w + 2) = sint (word_of_int (sint w + 2) :: int64)" by simp
  also have "\<dots> = sint (word_of_int (sint w + 2 - 2 ^ 64) :: int64)" by (rule arg_cong [OF wrap])
  also have "\<dots> = sint w + 2 - 2 ^ 64"
    using assms sint_int64_bounds(2) [of w] by (intro sint_of_int64) simp_all
  finally show ?thesis using sint_int64_bounds(2) [of w] by simp
qed

lemma read_huge_bulk:
  assumes "max_alloc < int n + 2" "int n < 2 ^ 63"
  shows "readRedisReply fin b (''$'' @ num n @ CRLF @ rest) = (Panic slice_panic, rest)"
proof -
  let ?w = "of_nat n :: int64"
  have w: "sint ?w = int n" by (rule sint_int_of_nat [OF assms(2)])
  have "make_panics 1 (?w + 2)"
  proof (cases "int n + 2 < 2 ^ 63")
    case True
    with w have "sint (?w + 2) = int n + 2" using sint_add_int64 [of ?w 2] by simp
    with assms(1) show ?thesis by (simp add: make_panics_def)
  next
    case False
    with sint_add_two [of ?w] w show ?thesis by (simp add: make_panics_def)
  qed
  with assms(2) have "read_bulk fin b (num n) rest = (Panic slice_panic, rest)"
    by (simp add: read_bulk_def Atoi_num w)
  then have "readRedisReply fin b (CHR ''$'' # num n @ CR # LF # rest) = (Panic slice_panic, rest)"
    by (intro readRedisReply_Cons [OF _ readRedisLine_append [OF LF_num]]) (simp_all add: reply_body_def)
  then show ?thesis by simp
qed

section \<open>Properties\<close>

text \<open>
  C29: The reader of replies ends on every input: with one nested call more than there are bytes
  it has its result, more depth does not change the result, and what it leaves unread is a rear
  part of the input.
\<close>

theorem reply_reader_ends:
  assumes "length bs < n"
  shows "read_reply n fin b bs = Some (readRedisReply fin b bs) \<and>
    (\<exists>used. bs = used @ snd (readRedisReply fin b bs))"
  using read_reply_eq [OF assms, of fin b] readRedisReply_rest [of fin b bs] by (metis prod.collapse)

theorem reply_reader_ends_witness:
  "read_reply 9 (Sentinel ErrEOF) True (''*1'' @ CRLF) = Some (readRedisReply (Sentinel ErrEOF) True (''*1'' @ CRLF))"
  using reply_reader_ends [of "''*1'' @ CRLF" 9 "Sentinel ErrEOF" True] by simp



text \<open>
  C10: A command is framed: whatever bytes its arguments hold, line breaks and bytes that look
  like the protocol included, the other side reads exactly these arguments, and nothing of one
  argument is taken for another argument or for another command.
\<close>

theorem command_framing:
  assumes "sized args" "writeRedisCommand fault args = (None, sent)"
  shows "readRedisReply fin b (sent @ rest) = (Return (Inr (VList (map (\<lambda>a. VBytes (redisArgBytes a)) args))), rest)"
  using command_read_back [OF assms(1)] writeRedisCommand_ok [OF assms(2)] by simp

theorem command_framing_witness:
  "readRedisReply (Sentinel ErrEOF) True
     (snd (writeRedisCommand (\<lambda>_. None) [ArgString ''GET'', ArgString (''k'' @ CRLF @ ''*1'' @ CRLF)]) @ ''x'')
    = (Return (Inr (VList [VBytes ''GET'', VBytes (''k'' @ CRLF @ ''*1'' @ CRLF)])), ''x'')"
proof -
  let ?args = "[ArgString ''GET'', ArgString (''k'' @ CRLF @ ''*1'' @ CRLF)]"
  have "writeRedisCommand (\<lambda>_. None) ?args = (None, snd (writeRedisCommand (\<lambda>_. None) ?args))"
    by (simp add: writeRedisCommand_def write_each_no_fault)
  from command_framing [OF _ this, of "Sentinel ErrEOF" True "''x''"] show ?thesis
    by (simp add: sized_def max_alloc_def)
qed

text \<open>
  A reply that is cut short is never taken for a shorter reply: when the bytes end before
  the reply does, the reader returns the error of the connection (or the error for an
  unexpected end).
\<close>

theorem cut_reply_is_error:
  assumes "fits r" "print_resp r = bs @ late" "late \<noteq> []"
  shows "\<exists>err. fst (readRedisReply fin b bs) = Return (Inl err) \<and> (err = fin \<or> err = Sentinel ErrUnexpectedEOF)"
proof -
  obtain x rest where x: "readRedisReply fin b bs = (x, rest)" by fastforce
  from read_cut [OF assms x] x show ?thesis by (auto simp: hit_end_def)
qed

theorem cut_reply_is_error_witness:
  "\<exists>err. fst (readRedisReply (Sentinel ErrEOF) True (''+PON'')) = Return (Inl err) \<and>
     (err = Sentinel ErrEOF \<or> err = Sentinel ErrUnexpectedEOF)"
  by (rule cut_reply_is_error [of "RSimple ''PONG''" _ "''G'' @ CRLF"]) simp_all

text \<open>
  C38: A bulk length beyond the address space makes the reader panic, and so does one so large
  that adding the two bytes of the line end wraps to a negative number: a server, or anyone who
  can answer in its place, can crash the caller.
\<close>

theorem huge_length_panics:
  assumes "max_alloc < int n + 2" "int n < 2 ^ 63"
  shows "readRedisReply fin b (''$'' @ num n @ CRLF @ rest) = (Panic slice_panic, rest)"
  using assms by (rule read_huge_bulk)

theorem huge_length_panics_witness:
  "readRedisReply (Sentinel ErrEOF) True (''$'' @ num (2 ^ 63 - 1) @ CRLF @ []) = (Panic slice_panic, [])"
  by (rule huge_length_panics) (simp_all add: max_alloc_def)

end
