(* ===== verification/Cache_Redis_Conn.thy ===== *)
theory Cache_Redis_Conn
  imports Cache_Redis_Wire
begin

text \<open>
  The connection of \<open>cache/redis.go\<close>: \<open>redisConn\<close> with \<open>Do\<close>, the handshake of
  \<open>connectLocked\<close>, and the closing of a connection whose reply could not be read. Every method
  holds the mutex, so each is one step. The server is a parameter: what it sends back for the
  bytes it gets. The lemmas show that a connection in use is always in step with the server,
  as long as the server puts no error inside an array (locale \<open>tidy_server\<close>), and that the command
  of a call that fails was run once or not at all (locale \<open>command_server\<close>).
\<close>

section \<open>The server and the network\<close>

text \<open>
  \<open>sv_accept\<close> is the server's state after it accepted a new connection, \<open>sv_serve\<close> takes the
  bytes of one command and answers with bytes.
\<close>

record 'v server =
  sv_accept :: "'v \<Rightarrow> 'v"
  sv_serve :: "time \<Rightarrow> bytes \<Rightarrow> 'v \<Rightarrow> bytes \<times> 'v"

text \<open>
  What one command meets: the time at the server; the error of \<open>setDeadline\<close> (the context, or
  the socket); the failing writes; the number of reply bytes that arrive before the reading
  stops, when it stops, and the error it stops with.
\<close>

record exchange =
  ex_time :: time
  ex_deadline :: "gerr option"
  ex_write :: "nat \<Rightarrow> (gerr \<times> nat) option"
  ex_cut :: "nat option"
  ex_end :: gerr

text \<open>What one call of \<open>Do\<close> meets: the context, the dialing, the handshake, the command.\<close>

record call_env =
  ce_ctx :: "gerr option"
  ce_dial :: "gerr option"
  ce_shake :: "nat \<Rightarrow> exchange"
  ce_command :: exchange

section \<open>The connection\<close>

text \<open>
  The configuration of a store, the settings of a \<open>redisConn\<close>, and its link: the connection with the bytes that were sent by
  the server and not read yet (in the socket and in the reader), if there is one, and the
  server behind it.
\<close>

record RedisConfig =
  rc_Addr :: string
  rc_Username :: string
  rc_Password :: string
  rc_DB :: int64
  rc_Prefix :: string
  rc_Required :: bool

record redisConn =
  rn_network :: string
  rn_addr :: string
  rn_username :: string
  rn_password :: string
  rn_db :: int64

record 'v link =
  lk_conn :: "bytes option"
  lk_srv :: 'v

fun isRedisCommandError :: "gerr \<Rightarrow> bool" where
  "isRedisCommandError (CommandError _) = True"
| "isRedisCommandError (Sentinel _) = False"
| "isRedisCommandError (Errorf _ _) = False"
| "isRedisCommandError (Wrapf _ err _) = isRedisCommandError err"
| "isRedisCommandError (Join errs) = list_ex isRedisCommandError errs"

definition closeLocked :: "'v link \<Rightarrow> 'v link" where
  "closeLocked l = l\<lparr>lk_conn := None\<rparr>"

text \<open>The bytes a read can see, and those that come too late for it.\<close>

definition seen :: "exchange \<Rightarrow> bytes \<Rightarrow> bytes \<times> bytes" where
  "seen x bs = (case ex_cut x of None \<Rightarrow> (bs, []) | Some n \<Rightarrow> (take n bs, drop n bs))"

text \<open>Without a connection \<open>setDeadline\<close> would call a method of nil.\<close>

definition doLocked ::
  "'v server \<Rightarrow> exchange \<Rightarrow> rarg list \<Rightarrow> 'v link \<Rightarrow> (gerr + rvalue) outcome \<times> 'v link" where
  "doLocked S x args l =
     (case ex_deadline x of
        Some err \<Rightarrow> (Return (Inl err), l)
      | None \<Rightarrow>
     (case lk_conn l of
        None \<Rightarrow> (Panic (Errorf ''nil pointer dereference'' []), l)
      | Some unread \<Rightarrow>
          (case writeRedisCommand (ex_write x) args of (werr, sent) \<Rightarrow>
          (case sv_serve S (ex_time x) sent (lk_srv l) of (reply, v) \<Rightarrow>
             (case werr of
                Some err \<Rightarrow> (Return (Inl err), l\<lparr>lk_conn := Some (unread @ reply), lk_srv := v\<rparr>)
              | None \<Rightarrow>
             (case seen x (unread @ reply) of (arrived, late) \<Rightarrow>
             (case readRedisReply (ex_end x) True arrived of (r, rest) \<Rightarrow>
                (r, l\<lparr>lk_conn := Some (rest @ late), lk_srv := v\<rparr>))))))))"

text \<open>The commands of the handshake, each with the text its error is wrapped in.\<close>

definition handshake :: "redisConn \<Rightarrow> (rarg list \<times> string) list" where
  "handshake cn =
     (if rn_password cn \<noteq> [] then
        [(if rn_username cn \<noteq> []
          then [ArgString ''AUTH'', ArgString (rn_username cn), ArgString (rn_password cn)]
          else [ArgString ''AUTH'', ArgString (rn_password cn)], ''auth redis: %w'')]
      else []) @
     (if rn_db cn \<noteq> 0 then [([ArgString ''SELECT'', ArgInt (rn_db cn)], ''select redis db: %w'')] else []) @
     [([ArgString ''PING''], ''ping redis: %w'')]"

fun shake ::
  "'v server \<Rightarrow> (nat \<Rightarrow> exchange) \<Rightarrow> nat \<Rightarrow> (rarg list \<times> string) list \<Rightarrow> 'v link \<Rightarrow> gerr option outcome \<times> 'v link" where
  "shake S xs i [] l = (Return None, l)"
| "shake S xs i ((args, what) # steps) l =
     (case doLocked S (xs i) args l of
        (Panic p, l) \<Rightarrow> (Panic p, l)
      | (Return (Inl err), l) \<Rightarrow> (Return (Some (Wrapf what err [])), closeLocked l)
      | (Return (Inr _), l) \<Rightarrow> shake S xs (i + 1) steps l)"

definition connectLocked ::
  "'v server \<Rightarrow> redisConn \<Rightarrow> call_env \<Rightarrow> 'v link \<Rightarrow> gerr option outcome \<times> 'v link" where
  "connectLocked S cn ce l =
     (case ce_dial ce of
        Some err \<Rightarrow> (Return (Some (Wrapf ''dial redis: %w'' err [])), l)
      | None \<Rightarrow>
          shake S (ce_shake ce) 0 (handshake cn)
            (l\<lparr>lk_conn := Some [], lk_srv := sv_accept S (lk_srv l)\<rparr>))"

text \<open>\<open>Do\<close>: connect when there is no connection, run the command, and close unless the error came from the server.\<close>

definition redis_Do ::
  "'v server \<Rightarrow> redisConn \<Rightarrow> call_env \<Rightarrow> rarg list \<Rightarrow> 'v link \<Rightarrow> (gerr + rvalue) outcome \<times> 'v link" where
  "redis_Do S cn ce args l =
     (if args = [] then (Return (Inl (Errorf ''redis command is empty'' [])), l)
      else case ce_ctx ce of
        Some err \<Rightarrow> (Return (Inl err), l)
      | None \<Rightarrow>
     (case (if lk_conn l = None then connectLocked S cn ce l else (Return None, l)) of
        (Panic p, l) \<Rightarrow> (Panic p, l)
      | (Return (Some err), l) \<Rightarrow> (Return (Inl err), l)
      | (Return None, l) \<Rightarrow>
          (case doLocked S (ce_command ce) args l of
             (Return (Inl err), l) \<Rightarrow>
               (Return (Inl err),
                if \<not> errors_Is err ErrRedisNil \<and> \<not> isRedisCommandError err then closeLocked l else l)
           | r \<Rightarrow> r)))"

text \<open>\<open>Close\<close>, with the answer of the connection's own \<open>Close\<close>.\<close>

definition redis_Close :: "gerr option \<Rightarrow> 'v link \<Rightarrow> gerr option \<times> 'v link" where
  "redis_Close answer l = (if lk_conn l = None then (None, l) else (answer, closeLocked l))"

text \<open>\<open>OpenRedisClient\<close> connects at once only for a required store.\<close>

definition conn_of :: "RedisConfig \<Rightarrow> redisConn" where
  "conn_of cfg =
     \<lparr>rn_network = ''tcp'', rn_addr = (if rc_Addr cfg = [] then ''127.0.0.1:6379'' else rc_Addr cfg),
      rn_username = rc_Username cfg, rn_password = rc_Password cfg, rn_db = rc_DB cfg\<rparr>"

definition OpenRedisClient ::
  "'v server \<Rightarrow> RedisConfig \<Rightarrow> call_env \<Rightarrow> 'v \<Rightarrow> (gerr + redisConn) outcome \<times> 'v link" where
  "OpenRedisClient S cfg ce v =
     (let cn = conn_of cfg; l = \<lparr>lk_conn = None, lk_srv = v\<rparr> in
      if rc_Required cfg then
        (case connectLocked S cn ce l of
           (Panic p, l) \<Rightarrow> (Panic p, l)
         | (Return (Some err), l) \<Rightarrow> (Return (Inl err), l)
         | (Return None, l) \<Rightarrow> (Return (Inr cn), l))
      else (Return (Inr cn), l))"

section \<open>In step with the server\<close>

text \<open>
  The servers the lemmas are about: every complete command of acceptable size is answered by
  one reply that fits, whatever the state; bytes that are no complete command may be answered
  by anything, and leave a state of the same kind.
\<close>

locale tidy_server =
  fixes S :: "'v server" and inv :: "'v \<Rightarrow> bool"
  assumes accept: "inv v \<Longrightarrow> inv (sv_accept S v)"
    and serve_inv: "inv v \<Longrightarrow> inv (snd (sv_serve S t bs v))"
    and serve: "inv v \<Longrightarrow> sized args \<Longrightarrow> args \<noteq> [] \<Longrightarrow>
      \<exists>reply. fits reply \<and> fst (sv_serve S t (command_bytes args) v) = print_resp reply"

text \<open>Errors of the network are not errors of the server.\<close>

definition from_network :: "gerr \<Rightarrow> bool" where
  "from_network err \<longleftrightarrow> \<not> errors_Is err ErrRedisNil \<and> \<not> isRedisCommandError err"

definition plain :: "exchange \<Rightarrow> bool" where
  "plain x \<longleftrightarrow> from_network (ex_end x) \<and> (\<forall>err. ex_deadline x = Some err \<longrightarrow> from_network err)
     \<and> (\<forall>i err n. ex_write x i = Some (err, n) \<longrightarrow> from_network err)"

definition in_step :: "('v \<Rightarrow> bool) \<Rightarrow> 'v link \<Rightarrow> bool" where
  "in_step good l \<longleftrightarrow> good (lk_srv l) \<and> (lk_conn l = None \<or> lk_conn l = Some [])"

text \<open>The reply of the server to exactly this command.\<close>

definition answers :: "'v server \<Rightarrow> time \<Rightarrow> rarg list \<Rightarrow> 'v \<Rightarrow> gerr + rvalue \<Rightarrow> bool" where
  "answers S t args v r \<longleftrightarrow>
     (\<exists>reply. fits reply \<and> fst (sv_serve S t (command_bytes args) v) = print_resp reply \<and> r = meaning True reply)"

lemma write_each_err: "write_each fault i ws = (Some err, sent) \<Longrightarrow> \<exists>j n. fault j = Some (err, n)"
proof (induction ws arbitrary: i sent)
  case (Cons w ws)
  then show ?case by (cases "fault i") (auto split: prod.splits)
qed simp

lemma from_network_EOF: "from_network (Sentinel ErrUnexpectedEOF)"
  by (simp add: from_network_def)

context tidy_server
begin

text \<open>
  One command on a connection without unread bytes: either the server answered it, the whole
  answer was read and nothing is left, or the result is an error of the network.
\<close>

lemma doLocked_in_step:
  assumes "inv (lk_srv l)" "lk_conn l = Some []" "sized args" "args \<noteq> []" "plain x"
    and "doLocked S x args l = (r, l')"
  shows "inv (lk_srv l') \<and> lk_conn l' \<noteq> None \<and>
    ((\<exists>err. r = Return (Inl err) \<and> from_network err) \<or>
     (\<exists>y. r = Return y \<and> answers S (ex_time x) args (lk_srv l) y \<and> lk_conn l' = Some [] \<and>
        lk_srv l' = snd (sv_serve S (ex_time x) (command_bytes args) (lk_srv l))))"
proof (cases "ex_deadline x")
  case (Some err)
  with assms show ?thesis by (auto simp: doLocked_def plain_def)
next
  case None
  obtain werr sent where w: "writeRedisCommand (ex_write x) args = (werr, sent)" by fastforce
  obtain out v where o: "sv_serve S (ex_time x) sent (lk_srv l) = (out, v)" by fastforce
  have v: "inv v" using serve_inv [OF assms(1), of "ex_time x" sent] o by simp
  show ?thesis
  proof (cases werr)
    case (Some err)
    with w have "\<exists>j n. ex_write x j = Some (err, n)"
      by (auto simp: writeRedisCommand_def dest: write_each_err)
    with assms(5) have "from_network err" by (auto simp: plain_def)
    with assms(2,6) None Some w o v show ?thesis by (auto simp: doLocked_def)
  next
    case None
    with w have sent: "sent = command_bytes args" by (simp add: writeRedisCommand_ok)
    with serve [OF assms(1,3,4), of "ex_time x"] o obtain reply where
      reply: "fits reply" "out = print_resp reply" by auto
    obtain arrived late where s: "seen x out = (arrived, late)" by fastforce
    then have split: "print_resp reply = arrived @ late"
      using reply(2) by (auto simp: seen_def split: option.splits)
    obtain y rest where y: "readRedisReply (ex_end x) True arrived = (y, rest)" by fastforce
    have res: "r = y" "lk_conn l' = Some (rest @ late)" "lk_srv l' = v"
      using assms(2,6) \<open>ex_deadline x = None\<close> None w o s y by (auto simp: doLocked_def)
    show ?thesis
    proof (cases "late = []")
      case True
      with read_print [OF reply(1), of "ex_end x" True "[]"] split y
      have "y = Return (meaning True reply)" "rest = []" by auto
      with res v True reply sent o show ?thesis by (auto simp: answers_def)
    next
      case False
      from read_cut [OF reply(1) split False y] have "hit_end (ex_end x) y" .
      with assms(5) res v show ?thesis
        by (auto simp: hit_end_def plain_def from_network_EOF)
    qed
  qed
qed

text \<open>The handshake ends with a connection without unread bytes, or with none.\<close>

lemma shake_in_step:
  assumes "inv (lk_srv l)" "lk_conn l = Some []" "\<forall>i. plain (xs i)"
    and "\<forall>(args, what) \<in> set steps. sized args \<and> args \<noteq> []" "shake S xs i steps l = (r, l')"
  shows "inv (lk_srv l') \<and> (r = Return None \<and> lk_conn l' = Some [] \<or> (\<exists>err. r = Return (Some err)) \<and> lk_conn l' = None)"
  using assms
proof (induction steps arbitrary: i l)
  case (Cons step steps)
  obtain args what where step: "step = (args, what)" by fastforce
  obtain r1 l1 where d: "doLocked S (xs i) args l = (r1, l1)" by fastforce
  have 1: "inv (lk_srv l1) \<and> lk_conn l1 \<noteq> None \<and>
    ((\<exists>err. r1 = Return (Inl err) \<and> from_network err) \<or>
     (\<exists>y. r1 = Return y \<and> answers S (ex_time (xs i)) args (lk_srv l) y \<and> lk_conn l1 = Some [] \<and>
        lk_srv l1 = snd (sv_serve S (ex_time (xs i)) (command_bytes args) (lk_srv l))))"
    using Cons.prems step by (intro doLocked_in_step [OF _ _ _ _ _ d]) auto
  show ?case
  proof (cases "\<exists>y. r1 = Return (Inr y)")
    case True
    then obtain y where y: "r1 = Return (Inr y)" by blast
    with 1 have l1: "inv (lk_srv l1)" "lk_conn l1 = Some []" by auto
    have "shake S xs (i + 1) steps l1 = (r, l')" using Cons.prems(5) step d y by simp
    with Cons.IH [OF l1] Cons.prems(3,4) show ?thesis by simp
  next
    case False
    with 1 obtain err where "r1 = Return (Inl err)" by (metis sum.exhaust)
    with Cons.prems(5) step d 1 show ?thesis by (auto simp: closeLocked_def)
  qed
qed simp

lemma Do_in_step:
  assumes "in_step inv l" "sized args" "args \<noteq> []" "plain (ce_command ce)" "\<forall>i. plain (ce_shake ce i)"
    and "\<forall>(args, what) \<in> set (handshake cn). sized args \<and> args \<noteq> []"
    and "redis_Do S cn ce args l = (r, l')"
  shows "in_step inv l' \<and> (\<exists>y. r = Return y \<and>
    ((\<exists>err. y = Inl err) \<or>
     (\<exists>v. inv v \<and> (lk_conn l \<noteq> None \<longrightarrow> v = lk_srv l) \<and> answers S (ex_time (ce_command ce)) args v y \<and>
        lk_srv l' = snd (sv_serve S (ex_time (ce_command ce)) (command_bytes args) v))))"
proof (cases "ce_ctx ce")
  case (Some err)
  with assms show ?thesis by (auto simp: redis_Do_def)
next
  case None
  obtain rc lc where c: "(if lk_conn l = None then connectLocked S cn ce l else (Return None, l)) = (rc, lc)"
    by fastforce
  have conn: "inv (lk_srv lc) \<and> (rc = Return None \<and> lk_conn lc = Some [] \<or> (\<exists>err. rc = Return (Some err)) \<and> lk_conn lc = None)
      \<and> (lk_conn l \<noteq> None \<longrightarrow> lc = l)"
  proof (cases "lk_conn l")
    case None
    have "inv (sv_accept S (lk_srv l))" using assms(1) accept by (simp add: in_step_def)
    then show ?thesis
      using None c assms(1,5,6) shake_in_step [of "l\<lparr>lk_conn := Some [], lk_srv := sv_accept S (lk_srv l)\<rparr>" "ce_shake ce" "handshake cn" 0 rc lc]
      by (auto simp: connectLocked_def in_step_def split: option.splits)
  next
    case (Some u)
    with c assms(1) show ?thesis by (auto simp: in_step_def)
  qed
  show ?thesis
  proof (cases "rc = Return None")
    case True
    with conn have lc: "inv (lk_srv lc)" "lk_conn lc = Some []" by auto
    obtain rd ld where d: "doLocked S (ce_command ce) args lc = (rd, ld)" by fastforce
    note step = doLocked_in_step [OF lc assms(2,3,4) d]
    show ?thesis
    proof (cases "\<exists>err. rd = Return (Inl err)")
      case True
      then obtain err where err: "rd = Return (Inl err)" by blast
      with assms(3,7) None c \<open>rc = Return None\<close> d have r: "r = Return (Inl err)"
        "l' = (if from_network err then closeLocked ld else ld)"
        by (auto simp: redis_Do_def from_network_def)
      have "in_step inv l'"
        using step err r(2) by (auto simp: in_step_def closeLocked_def)
      with r(1) show ?thesis by blast
    next
      case False
      with step obtain y where y: "rd = Return (Inr y)" by (metis sum.exhaust)
      with assms(3,7) None c \<open>rc = Return None\<close> d have r: "r = Return (Inr y)" "l' = ld"
        by (auto simp: redis_Do_def)
      from step y have ans: "answers S (ex_time (ce_command ce)) args (lk_srv lc) (Inr y)" "lk_conn ld = Some []"
        "inv (lk_srv ld)" "lk_srv ld = snd (sv_serve S (ex_time (ce_command ce)) (command_bytes args) (lk_srv lc))"
        by auto
      have "in_step inv l'" using ans r(2) by (simp add: in_step_def)
      moreover have "lk_conn l \<noteq> None \<longrightarrow> lk_srv lc = lk_srv l" using conn by blast
      ultimately show ?thesis using r ans lc(1) by blast
    qed
  next
    case False
    with conn obtain err where "rc = Return (Some err)" "lk_conn lc = None" "inv (lk_srv lc)" by blast
    with assms(3,7) None c show ?thesis by (auto simp: redis_Do_def in_step_def)
  qed
qed

end

section \<open>Recovery\<close>

text \<open>An exchange without faults.\<close>

definition quiet :: "exchange \<Rightarrow> bool" where
  "quiet x \<longleftrightarrow> ex_deadline x = None \<and> (\<forall>i. ex_write x i = None) \<and> ex_cut x = None"

lemma quiet_writes: "quiet x \<Longrightarrow> writeRedisCommand (ex_write x) args = (None, command_bytes args)"
  using write_each_no_fault [of 0 "command_writes args"]
  by (simp add: quiet_def writeRedisCommand_def command_bytes_def fun_eq_iff [symmetric])

text \<open>A server that accepts the handshake: no command of it is answered with an error.\<close>

definition welcomes :: "'v server \<Rightarrow> ('v \<Rightarrow> bool) \<Rightarrow> (rarg list \<times> string) list \<Rightarrow> bool" where
  "welcomes S good steps \<longleftrightarrow>
     (\<forall>(args, what) \<in> set steps. sized args \<and> args \<noteq> [] \<and>
        (\<forall>t v y. good v \<and> answers S t args v y \<longrightarrow> (\<exists>z. y = Inr z)))"

context tidy_server
begin

lemma doLocked_quiet:
  assumes "inv (lk_srv l)" "lk_conn l = Some []" "sized args" "args \<noteq> []" "quiet x"
  shows "\<exists>y v. doLocked S x args l = (Return y, \<lparr>lk_conn = Some [], lk_srv = v\<rparr>) \<and> inv v \<and>
    answers S (ex_time x) args (lk_srv l) y"
proof -
  obtain out v where o: "sv_serve S (ex_time x) (command_bytes args) (lk_srv l) = (out, v)" by fastforce
  with serve [OF assms(1,3,4), of "ex_time x"] obtain reply where
    reply: "fits reply" "out = print_resp reply" by auto
  have "inv v" using serve_inv [OF assms(1), of "ex_time x" "command_bytes args"] o by simp
  moreover have "doLocked S x args l = (Return (meaning True reply), \<lparr>lk_conn = Some [], lk_srv = v\<rparr>)"
    using assms(2) o reply read_print [OF reply(1), of "ex_end x" True "[]"] assms(5) [unfolded quiet_def]
    by (cases l) (simp add: doLocked_def quiet_writes [OF assms(5)] seen_def)
  ultimately show ?thesis using reply o by (auto simp: answers_def)
qed

lemma shake_quiet:
  assumes "inv (lk_srv l)" "lk_conn l = Some []" "\<forall>i. quiet (xs i)" "welcomes S inv steps"
  shows "\<exists>v. shake S xs i steps l = (Return None, \<lparr>lk_conn = Some [], lk_srv = v\<rparr>) \<and> inv v"
  using assms
proof (induction steps arbitrary: i l)
  case Nil
  then show ?case by (cases l) auto
next
  case (Cons step steps)
  obtain args what where step: "step = (args, what)" by fastforce
  from Cons.prems(4) step have args: "sized args" "args \<noteq> []"
    and ok: "\<And>t v y. inv v \<Longrightarrow> answers S t args v y \<Longrightarrow> \<exists>z. y = Inr z"
    and rest: "welcomes S inv steps"
    by (auto simp: welcomes_def)
  from doLocked_quiet [OF Cons.prems(1,2) args, of "xs i"] Cons.prems(3) obtain y v where
    d: "doLocked S (xs i) args l = (Return y, \<lparr>lk_conn = Some [], lk_srv = v\<rparr>)" "inv v"
    "answers S (ex_time (xs i)) args (lk_srv l) y" by blast
  with ok [OF Cons.prems(1)] obtain z where "y = Inr z" by blast
  with d Cons.IH [of "\<lparr>lk_conn = Some [], lk_srv = v\<rparr>" "i + 1"] Cons.prems(3) rest step show ?case by simp
qed

lemma Do_quiet:
  assumes "in_step inv l" "sized args" "args \<noteq> []" "ce_ctx ce = None" "ce_dial ce = None"
    and "quiet (ce_command ce)" "\<forall>i. quiet (ce_shake ce i)" "welcomes S inv (handshake cn)"
  shows "\<exists>v y. inv v \<and> fst (redis_Do S cn ce args l) = Return y \<and> answers S (ex_time (ce_command ce)) args v y"
proof -
  have "\<exists>v. (if lk_conn l = None then connectLocked S cn ce l else (Return None, l))
      = (Return None, \<lparr>lk_conn = Some [], lk_srv = v\<rparr>) \<and> inv v"
  proof (cases "lk_conn l")
    case None
    have "inv (sv_accept S (lk_srv l))" using assms(1) accept by (simp add: in_step_def)
    with None assms(5) shake_quiet [OF _ _ assms(7,8), of "l\<lparr>lk_conn := Some [], lk_srv := sv_accept S (lk_srv l)\<rparr>" 0]
    show ?thesis by (simp add: connectLocked_def)
  next
    case (Some u)
    with assms(1) show ?thesis by (cases l) (auto simp: in_step_def)
  qed
  then obtain v where v: "(if lk_conn l = None then connectLocked S cn ce l else (Return None, l))
      = (Return None, \<lparr>lk_conn = Some [], lk_srv = v\<rparr>)" "inv v" by blast
  from doLocked_quiet [of "\<lparr>lk_conn = Some [], lk_srv = v\<rparr>", OF _ _ assms(2,3,6)] v(2) obtain y w where
    d: "doLocked S (ce_command ce) args \<lparr>lk_conn = Some [], lk_srv = v\<rparr> = (Return y, \<lparr>lk_conn = Some [], lk_srv = w\<rparr>)"
    "answers S (ex_time (ce_command ce)) args v y" by auto
  have "fst (redis_Do S cn ce args l) = Return y"
    using assms(3,4) v(1) d(1) by (cases y) (simp_all add: redis_Do_def)
  with v(2) d(2) show ?thesis by blast
qed

end

section \<open>A session\<close>

text \<open>The calls of \<open>Do\<close> on one connection, one after the other.\<close>

fun redis_session ::
  "'v server \<Rightarrow> redisConn \<Rightarrow> (call_env \<times> rarg list) list \<Rightarrow> 'v link \<Rightarrow> (gerr + rvalue) outcome list \<times> 'v link" where
  "redis_session S cn [] l = ([], l)"
| "redis_session S cn ((ce, args) # cs) l =
     (case redis_Do S cn ce args l of (r, l) \<Rightarrow> case redis_session S cn cs l of (rs, l) \<Rightarrow> (r # rs, l))"

text \<open>The calls the lemmas are about: acceptable sizes, and a network that fails with its own errors.\<close>

definition fair_call :: "call_env \<times> rarg list \<Rightarrow> bool" where
  "fair_call c \<longleftrightarrow> sized (snd c) \<and> snd c \<noteq> [] \<and> plain (ce_command (fst c)) \<and> (\<forall>i. plain (ce_shake (fst c) i))"

definition fair_conn :: "redisConn \<Rightarrow> bool" where
  "fair_conn cn \<longleftrightarrow> (\<forall>(args, what) \<in> set (handshake cn). sized args \<and> args \<noteq> [])"

text \<open>A result is an error, or the answer to the command that was sent.\<close>

definition honest :: "'v server \<Rightarrow> ('v \<Rightarrow> bool) \<Rightarrow> call_env \<times> rarg list \<Rightarrow> (gerr + rvalue) outcome \<Rightarrow> bool" where
  "honest S good c r \<longleftrightarrow>
     (\<exists>err. r = Return (Inl err)) \<or>
     (\<exists>v y. good v \<and> r = Return y \<and> answers S (ex_time (ce_command (fst c))) (snd c) v y)"

context tidy_server
begin

lemma session_in_step:
  assumes "in_step inv l" "fair_conn cn" "list_all fair_call cs" "redis_session S cn cs l = (rs, l')"
  shows "in_step inv l' \<and> list_all2 (honest S inv) cs rs"
  using assms
proof (induction cs arbitrary: l rs)
  case (Cons c cs)
  obtain ce args where c: "c = (ce, args)" by fastforce
  obtain r l1 where d: "redis_Do S cn ce args l = (r, l1)" by fastforce
  have 1: "in_step inv l1 \<and> (\<exists>y. r = Return y \<and>
    ((\<exists>err. y = Inl err) \<or>
     (\<exists>v. inv v \<and> (lk_conn l \<noteq> None \<longrightarrow> v = lk_srv l) \<and> answers S (ex_time (ce_command ce)) args v y \<and>
        lk_srv l1 = snd (sv_serve S (ex_time (ce_command ce)) (command_bytes args) v))))"
    using Cons.prems(1-3) c by (intro Do_in_step [OF _ _ _ _ _ _ d]) (auto simp: fair_call_def fair_conn_def)
  then have "honest S inv c r" using c by (auto simp: honest_def)
  moreover obtain rs' where "redis_session S cn cs l1 = (rs', l')" "rs = r # rs'"
    using Cons.prems(4) c d by (auto split: prod.splits)
  ultimately show ?case using Cons.IH [of l1 rs'] 1 Cons.prems(2,3) by simp
qed simp

end

section \<open>A server of commands behind the wire\<close>

text \<open>
  \<open>wired K\<close> is a server that reads the arguments of a command, runs \<open>K\<close> on them and prints the
  reply. A client that talks to it through \<open>Do\<close> without faults sees exactly what \<open>K\<close> does.
\<close>

definition as_bytes :: "rvalue \<Rightarrow> bytes" where
  "as_bytes v = (case v of VBytes bs \<Rightarrow> bs | _ \<Rightarrow> [])"

definition wired :: "(time \<Rightarrow> bytes list \<Rightarrow> 'v \<Rightarrow> resp \<times> 'v) \<Rightarrow> 'v server" where
  "wired K =
     \<lparr>sv_accept = (\<lambda>v. v),
      sv_serve = (\<lambda>t bs v.
        case readRedisReply (Sentinel ErrEOF) True bs of
          (Return (Inr (VList (a # as))), []) \<Rightarrow>
            (case K t (map as_bytes (a # as)) v of (reply, v) \<Rightarrow> (print_resp reply, v))
        | _ \<Rightarrow> (print_resp (RError ''ERR Protocol error''), v))\<rparr>"

lemma wired_serve:
  assumes "sized args" "args \<noteq> []"
  shows "sv_serve (wired K) t (command_bytes args) v =
    (case K t (map redisArgBytes args) v of (reply, v) \<Rightarrow> (print_resp reply, v))"
  using command_read_back [OF assms(1), of "Sentinel ErrEOF" True "[]"] assms(2)
  by (cases args) (simp_all add: wired_def as_bytes_def comp_def)

lemma meaning_error: "meaning True reply = Inl err \<Longrightarrow> errors_Is err ErrRedisNil \<or> isRedisCommandError err"
  by (cases reply) (auto simp: nil_value_def)

lemma redis_Do_wired:
  assumes "sized args" "args \<noteq> []" "ce_ctx ce = None" "quiet (ce_command ce)" "lk_conn l = Some []"
    and "K (ex_time (ce_command ce)) (map redisArgBytes args) (lk_srv l) = (reply, v)" "fits reply"
  shows "redis_Do (wired K) cn ce args l = (Return (meaning True reply), l\<lparr>lk_srv := v\<rparr>)"
proof -
  note w = quiet_writes [OF assms(4)]
  have "doLocked (wired K) (ce_command ce) args l = (Return (meaning True reply), l\<lparr>lk_srv := v\<rparr>)"
    using assms(4-7) read_print [OF assms(7), of "ex_end (ce_command ce)" True "[]"]
    by (simp add: doLocked_def quiet_def w wired_serve [OF assms(1,2)] seen_def)
  then show ?thesis
    using assms(2,3,5) meaning_error by (auto simp: redis_Do_def split: sum.split)
qed

text \<open>
  The contract of a server of commands: whatever it is asked, its reply fits and its state stays
  good. Behind the wire such a server is a tidy one. A command that did not get through whole is
  not run.
\<close>

locale command_server =
  fixes K :: "time \<Rightarrow> bytes list \<Rightarrow> 'v \<Rightarrow> resp \<times> 'v" and good :: "'v \<Rightarrow> bool"
  assumes run: "good v \<Longrightarrow> good (snd (K t as v)) \<and> fits (fst (K t as v))"

lemma wired_state: "snd (sv_serve (wired K) t bs v) = v \<or> (\<exists>as. snd (sv_serve (wired K) t bs v) = snd (K t as v))"
  unfolding wired_def
  by (auto simp: case_prod_beta split: outcome.split sum.split rvalue.split list.split)

sublocale command_server \<subseteq> tidy_server "wired K" good
proof
  show "good v \<Longrightarrow> good (sv_accept (wired K) v)" for v by (simp add: wired_def)
  show "good (snd (sv_serve (wired K) t bs v))" if "good v" for t bs v
    using wired_state [of K t bs v] run [OF that] that by auto
  show "\<exists>reply. fits reply \<and> fst (sv_serve (wired K) t (command_bytes args) v) = print_resp reply"
    if "good v" "sized args" "args \<noteq> []" for t args v
    using run [OF that(1), of t "map redisArgBytes args"]
    by (auto simp: wired_serve [OF that(2,3)] split: prod.splits)
qed

lemma wired_partial:
  assumes "sized args" "command_bytes args = sent @ late" "late \<noteq> []"
  shows "snd (sv_serve (wired K) t sent v) = v"
proof -
  obtain x rest where x: "readRedisReply (Sentinel ErrEOF) True sent = (x, rest)" by fastforce
  have "fits (RArr (map (\<lambda>a. RBulk (redisArgBytes a)) args))"
    using assms(1) by (auto simp: sized_def list_all_iff)
  from read_cut [OF this _ assms(3) x] assms(2) have "hit_end (Sentinel ErrEOF) x"
    by (simp add: command_bytes_resp)
  with x show ?thesis by (auto simp: wired_def hit_end_def)
qed

lemma write_each_prefix: "write_each fault i ws = (err, sent) \<Longrightarrow> \<exists>late. concat ws = sent @ late"
proof (induction ws arbitrary: i err sent)
  case (Cons w ws)
  show ?case
  proof (cases "fault i")
    case None
    with Cons show ?thesis by (fastforce split: prod.splits)
  next
    case (Some f)
    then obtain e n where "fault i = Some (e, n)" by (cases f) auto
    with Cons.prems have "sent = take n w" by simp
    then have "concat (w # ws) = sent @ drop n w @ concat ws" by simp
    then show ?thesis by blast
  qed
qed simp

lemma writeRedisCommand_prefix: "writeRedisCommand fault args = (err, sent) \<Longrightarrow> \<exists>late. command_bytes args = sent @ late"
  unfolding writeRedisCommand_def command_bytes_def by (rule write_each_prefix)

context command_server
begin

text \<open>
  What one exchange does to the server, whatever fails in it: the command is run once or not at
  all, and a value that comes back is the one the command gave when it was run.
\<close>

definition ran_once :: "time \<Rightarrow> rarg list \<Rightarrow> 'v \<Rightarrow> 'v \<Rightarrow> (gerr + rvalue) outcome \<Rightarrow> bool" where
  "ran_once t args v v' r \<longleftrightarrow>
     (v' = v \<or> v' = snd (K t (map redisArgBytes args) v)) \<and>
     (\<forall>y. r = Return (Inr y) \<longrightarrow>
        v' = snd (K t (map redisArgBytes args) v) \<and> meaning True (fst (K t (map redisArgBytes args) v)) = Inr y)"

lemma doLocked_ran_once:
  assumes "good (lk_srv l)" "lk_conn l = Some []" "sized args" "args \<noteq> []" "plain x"
    and "doLocked (wired K) x args l = (r, l')"
  shows "ran_once (ex_time x) args (lk_srv l) (lk_srv l') r"
proof -
  let ?run = "K (ex_time x) (map redisArgBytes args) (lk_srv l)"
  have serve: "sv_serve (wired K) (ex_time x) (command_bytes args) (lk_srv l) = (print_resp (fst ?run), snd ?run)"
    by (simp add: wired_serve [OF assms(3,4)] case_prod_beta)
  have state: "lk_srv l' = lk_srv l \<or> lk_srv l' = snd ?run"
  proof (cases "ex_deadline x")
    case (Some err)
    with assms(6) show ?thesis by (auto simp: doLocked_def)
  next
    case None
    obtain werr sent where w: "writeRedisCommand (ex_write x) args = (werr, sent)" by fastforce
    from writeRedisCommand_prefix [OF w] obtain late where late: "command_bytes args = sent @ late" by blast
    have "lk_srv l' = snd (sv_serve (wired K) (ex_time x) sent (lk_srv l))"
      using assms(2,6) None w by (auto simp: doLocked_def split: prod.splits option.splits)
    with late serve wired_partial [OF assms(3) late] show ?thesis by (cases "late = []") auto
  qed
  have "lk_srv l' = snd ?run \<and> meaning True (fst ?run) = Inr y" if "r = Return (Inr y)" for y
  proof -
    from doLocked_in_step [OF assms] that
    have a: "answers (wired K) (ex_time x) args (lk_srv l) (Inr y)" "lk_srv l' = snd ?run"
      by (auto simp: serve)
    from a(1) obtain reply where reply: "fits reply" "print_resp (fst ?run) = print_resp reply" "Inr y = meaning True reply"
      by (auto simp: answers_def serve)
    have "fits (fst ?run)" using run [OF assms(1)] by blast
    from read_print [OF this, of "Sentinel ErrEOF" True "[]"] read_print [OF reply(1), of "Sentinel ErrEOF" True "[]"]
      reply(2,3) a(2) show ?thesis by simp
  qed
  with state show ?thesis by (simp add: ran_once_def)
qed

text \<open>A handshake that does not change the server, as \<open>AUTH\<close> and \<open>PING\<close> do not.\<close>

definition neutral :: "(rarg list \<times> string) list \<Rightarrow> bool" where
  "neutral steps \<longleftrightarrow>
     (\<forall>(args, what) \<in> set steps. sized args \<and> args \<noteq> [] \<and> (\<forall>t v. snd (K t (map redisArgBytes args) v) = v))"

lemma shake_neutral:
  assumes "good (lk_srv l)" "lk_conn l = Some []" "\<forall>i. plain (xs i)" "neutral steps"
    and "shake (wired K) xs i steps l = (r, l')"
  shows "lk_srv l' = lk_srv l"
  using assms
proof (induction steps arbitrary: i l)
  case (Cons step steps)
  obtain args what where step: "step = (args, what)" by fastforce
  from Cons.prems(4) step have args: "sized args" "args \<noteq> []"
    "\<And>t v. snd (K t (map redisArgBytes args) v) = v" "neutral steps"
    by (auto simp: neutral_def)
  obtain r1 l1 where d: "doLocked (wired K) (xs i) args l = (r1, l1)" by fastforce
  have plain: "plain (xs i)" using Cons.prems(3) by blast
  note in_step = doLocked_in_step [OF Cons.prems(1,2) args(1,2) plain d]
  have same: "lk_srv l1 = lk_srv l"
    using doLocked_ran_once [OF Cons.prems(1,2) args(1,2) plain d] args(3) by (auto simp: ran_once_def)
  show ?case
  proof (cases "\<exists>y. r1 = Return (Inr y)")
    case True
    then obtain y where "r1 = Return (Inr y)" by blast
    with in_step Cons.prems(5) step d have "lk_conn l1 = Some []" "shake (wired K) xs (i + 1) steps l1 = (r, l')" by auto
    with Cons.IH [of l1 "i + 1"] in_step Cons.prems(3) args(4) same show ?thesis by simp
  next
    case False
    with Cons.prems(5) step d same show ?thesis
      by (auto simp: closeLocked_def split: outcome.splits sum.splits)
  qed
qed simp

lemma Do_ran_once:
  assumes "in_step good l" "sized args" "args \<noteq> []" "plain (ce_command ce)" "\<forall>i. plain (ce_shake ce i)"
    and "neutral (handshake cn)" "redis_Do (wired K) cn ce args l = (r, l')"
  shows "in_step good l' \<and> ran_once (ex_time (ce_command ce)) args (lk_srv l) (lk_srv l') r"
proof
  have hs: "\<forall>(args, what) \<in> set (handshake cn). sized args \<and> args \<noteq> []"
    using assms(6) by (auto simp: neutral_def)
  then show "in_step good l'" using Do_in_step [OF assms(1-5) hs assms(7)] by blast
  obtain rc lc where c: "(if lk_conn l = None then connectLocked (wired K) cn ce l else (Return None, l)) = (rc, lc)"
    by fastforce
  have lc: "lk_srv lc = lk_srv l \<and> (rc = Return None \<longrightarrow> lk_conn lc = Some [])"
  proof (cases "lk_conn l")
    case None
    let ?l = "l\<lparr>lk_conn := Some [], lk_srv := sv_accept (wired K) (lk_srv l)\<rparr>"
    have same: "sv_accept (wired K) (lk_srv l) = lk_srv l" by (simp add: wired_def)
    have l: "good (lk_srv ?l)" "lk_conn ?l = Some []" using assms(1) by (simp_all add: same in_step_def)
    show ?thesis
    proof (cases "ce_dial ce")
      case None
      with \<open>lk_conn l = None\<close> c have sh: "shake (wired K) (ce_shake ce) 0 (handshake cn) ?l = (rc, lc)"
        by (simp add: connectLocked_def)
      from shake_neutral [OF l assms(5,6) sh] shake_in_step [OF l assms(5) hs sh] same show ?thesis by auto
    next
      case (Some err)
      with \<open>lk_conn l = None\<close> c show ?thesis by (auto simp: connectLocked_def)
    qed
  next
    case (Some u)
    with c assms(1) show ?thesis by (auto simp: in_step_def)
  qed
  have idle: "ran_once t args v v (Return (Inl err))" for t v err by (simp add: ran_once_def)
  show "ran_once (ex_time (ce_command ce)) args (lk_srv l) (lk_srv l') r"
  proof (cases "ce_ctx ce = None \<and> rc = Return None")
    case True
    obtain rd ld where d: "doLocked (wired K) (ce_command ce) args lc = (rd, ld)" by fastforce
    have "good (lk_srv lc)" using lc assms(1) by (simp add: in_step_def)
    from doLocked_ran_once [OF this _ assms(2,3,4) d] lc True
    have "ran_once (ex_time (ce_command ce)) args (lk_srv l) (lk_srv ld) rd" by simp
    moreover have "r = rd \<and> lk_srv l' = lk_srv ld"
      using assms(3,7) True c d by (auto simp: redis_Do_def closeLocked_def split: outcome.splits sum.splits)
    ultimately show ?thesis by simp
  next
    case False
    have "\<not> (\<exists>p. rc = Panic p)"
      using c shake_in_step [of "l\<lparr>lk_conn := Some [], lk_srv := sv_accept (wired K) (lk_srv l)\<rparr>" "ce_shake ce" "handshake cn" 0 rc lc]
        accept assms(1,5) hs
      by (auto simp: connectLocked_def in_step_def split: option.splits if_splits)
    with False assms(3,7) c lc idle show ?thesis
      by (auto simp: redis_Do_def split: option.splits outcome.splits)
  qed
qed

end

section \<open>Properties\<close>

text \<open>
  C1: A connection never gets out of step: for a server that answers each command with one
  reply without errors inside arrays, and whatever calls fail, are cut short or time out, every
  value a session returns is the server's answer to the very command it was returned for, and
  no panic occurs.
\<close>

theorem session_answers_are_honest:
  assumes "tidy_server S good" "good v" "fair_conn cn" "list_all fair_call cs"
  shows "list_all2 (honest S good) cs (fst (redis_session S cn cs \<lparr>lk_conn = None, lk_srv = v\<rparr>))"
proof -
  let ?l = "\<lparr>lk_conn = None, lk_srv = v\<rparr>"
  obtain rs l' where s: "redis_session S cn cs ?l = (rs, l')" by fastforce
  have "in_step good ?l" using assms(2) by (simp add: in_step_def)
  from tidy_server.session_in_step [OF assms(1) this assms(3,4) s] s show ?thesis by simp
qed

text \<open>A server that answers every command with \<open>+OK\<close>, and a network without faults.\<close>

definition ok_server :: "unit server" where
  "ok_server = \<lparr>sv_accept = (\<lambda>v. v), sv_serve = (\<lambda>t bs v. (print_resp (RSimple ''OK''), v))\<rparr>"

definition calm :: "time \<Rightarrow> exchange" where
  "calm t = \<lparr>ex_time = t, ex_deadline = None, ex_write = (\<lambda>_. None), ex_cut = None, ex_end = Sentinel ErrEOF\<rparr>"

definition calm_call :: "time \<Rightarrow> call_env" where
  "calm_call t = \<lparr>ce_ctx = None, ce_dial = None, ce_shake = (\<lambda>_. calm t), ce_command = calm t\<rparr>"

lemma ok_serve: "fst (sv_serve ok_server t bs v) = print_resp (RSimple ''OK'')"
  by (simp add: ok_server_def del: print_resp.simps)

lemma ok_tidy: "tidy_server ok_server (\<lambda>_. True)"
proof -
  have "\<exists>reply. fits reply \<and> fst (sv_serve ok_server t bs v) = print_resp reply" for t bs v
    by (rule exI [of _ "RSimple ''OK''"]) (simp only: ok_serve, simp)
  then show ?thesis by unfold_locales (simp_all add: ok_server_def)
qed

lemma calm_plain [simp]: "plain (calm t)"
  by (simp add: plain_def calm_def from_network_def)

definition local_conn :: redisConn where
  "local_conn = conn_of \<lparr>rc_Addr = [], rc_Username = [], rc_Password = [], rc_DB = 0, rc_Prefix = [], rc_Required = False\<rparr>"

lemma local_conn_simps [simp]:
  "rn_username local_conn = []" "rn_password local_conn = []" "rn_db local_conn = 0"
  by (simp_all add: local_conn_def conn_of_def)

theorem session_answers_are_honest_witness:
  "list_all2 (honest ok_server (\<lambda>_. True)) [(calm_call 1, [ArgString ''GET'', ArgString ''k''])]
     (fst (redis_session ok_server (local_conn\<lparr>rn_password := ''pw''\<rparr>)
        [(calm_call 1, [ArgString ''GET'', ArgString ''k''])] \<lparr>lk_conn = None, lk_srv = ()\<rparr>))"
proof (rule session_answers_are_honest)
  show "tidy_server ok_server (\<lambda>_. True)" by (rule ok_tidy)
qed (simp_all add: fair_conn_def handshake_def fair_call_def sized_def max_alloc_def calm_call_def)

text \<open>
  C5: A connection recovers: after any session, whatever failed in it, the next command that meets a
  working network and a server that accepts the handshake is answered by the server; no fault
  of the past can make it fail.
\<close>

theorem connection_recovers:
  assumes "tidy_server S good" "good v" "fair_conn cn" "list_all fair_call cs"
    and "redis_session S cn cs \<lparr>lk_conn = None, lk_srv = v\<rparr> = (rs, l)"
    and "sized args" "args \<noteq> []" "ce_ctx ce = None" "ce_dial ce = None"
    and "quiet (ce_command ce)" "\<forall>i. quiet (ce_shake ce i)" "welcomes S good (handshake cn)"
  shows "\<exists>v' y. good v' \<and> fst (redis_Do S cn ce args l) = Return y \<and> answers S (ex_time (ce_command ce)) args v' y"
proof -
  have "in_step good \<lparr>lk_conn = None, lk_srv = v\<rparr>" using assms(2) by (simp add: in_step_def)
  from tidy_server.session_in_step [OF assms(1) this assms(3,4,5)] have "in_step good l" by blast
  from tidy_server.Do_quiet [OF assms(1) this assms(6-12)] show ?thesis .
qed

theorem connection_recovers_witness:
  "\<exists>y. fst (redis_Do ok_server local_conn (calm_call 2) [ArgString ''GET'', ArgString ''k'']
     (snd (redis_session ok_server local_conn
        [((calm_call 1)\<lparr>ce_command := (calm 1)\<lparr>ex_cut := Some 2\<rparr>\<rparr>, [ArgString ''GET'', ArgString ''k''])] \<lparr>lk_conn = None, lk_srv = ()\<rparr>)))
     = Return y \<and> answers ok_server 2 [ArgString ''GET'', ArgString ''k''] () y"
proof -
  let ?cn = "local_conn"
  let ?cs = "[((calm_call 1)\<lparr>ce_command := (calm 1)\<lparr>ex_cut := Some 2\<rparr>\<rparr>, [ArgString ''GET'', ArgString ''k''])]"
  obtain rs l where s: "redis_session ok_server ?cn ?cs \<lparr>lk_conn = None, lk_srv = ()\<rparr> = (rs, l)" by fastforce
  have z: "\<exists>z. y = Inr z" if "answers ok_server t args w y" for t args w y
  proof -
    from that obtain reply where r: "fits reply" "print_resp (RSimple ''OK'') = print_resp reply" "y = meaning True reply"
      by (auto simp: answers_def ok_serve simp del: print_resp.simps)
    have ok: "fits (RSimple ''OK'')" by simp
    from read_print [OF r(1), of "Sentinel ErrEOF" True "[]"] read_print [OF ok, of "Sentinel ErrEOF" True "[]"] r(2)
    have "meaning True reply = meaning True (RSimple ''OK'')" by simp
    with r(3) show ?thesis by simp
  qed
  have w: "welcomes ok_server (\<lambda>_. True) (handshake ?cn)"
    using z by (auto simp: welcomes_def handshake_def sized_def max_alloc_def)
  have f: "list_all fair_call ?cs"
    by (simp add: fair_call_def sized_def max_alloc_def calm_call_def plain_def calm_def from_network_def)
  have c: "fair_conn ?cn" by (simp add: fair_conn_def handshake_def sized_def max_alloc_def)
  from connection_recovers [OF ok_tidy TrueI c f s, of "[ArgString ''GET'', ArgString ''k'']" "calm_call 2"] w s
  show ?thesis by (simp add: sized_def max_alloc_def calm_call_def calm_def quiet_def)
qed



text \<open>The bytes of an array whose first element is an error, as \<open>EXEC\<close> and scripts can answer.\<close>

definition nested_reply :: bytes where
  "nested_reply = ''*'' @ num 2 @ CRLF @ print_resp (RError ''ERR no'') @ print_resp (RInteger 7)"

definition nested_server :: "nat server" where
  "nested_server =
     \<lparr>sv_accept = (\<lambda>n. n),
      sv_serve = (\<lambda>t bs n. (if n = 0 then nested_reply else print_resp (RSimple ''OK''), n + 1))\<rparr>"

text \<open>
  C37: An error inside an array breaks the step: the reader returns it at once, \<open>Do\<close> takes it for
  the answer of a healthy connection, and the rest of the array stays unread. The next command
  is answered with that rest, here with the 7 of the array instead of its own \<open>OK\<close>.
\<close>

theorem nested_error_breaks_step:
  "fst (redis_session nested_server cn [(calm_call 1, [ArgString ''EXEC'']), (calm_call 2, [ArgString ''PING''])]
     \<lparr>lk_conn = Some [], lk_srv = 0\<rparr>)
   = [Return (Inl (CommandError ''ERR no'')), Return (Inr (VInt 7))]"
proof -
  have sends: "writeRedisCommand (\<lambda>_. None) args = (None, command_bytes args)" for args
    by (simp add: writeRedisCommand_def write_each_no_fault command_bytes_def)
  have first: "readRedisReply fin True nested_reply = (Return (Inl (CommandError ''ERR no'')), print_resp (RInteger 7))" for fin
    using read_nested_error [of "[]" "''ERR no''" 1 fin True "print_resp (RInteger 7)"]
    by (simp add: nested_reply_def max_alloc_def numeral_2_eq_2)
  have second: "readRedisReply fin True (print_resp (RInteger 7) @ print_resp (RSimple ''OK''))
      = (Return (Inr (VInt 7)), print_resp (RSimple ''OK''))" for fin
    using read_print [of "RInteger 7" fin True] by simp
  have 1: "redis_Do nested_server cn (calm_call 1) [ArgString ''EXEC''] \<lparr>lk_conn = Some [], lk_srv = 0\<rparr>
      = (Return (Inl (CommandError ''ERR no'')), \<lparr>lk_conn = Some (print_resp (RInteger 7)), lk_srv = 1\<rparr>)"
    by (simp add: redis_Do_def doLocked_def calm_call_def calm_def sends nested_server_def seen_def first del: print_resp.simps)
  have 2: "redis_Do nested_server cn (calm_call 2) [ArgString ''PING''] \<lparr>lk_conn = Some (print_resp (RInteger 7)), lk_srv = 1\<rparr>
      = (Return (Inr (VInt 7)), \<lparr>lk_conn = Some (print_resp (RSimple ''OK'')), lk_srv = 2\<rparr>)"
    by (simp add: redis_Do_def doLocked_def calm_call_def calm_def sends nested_server_def seen_def second del: print_resp.simps)
  show ?thesis by (simp only: redis_session.simps 1 2 prod.case fst_conv)
qed

end
