(* ===== verification/Cache_Redis.thy ===== *)
theory Cache_Redis
  imports Cache_RateLimit Cache_Redis_Conn "HOL-Library.Signed_Division"
begin

text \<open>
  The Redis store of \<open>cache/redis.go\<close>: the operations of \<open>Redis\<close> over a client, the conversion
  of replies and of lifetimes. What the server does with a command is not under \<open>src/\<close>; the
  locale \<open>redis_commands\<close> states the documented behaviour of the commands the store sends, and
  a small server behind the connection of \<open>Cache_Redis_Conn\<close> is an instance of it.
\<close>

section \<open>The store\<close>

text \<open>The interface \<open>RedisClient\<close>.\<close>

record ('e, 's) RedisClient =
  rcl_Do :: "'e \<Rightarrow> rarg list \<Rightarrow> 's \<Rightarrow> (gerr + rvalue) \<times> 's"
  rcl_Close :: "'e \<Rightarrow> 's \<Rightarrow> gerr option \<times> 's"

record ('e, 's) Redis =
  rs_client :: "('e, 's) RedisClient"
  rs_prefix :: string
  rs_closeClient :: bool

definition NewRedis :: "('e, 's) RedisClient \<Rightarrow> string \<Rightarrow> ('e, 's) Redis" where
  "NewRedis client prefix = \<lparr>rs_client = client, rs_prefix = prefix, rs_closeClient = False\<rparr>"

definition NewOwnedRedis :: "('e, 's) RedisClient \<Rightarrow> string \<Rightarrow> ('e, 's) Redis" where
  "NewOwnedRedis client prefix = \<lparr>rs_client = client, rs_prefix = prefix, rs_closeClient = True\<rparr>"

text \<open>The scripts, line by line; the first and the last line are empty.\<close>

definition script :: "string list \<Rightarrow> string" where
  "script lines = JoinWith ([] # lines @ [[]]) [LF]"

definition incrementScript :: string where
  \<open>incrementScript = script [
     ''local value = redis.call("INCRBY", KEYS[1], ARGV[1])'',
     ''local ttl = tonumber(ARGV[2])'',
     ''if ttl and ttl > 0 then'',
     CHR 0x09 # ''redis.call("PEXPIRE", KEYS[1], ttl)'',
     ''end'',
     ''return value'']\<close>

definition takeScript :: string where
  \<open>takeScript = script [
     ''local value = redis.call("GET", KEYS[1])'',
     ''if not value then'',
     CHR 0x09 # ''return nil'',
     ''end'',
     ''redis.call("DEL", KEYS[1])'',
     ''return value'']\<close>

definition type_name :: "rvalue \<Rightarrow> string" where
  "type_name v = (case v of VNil \<Rightarrow> ''<nil>'' | VString _ \<Rightarrow> ''string'' | VBytes _ \<Rightarrow> ''[]uint8''
     | VInt _ \<Rightarrow> ''int64'' | VBool _ \<Rightarrow> ''bool'' | VList _ \<Rightarrow> ''[]interface {}'')"

definition redisBytes :: "rvalue \<Rightarrow> gerr + bytes" where
  "redisBytes v =
     (case v of VBytes bs \<Rightarrow> Inr bs | VString s \<Rightarrow> Inr s
      | _ \<Rightarrow> Inl (Errorf ''redis: unexpected bulk value type %T'' [type_name v]))"

text \<open>A text that is no number counts as the value \<open>ParseInt\<close> returns beside its error.\<close>

definition redisInt64 :: "rvalue \<Rightarrow> int64" where
  "redisInt64 v =
     (case v of VInt i \<Rightarrow> i | VString s \<Rightarrow> fst (ParseInt s 64) | VBytes bs \<Rightarrow> fst (ParseInt bs 64) | _ \<Rightarrow> 0)"

definition millisecond :: int where
  "millisecond = 1000000"

text \<open>\<open>Duration.Milliseconds\<close> rounds towards zero.\<close>

definition Milliseconds :: "duration \<Rightarrow> int64" where
  "Milliseconds d = word_of_int (sint d sdiv millisecond)"

definition redisTTLMillis :: "duration \<Rightarrow> int64" where
  "redisTTLMillis ttl =
     (let ttlMillis = Milliseconds ttl in if 0 < sint ttl \<and> ttlMillis = 0 then 1 else ttlMillis)"

definition redis_key :: "('e, 's) Redis \<Rightarrow> string \<Rightarrow> string" where
  "redis_key rs key = Key (rs_prefix rs) key"

definition nil_as_miss :: "gerr \<Rightarrow> gerr" where
  "nil_as_miss err = (if errors_Is err ErrRedisNil then Sentinel ErrMiss else err)"

definition get_command :: "string \<Rightarrow> rarg list" where
  "get_command key = [ArgString ''GET'', ArgString key]"

definition Redis_Get :: "('e, 's) Redis \<Rightarrow> 'e \<Rightarrow> string \<Rightarrow> 's \<Rightarrow> (gerr + bytes) \<times> 's" where
  "Redis_Get rs e key s =
     (case rcl_Do (rs_client rs) e (get_command (redis_key rs key)) s of
        (Inl err, s) \<Rightarrow> (Inl (nil_as_miss err), s)
      | (Inr value, s) \<Rightarrow> (redisBytes value, s))"

definition set_command :: "string \<Rightarrow> bytes \<Rightarrow> duration \<Rightarrow> rarg list" where
  "set_command key value ttl =
     [ArgString ''SET'', ArgString key, ArgBytes value] @
     (if 0 < sint ttl then [ArgString ''PX'', ArgInt64 (redisTTLMillis ttl)] else [])"

definition Redis_Set ::
  "('e, 's) Redis \<Rightarrow> 'e \<Rightarrow> string \<Rightarrow> bytes \<Rightarrow> duration \<Rightarrow> 's \<Rightarrow> gerr option \<times> 's" where
  "Redis_Set rs e key value ttl s =
     (case rcl_Do (rs_client rs) e (set_command (redis_key rs key) value ttl) s of
        (Inl err, s) \<Rightarrow> (Some err, s) | (Inr _, s) \<Rightarrow> (None, s))"

definition take_command :: "string \<Rightarrow> rarg list" where
  "take_command key = [ArgString ''EVAL'', ArgString takeScript, ArgInt 1, ArgString key]"

definition Redis_Take :: "('e, 's) Redis \<Rightarrow> 'e \<Rightarrow> string \<Rightarrow> 's \<Rightarrow> (gerr + bytes) \<times> 's" where
  "Redis_Take rs e key s =
     (case rcl_Do (rs_client rs) e (take_command (redis_key rs key)) s of
        (Inl err, s) \<Rightarrow> (Inl (nil_as_miss err), s)
      | (Inr value, s) \<Rightarrow> (redisBytes value, s))"

definition Redis_Exists :: "('e, 's) Redis \<Rightarrow> 'e \<Rightarrow> string \<Rightarrow> 's \<Rightarrow> (gerr + bool) \<times> 's" where
  "Redis_Exists rs e key s =
     (case rcl_Do (rs_client rs) e [ArgString ''EXISTS'', ArgString (redis_key rs key)] s of
        (Inl err, s) \<Rightarrow> (Inl err, s)
      | (Inr value, s) \<Rightarrow> (Inr (0 < sint (redisInt64 value)), s))"

definition increment_command :: "string \<Rightarrow> int64 \<Rightarrow> duration \<Rightarrow> rarg list" where
  "increment_command key delta ttl =
     [ArgString ''EVAL'', ArgString incrementScript, ArgInt 1, ArgString key, ArgInt64 delta,
      ArgInt64 (redisTTLMillis ttl)]"

definition Redis_Increment ::
  "('e, 's) Redis \<Rightarrow> 'e \<Rightarrow> string \<Rightarrow> int64 \<Rightarrow> duration \<Rightarrow> 's \<Rightarrow> (gerr + int64) \<times> 's" where
  "Redis_Increment rs e key delta ttl s =
     (case rcl_Do (rs_client rs) e (increment_command (redis_key rs key) delta ttl) s of
        (Inl err, s) \<Rightarrow> (Inl err, s) | (Inr value, s) \<Rightarrow> (Inr (redisInt64 value), s))"

text \<open>The answer of \<open>PTTL\<close> as a remaining lifetime.\<close>

definition pttl_result :: "int64 \<Rightarrow> gerr + duration" where
  "pttl_result ttl =
     (if ttl = - 2 then miss else if ttl = - 1 then Inr 0 else Inr (ttl * word_of_int millisecond))"

definition Redis_TTL :: "('e, 's) Redis \<Rightarrow> 'e \<Rightarrow> string \<Rightarrow> 's \<Rightarrow> (gerr + duration) \<times> 's" where
  "Redis_TTL rs e key s =
     (case rcl_Do (rs_client rs) e [ArgString ''PTTL'', ArgString (redis_key rs key)] s of
        (Inl err, s) \<Rightarrow> (Inl err, s) | (Inr value, s) \<Rightarrow> (pttl_result (redisInt64 value), s))"

definition Redis_Delete :: "('e, 's) Redis \<Rightarrow> 'e \<Rightarrow> string \<Rightarrow> 's \<Rightarrow> gerr option \<times> 's" where
  "Redis_Delete rs e key s =
     (case rcl_Do (rs_client rs) e [ArgString ''DEL'', ArgString (redis_key rs key)] s of
        (Inl err, s) \<Rightarrow> (Some err, s) | (Inr _, s) \<Rightarrow> (None, s))"

definition Redis_Close :: "('e, 's) Redis \<Rightarrow> 'e \<Rightarrow> 's \<Rightarrow> gerr option \<times> 's" where
  "Redis_Close rs e s = (if \<not> rs_closeClient rs then (None, s) else rcl_Close (rs_client rs) e s)"

definition redis_cache :: "('e, 's) Redis \<Rightarrow> ('e, 's) cache" where
  "redis_cache rs =
     \<lparr>cGet = Redis_Get rs, cSet = Redis_Set rs, cTake = Redis_Take rs, cExists = Redis_Exists rs,
      cIncrement = Redis_Increment rs, cTTL = Redis_TTL rs, cDelete = Redis_Delete rs,
      cClose = Redis_Close rs\<rparr>"

text \<open>
  The connection as a client. A panic of the reader unwinds through the store; the record of
  operations has no place for it, and it appears here as an error.
\<close>

definition conn_client :: "'v server \<Rightarrow> redisConn \<Rightarrow> gerr option \<Rightarrow> (call_env, 'v link) RedisClient" where
  "conn_client S cn answer =
     \<lparr>rcl_Do = (\<lambda>ce args l. case redis_Do S cn ce args l of (Return r, l) \<Rightarrow> (r, l) | (Panic p, l) \<Rightarrow> (Inl p, l)),
      rcl_Close = (\<lambda>ce l. redis_Close answer l)\<rparr>"

text \<open>\<open>OpenRedis\<close>: the client, connected at once when the store is required, and a store that owns it.\<close>

definition OpenRedisStore ::
  "'v server \<Rightarrow> RedisConfig \<Rightarrow> gerr option \<Rightarrow> call_env \<Rightarrow> 'v \<Rightarrow>
   (gerr + (call_env, 'v link) Redis) outcome \<times> 'v link" where
  "OpenRedisStore S cfg answer ce v =
     (case OpenRedisClient S cfg ce v of
        (Panic p, l) \<Rightarrow> (Panic p, l)
      | (Return (Inl err), l) \<Rightarrow> (Return (Inl err), l)
      | (Return (Inr cn), l) \<Rightarrow> (Return (Inr (NewOwnedRedis (conn_client S cn answer) (rc_Prefix cfg))), l))"

definition Redis_Client :: "('e, 's) Redis option \<Rightarrow> ('e, 's) RedisClient option" where
  "Redis_Client rs = map_option rs_client rs"

section \<open>The commands of the server\<close>

text \<open>
  What the commands are documented to do, on a map from keys to values with an optional expiry
  instant. A lifetime given in milliseconds ends within a millisecond of the time it names. A
  value has at most 512 MB. \<open>sized\<close> bounds the command itself.
\<close>

definition near :: "time \<Rightarrow> int64 \<Rightarrow> time \<Rightarrow> bool" where
  "near t p x \<longleftrightarrow> t + (sint p - 1) * millisecond \<le> x \<and> x \<le> t + (sint p + 1) * millisecond"

definition max_value :: int where
  "max_value = 512 * 1024 * 1024"

definition bulk_or_nil :: "entry option \<Rightarrow> gerr + rvalue" where
  "bulk_or_nil en = (case en of None \<Rightarrow> Inl (Sentinel ErrRedisNil) | Some (v, x) \<Rightarrow> Inr (VBytes v))"

locale redis_commands =
  fixes client :: "('e, 's) RedisClient"
    and abs :: "'s \<Rightarrow> string \<rightharpoonup> entry"
    and inv :: "'s \<Rightarrow> bool"
    and tm :: "'e \<Rightarrow> time"
    and ok :: "'e \<Rightarrow> bool"
  assumes GET: "inv s \<Longrightarrow> ok e \<Longrightarrow> sized (get_command k) \<Longrightarrow> rcl_Do client e (get_command k) s = (r, s') \<Longrightarrow>
      r = bulk_or_nil (live (abs s) (tm e) k) \<and> inv s' \<and> same_from (tm e) (abs s) (abs s')"
    and SET: "inv s \<Longrightarrow> ok e \<Longrightarrow> sized (set_command k v d) \<Longrightarrow> int (length v) \<le> max_value \<Longrightarrow>
      rcl_Do client e (set_command k v d) s = (r, s') \<Longrightarrow>
      (\<exists>x. r = Inr (VString ''OK'') \<and> inv s' \<and> same_from (tm e) ((abs s)(k \<mapsto> (v, x))) (abs s') \<and>
        (case x of None \<Rightarrow> sint d \<le> 0 | Some u \<Rightarrow> 0 < sint d \<and> near (tm e) (redisTTLMillis d) u))"
    and EXISTS: "inv s \<Longrightarrow> ok e \<Longrightarrow> sized [ArgString ''EXISTS'', ArgString k] \<Longrightarrow>
      rcl_Do client e [ArgString ''EXISTS'', ArgString k] s = (r, s') \<Longrightarrow>
      r = Inr (VInt (if live (abs s) (tm e) k = None then 0 else 1)) \<and> inv s' \<and> same_from (tm e) (abs s) (abs s')"
    and DEL: "inv s \<Longrightarrow> ok e \<Longrightarrow> sized [ArgString ''DEL'', ArgString k] \<Longrightarrow>
      rcl_Do client e [ArgString ''DEL'', ArgString k] s = (r, s') \<Longrightarrow>
      (\<exists>i. r = Inr (VInt i)) \<and> inv s' \<and> same_from (tm e) ((abs s)(k := None)) (abs s')"
    and PTTL: "inv s \<Longrightarrow> ok e \<Longrightarrow> sized [ArgString ''PTTL'', ArgString k] \<Longrightarrow>
      rcl_Do client e [ArgString ''PTTL'', ArgString k] s = (r, s') \<Longrightarrow>
      (case live (abs s) (tm e) k of
         None \<Rightarrow> r = Inr (VInt (- 2)) | Some (v, None) \<Rightarrow> r = Inr (VInt (- 1))
       | Some (v, Some u) \<Rightarrow> \<exists>i. r = Inr (VInt i) \<and> 0 \<le> sint i) \<and>
      inv s' \<and> same_from (tm e) (abs s) (abs s')"
    and EVAL_take: "inv s \<Longrightarrow> ok e \<Longrightarrow> sized (take_command k) \<Longrightarrow> rcl_Do client e (take_command k) s = (r, s') \<Longrightarrow>
      r = bulk_or_nil (live (abs s) (tm e) k) \<and> inv s' \<and> same_from (tm e) ((abs s)(k := None)) (abs s')"
    and EVAL_increment: "inv s \<Longrightarrow> ok e \<Longrightarrow> sized (increment_command k delta d) \<Longrightarrow>
      (case live (abs s) (tm e) k of None \<Rightarrow> n = 0 \<and> y = None | Some (v, x) \<Rightarrow> v = FormatInt n \<and> y = x) \<Longrightarrow>
      - (2 ^ 63) \<le> sint n + sint delta \<Longrightarrow> sint n + sint delta < 2 ^ 63 \<Longrightarrow>
      rcl_Do client e (increment_command k delta d) s = (r, s') \<Longrightarrow>
      (\<exists>x. r = Inr (VInt (n + delta)) \<and> inv s' \<and>
        same_from (tm e) ((abs s)(k \<mapsto> (FormatInt (n + delta), x))) (abs s') \<and>
        (if 0 < sint (redisTTLMillis d) then \<exists>u. x = Some u \<and> near (tm e) (redisTTLMillis d) u else x = y))"

section \<open>What the store makes of it\<close>

lemma sint_Milliseconds: "sint (Milliseconds d) = sint d sdiv millisecond"
proof -
  have d: "- (2 ^ 63) \<le> sint d" "sint d < 2 ^ 63" by (rule sint_int64_bounds)+
  have "- (2 ^ 63) \<le> sint d sdiv millisecond \<and> sint d sdiv millisecond < 2 ^ 63"
  proof (cases "0 \<le> sint d")
    case True
    with d show ?thesis by (simp add: signed_divide_int_def sgn_if millisecond_def) linarith
  next
    case False
    with d show ?thesis by (simp add: signed_divide_int_def millisecond_def) linarith
  qed
  then show ?thesis unfolding Milliseconds_def by (intro sint_of_int64) simp_all
qed

text \<open>A positive lifetime becomes at least one millisecond, and is rounded down otherwise.\<close>

lemma redisTTLMillis_bounds:
  assumes "0 < sint d"
  shows "1 \<le> sint (redisTTLMillis d)" "sint d < (sint (redisTTLMillis d) + 1) * millisecond"
    "(sint (redisTTLMillis d) - 1) * millisecond < sint d"
proof -
  have q: "sint (Milliseconds d) = sint d div millisecond"
    using assms by (simp add: sint_Milliseconds signed_divide_int_def millisecond_def)
  have zero: "Milliseconds d = 0 \<longleftrightarrow> sint d div millisecond = 0"
    using q sint_int64_eq [of "Milliseconds d" 0] by simp
  have "sint (redisTTLMillis d) = (if sint d div millisecond = 0 then 1 else sint d div millisecond)"
    using assms by (simp add: redisTTLMillis_def Let_def zero q)
  then show "1 \<le> sint (redisTTLMillis d)" "sint d < (sint (redisTTLMillis d) + 1) * millisecond"
    "(sint (redisTTLMillis d) - 1) * millisecond < sint d"
    using assms by (auto simp: millisecond_def split: if_splits)
qed

lemma near_bounds:
  assumes "near t (redisTTLMillis d) x" "0 < sint d"
  shows "t + sint d - 2 * millisecond < x" "x < t + sint d + 2 * millisecond"
  using assms(1) redisTTLMillis_bounds [OF assms(2)]
  by (simp_all add: near_def algebra_simps)

lemma redisBytes_VBytes [simp]: "redisBytes (VBytes v) = Inr v"
  by (simp add: redisBytes_def)

lemma redisInt64_VInt [simp]: "redisInt64 (VInt i) = i"
  by (simp add: redisInt64_def)

lemma nil_as_miss_nil [simp]: "nil_as_miss (Sentinel ErrRedisNil) = Sentinel ErrMiss"
  by (simp add: nil_as_miss_def)

text \<open>The two commands of a hit are of acceptable size.\<close>

definition hit_sized :: "string \<Rightarrow> duration \<Rightarrow> bool" where
  "hit_sized k w \<longleftrightarrow> sized (increment_command k 1 w) \<and> sized [ArgString ''PTTL'', ArgString k]"

context redis_commands
begin

text \<open>The operations of a store over the client, on a map of entries.\<close>

lemma Get_result:
  assumes "rs_client rs = client" "inv s" "ok e" "sized (get_command (redis_key rs k))" "Redis_Get rs e k s = (r, s')"
  shows "r = get_result (live (abs s) (tm e) (redis_key rs k)) \<and> inv s' \<and> same_from (tm e) (abs s) (abs s')"
proof -
  obtain x s1 where d: "rcl_Do client e (get_command (redis_key rs k)) s = (x, s1)" by fastforce
  with GET [OF assms(2,3,4) d] assms(1,5) show ?thesis
    by (auto simp: Redis_Get_def bulk_or_nil_def split: option.splits)
qed

lemma Set_result:
  assumes "rs_client rs = client" "inv s" "ok e" "sized (set_command (redis_key rs k) v d)" "int (length v) \<le> max_value"
    and "Redis_Set rs e k v d s = (err, s')"
  shows "\<exists>x. err = None \<and> inv s' \<and> same_from (tm e) ((abs s)(redis_key rs k \<mapsto> (v, x))) (abs s') \<and>
    (case x of None \<Rightarrow> sint d \<le> 0 | Some u \<Rightarrow> 0 < sint d \<and> near (tm e) (redisTTLMillis d) u)"
proof -
  obtain x s1 where d: "rcl_Do client e (set_command (redis_key rs k) v d) s = (x, s1)" by fastforce
  with SET [OF assms(2-5) d] assms(1,6) show ?thesis by (auto simp: Redis_Set_def)
qed

lemma Take_result:
  assumes "rs_client rs = client" "inv s" "ok e" "sized (take_command (redis_key rs k))" "Redis_Take rs e k s = (r, s')"
  shows "r = get_result (live (abs s) (tm e) (redis_key rs k)) \<and> inv s' \<and>
    same_from (tm e) ((abs s)(redis_key rs k := None)) (abs s')"
proof -
  obtain x s1 where d: "rcl_Do client e (take_command (redis_key rs k)) s = (x, s1)" by fastforce
  with EVAL_take [OF assms(2,3,4) d] assms(1,5) show ?thesis
    by (auto simp: Redis_Take_def bulk_or_nil_def split: option.splits)
qed

lemma set_then_get:
  assumes "rs_client rs = client" "inv s" "ok e" "sized (set_command (redis_key rs k) v d)" "int (length v) \<le> max_value"
    and "Redis_Set rs e k v d s = (err, s1)"
    and "ok e'" "sized (get_command (redis_key rs k))" "tm e \<le> tm e'" "Redis_Get rs e' k s1 = (r, s2)"
  shows "err = None \<and> (sint d \<le> 0 \<or> tm e' < tm e + sint d - 2 * millisecond \<longrightarrow> r = Inr v) \<and>
    (0 < sint d \<and> tm e + sint d + 2 * millisecond \<le> tm e' \<longrightarrow> r = miss)"
proof -
  obtain x where x: "err = None" "inv s1" "same_from (tm e) ((abs s)(redis_key rs k \<mapsto> (v, x))) (abs s1)"
    "case x of None \<Rightarrow> sint d \<le> 0 | Some u \<Rightarrow> 0 < sint d \<and> near (tm e) (redisTTLMillis d) u"
    using Set_result [OF assms(1-6)] by blast
  have r: "r = get_result (live (abs s1) (tm e') (redis_key rs k))"
    using Get_result [OF assms(1) x(2) assms(7,8,10)] by simp
  also have "live (abs s1) (tm e') (redis_key rs k) = (if alive (tm e') (v, x) then Some (v, x) else None)"
    using same_from_live [OF x(3) assms(9)] by (simp add: live_upd)
  finally have r: "r = (if alive (tm e') (v, x) then Inr v else miss)" by simp
  show ?thesis
  proof (cases x)
    case None
    with r x(1,4) show ?thesis by (auto simp: alive_def)
  next
    case (Some u)
    with x(4) have "0 < sint d" and u: "near (tm e) (redisTTLMillis d) u" by auto
    with near_bounds [OF u] r x(1) Some show ?thesis by (auto simp: alive_def)
  qed
qed

text \<open>A value is handed out once.\<close>

lemma take_once:
  assumes "rs_client rs = client" "inv s" "ok e" "sized (take_command (redis_key rs k))" "Redis_Take rs e k s = (r, s1)"
    and "ok e'" "tm e \<le> tm e'"
  shows "fst (Redis_Take rs e' k s1) = miss"
    "sized (get_command (redis_key rs k)) \<Longrightarrow> fst (Redis_Get rs e' k s1) = miss"
proof -
  from Take_result [OF assms(1-5)] have 1: "inv s1" "same_from (tm e) ((abs s)(redis_key rs k := None)) (abs s1)"
    by auto
  have dead: "live (abs s1) (tm e') (redis_key rs k) = None"
    using same_from_live [OF 1(2) assms(7), of "redis_key rs k"] by (simp add: live_upd)
  show "fst (Redis_Take rs e' k s1) = miss"
    using Take_result [OF assms(1) 1(1) assms(6,4)] dead by (cases "Redis_Take rs e' k s1") auto
  show "fst (Redis_Get rs e' k s1) = miss" if "sized (get_command (redis_key rs k))"
    using Get_result [OF assms(1) 1(1) assms(6) that] dead by (cases "Redis_Get rs e' k s1") auto
qed

text \<open>One hit of the rate limiter on a counter that is absent or still open.\<close>

lemma hit_step:
  assumes "rs_client rs = client" "inv s" "ok (fst ee)" "ok (snd ee)" "tm (fst ee) \<le> tm (snd ee)"
    and "hit_sized (redis_key rs (limiter_key p k)) w" "0 < sint w"
    and "case live (abs s) (tm (fst ee)) (redis_key rs (limiter_key p k)) of
           None \<Rightarrow> n = 0 | Some (v, x) \<Rightarrow> v = FormatInt n"
    and "0 \<le> sint n" "sint n + 1 < 2 ^ 63" "Hit (redis_cache rs) p ee k lim w s = (r, s')"
  shows "is_hit (limiter_key p k) (n + 1) lim r \<and> inv s' \<and>
    (\<exists>u. near (tm (fst ee)) (redisTTLMillis w) u \<and>
       same_from (tm (snd ee)) ((abs s)(redis_key rs (limiter_key p k) \<mapsto> (FormatInt (n + 1), Some u))) (abs s'))"
proof -
  let ?lk = "limiter_key p k"
  let ?k = "redis_key rs ?lk"
  obtain c s1 where i: "rcl_Do client (fst ee) (increment_command ?k 1 w) s = (c, s1)" by fastforce
  have pos: "0 < sint (redisTTLMillis w)" using redisTTLMillis_bounds(1) [OF assms(7)] by simp
  obtain y where y: "case live (abs s) (tm (fst ee)) ?k of None \<Rightarrow> n = 0 \<and> y = None | Some (v, x) \<Rightarrow> v = FormatInt n \<and> y = x"
    using assms(8) by (cases "live (abs s) (tm (fst ee)) ?k") auto
  obtain u where 1: "c = Inr (VInt (n + 1))" "inv s1" "near (tm (fst ee)) (redisTTLMillis w) u"
    "same_from (tm (fst ee)) ((abs s)(?k \<mapsto> (FormatInt (n + 1), Some u))) (abs s1)"
    using EVAL_increment [OF assms(2,3) _ y _ _ i] assms(6,9,10) pos by (auto simp: hit_sized_def)
  obtain d s2 where t: "rcl_Do client (snd ee) [ArgString ''PTTL'', ArgString ?k] s1 = (d, s2)" by fastforce
  have 2: "inv s2" "same_from (tm (snd ee)) (abs s1) (abs s2)" "\<exists>i. d = Inr (VInt i)"
    using PTTL [OF 1(2) assms(4) _ t] assms(6) by (auto simp: hit_sized_def split: option.splits)
  then obtain i where d: "d = Inr (VInt i)" by blast
  have "\<exists>ttl. miss_as_zero (pttl_result i) = Inr ttl"
    by (simp add: pttl_result_def miss_as_zero_def)
  then obtain ttl where ttl: "miss_as_zero (pttl_result i) = Inr ttl" by blast
  have r: "s' = s2" "r = Inr \<lparr>rl_Key = ?lk, rl_Count = n + 1, rl_Limit = lim, rl_TTL = ttl\<rparr>"
    using assms(1,11) i t 1(1) d ttl
    by (auto simp: Hit_def Let_def redis_cache_def Redis_Increment_def Redis_TTL_def)
  have "same_from (tm (snd ee)) ((abs s)(?k \<mapsto> (FormatInt (n + 1), Some u))) (abs s')"
    using same_from_trans [OF 1(4) 2(2) assms(5)] r by simp
  with r 1 2 show ?thesis by (auto simp: is_hit_def)
qed

text \<open>
  A run of hits counts one by one, when each comes two milliseconds before the window its
  predecessor opened closes.
\<close>

lemma hits_count:
  assumes "rs_client rs = client" "inv s" "\<forall>(e1, e2) \<in> set es. ok e1 \<and> ok e2" "paced tm w' h u es"
    and "sint w' = sint w - 2 * millisecond" "0 < sint w" "hit_sized (redis_key rs (limiter_key p k)) w"
    and "\<And>t. u \<le> t \<Longrightarrow> t < h + sint w' \<Longrightarrow>
      case live (abs s) t (redis_key rs (limiter_key p k)) of None \<Rightarrow> n = 0 | Some (v, x) \<Rightarrow> v = FormatInt n"
    and "0 \<le> sint n" "sint n + int (length es) < 2 ^ 63" "Hits (redis_cache rs) p es k lim w s = (res, s')" "i < length es"
  shows "is_hit (limiter_key p k) (n + 1 + of_nat i) lim (res ! i)"
  using assms
proof (induction es arbitrary: s h u n res i)
  case (Cons ee es)
  let ?k = "redis_key rs (limiter_key p k)"
  obtain e1 e2 where ee: "ee = (e1, e2)" by (cases ee)
  obtain r s1 res1 where h1: "Hit (redis_cache rs) p ee k lim w s = (r, s1)"
    and hs: "Hits (redis_cache rs) p es k lim w s1 = (res1, s')" and res: "res = r # res1"
    using Cons.prems(11) by (auto split: prod.splits)
  have pc: "u \<le> tm e1" "tm e1 < h + sint w'" "tm e1 \<le> tm e2" "paced tm w' (tm e1) (tm e2) es"
    using Cons.prems(4) by (simp_all add: ee)
  have small: "sint n + 1 < 2 ^ 63" using Cons.prems(10) by simp
  obtain x where st: "is_hit (limiter_key p k) (n + 1) lim r" "inv s1" "near (tm e1) (redisTTLMillis w) x"
    "same_from (tm e2) ((abs s)(?k \<mapsto> (FormatInt (n + 1), Some x))) (abs s1)"
    using hit_step [OF Cons.prems(1,2) _ _ _ Cons.prems(7,6) _ Cons.prems(9) small h1]
      Cons.prems(3) Cons.prems(8) [OF pc(1,2)] pc(3) by (auto simp: ee)
  have next1: "sint (n + 1) = sint n + 1"
    using sint_add_int64 [of n 1] Cons.prems(9) small by simp
  show ?case
  proof (cases i)
    case 0
    with st res show ?thesis by simp
  next
    case (Suc j)
    have "is_hit (limiter_key p k) (n + 1 + 1 + of_nat j) lim (res1 ! j)"
    proof (rule Cons.IH [OF Cons.prems(1) st(2) _ pc(4) Cons.prems(5,6,7) _ _ _ hs])
      show "\<forall>(e1, e2) \<in> set es. ok e1 \<and> ok e2" using Cons.prems(3) by auto
      show "case live (abs s1) t ?k of None \<Rightarrow> n + 1 = 0 | Some (v, x) \<Rightarrow> v = FormatInt (n + 1)"
        if "tm e2 \<le> t" "t < tm e1 + sint w'" for t
        using same_from_live [OF st(4) that(1), of ?k] that(2) near_bounds(1) [OF st(3) Cons.prems(6)] Cons.prems(5)
        by (simp add: live_upd alive_def)
      show "0 \<le> sint (n + 1)" "sint (n + 1) + int (length es) < 2 ^ 63"
        using next1 Cons.prems(9,10) by simp_all
      show "j < length es" using Suc Cons.prems(12) by simp
    qed
    with res Suc show ?thesis by (simp add: algebra_simps)
  qed
qed simp

end

section \<open>A server behind the wire\<close>

text \<open>
  A small server of the commands above, with expiry instants in milliseconds, and its entries
  seen as those of a store. A request it does not know is an error.
\<close>

type_synonym kv = "string \<rightharpoonup> bytes \<times> int option"

definition kv_entry :: "bytes \<times> int option \<Rightarrow> entry" where
  "kv_entry e = (fst e, map_option (\<lambda>ms. ms * millisecond) (snd e))"

definition kv_abs :: "kv \<Rightarrow> string \<rightharpoonup> entry" where
  "kv_abs m k = map_option kv_entry (m k)"

definition kv_live :: "time \<Rightarrow> kv \<Rightarrow> kv" where
  "kv_live t m k =
     (case m k of None \<Rightarrow> None
      | Some (v, x) \<Rightarrow> (case x of None \<Rightarrow> Some (v, x) | Some ms \<Rightarrow> if t div millisecond < ms then Some (v, x) else None))"

definition kv_bulk :: "(bytes \<times> int option) option \<Rightarrow> resp" where
  "kv_bulk e = (case e of None \<Rightarrow> RNullBulk | Some (v, x) \<Rightarrow> RBulk v)"

definition kv_at :: "time \<Rightarrow> int64 \<Rightarrow> int" where
  "kv_at t p = t div millisecond + sint p"

definition kv_set :: "bytes list \<Rightarrow> time \<Rightarrow> string \<Rightarrow> bytes \<Rightarrow> kv \<Rightarrow> resp \<times> kv" where
  "kv_set opts t k v m =
     (if max_value < int (length v) then (RError ''ERR string exceeds maximum allowed size'', m)
      else case opts of
        [] \<Rightarrow> (RSimple ''OK'', m(k \<mapsto> (v, None)))
      | [px, n] \<Rightarrow>
          (case ParseInt n 64 of
             (p, None) \<Rightarrow>
               if px = ''PX'' \<and> 0 < sint p then (RSimple ''OK'', m(k \<mapsto> (v, Some (kv_at t p))))
               else (RError ''ERR syntax error'', m)
           | (p, Some _) \<Rightarrow> (RError ''ERR value is not an integer or out of range'', m))
      | _ \<Rightarrow> (RError ''ERR syntax error'', m))"

definition kv_pttl :: "time \<Rightarrow> (bytes \<times> int option) option \<Rightarrow> int64" where
  "kv_pttl t e =
     (case e of None \<Rightarrow> - 2 | Some (v, None) \<Rightarrow> - 1
      | Some (v, Some ms) \<Rightarrow> word_of_int (min (2 ^ 63 - 1) (ms - t div millisecond)))"

definition kv_increment :: "time \<Rightarrow> string \<Rightarrow> bytes \<Rightarrow> bytes \<Rightarrow> kv \<Rightarrow> resp \<times> kv" where
  "kv_increment t k d p m =
     (let (v, x) = (case kv_live t m k of None \<Rightarrow> (''0'', None) | Some e \<Rightarrow> e) in
      case (ParseInt v 64, ParseInt d 64, ParseInt p 64) of
        ((n, None), (delta, None), (ms, None)) \<Rightarrow>
          if v \<noteq> FormatInt n \<or> sint (n + delta) \<noteq> sint n + sint delta
          then (RError ''ERR value is not an integer or out of range'', m)
          else (RInteger (n + delta),
                m(k \<mapsto> (FormatInt (n + delta), if 0 < sint ms then Some (kv_at t ms) else x)))
      | _ \<Rightarrow> (RError ''ERR value is not an integer or out of range'', m))"

definition kv_eval :: "time \<Rightarrow> bytes \<Rightarrow> bytes \<Rightarrow> bytes list \<Rightarrow> kv \<Rightarrow> resp \<times> kv" where
  "kv_eval t scr n as m =
     (if n \<noteq> ''1'' then (RError ''ERR unknown script'', m)
      else case as of
        [k] \<Rightarrow> if scr = takeScript then (kv_bulk (kv_live t m k), m(k := None))
               else (RError ''ERR unknown script'', m)
      | [k, d, p] \<Rightarrow> if scr = incrementScript then kv_increment t k d p m
                     else (RError ''ERR unknown script'', m)
      | _ \<Rightarrow> (RError ''ERR unknown script'', m))"

definition kv_run :: "time \<Rightarrow> bytes list \<Rightarrow> kv \<Rightarrow> resp \<times> kv" where
  "kv_run t as m =
     (case as of
        [c] \<Rightarrow> (if c = ''PING'' then RSimple ''PONG'' else RError ''ERR unknown command'', m)
      | [c, k] \<Rightarrow>
          if c = ''GET'' then (kv_bulk (kv_live t m k), m)
          else if c = ''EXISTS'' then (RInteger (if kv_live t m k = None then 0 else 1), m)
          else if c = ''DEL'' then (RInteger (if kv_live t m k = None then 0 else 1), m(k := None))
          else if c = ''PTTL'' then (RInteger (kv_pttl t (kv_live t m k)), m)
          else (RError ''ERR unknown command'', m)
      | c # k # v # opts \<Rightarrow>
          if c = ''SET'' then kv_set opts t k v m
          else if c = ''EVAL'' then kv_eval t k v opts m
          else (RError ''ERR unknown command'', m)
      | _ \<Rightarrow> (RError ''ERR unknown command'', m))"

definition kv_inv :: "kv \<Rightarrow> bool" where
  "kv_inv m \<longleftrightarrow> (\<forall>k v x. m k = Some (v, x) \<longrightarrow> int (length v) \<le> max_value)"

lemma kv_inv_upd: "kv_inv m \<Longrightarrow> int (length v) \<le> max_value \<Longrightarrow> kv_inv (m(k \<mapsto> (v, x)))"
  by (auto simp: kv_inv_def)

lemma kv_inv_del: "kv_inv m \<Longrightarrow> kv_inv (m(k := None))"
  by (auto simp: kv_inv_def)

lemma length_nat_digits: "n < 10 ^ Suc k \<Longrightarrow> length (nat_digits n) \<le> Suc k"
proof (induction k arbitrary: n)
  case 0
  then show ?case by (simp add: nat_digits.simps)
next
  case (Suc k)
  have "n div 10 < 10 ^ Suc k" using Suc.prems by (simp add: div_less_iff_less_mult)
  from Suc.IH [OF this] show ?case by (subst nat_digits.simps) simp
qed

lemma length_FormatInt: "int (length (FormatInt w)) \<le> max_value"
proof -
  have "nat \<bar>sint w\<bar> < 10 ^ Suc 18"
    using sint_int64_bounds [of w] by (simp add: nat_less_iff)
  then have "length (nat_digits (nat \<bar>sint w\<bar>)) \<le> 19" using length_nat_digits [of _ 18] by simp
  then have "length (FormatInt w) \<le> 20"
    by (auto simp: FormatInt_def format_int_def split: if_splits)
  then show ?thesis by (simp add: max_value_def)
qed

lemma kv_increment_cases:
  obtains e where "kv_increment t k d p m = (RError e, m)" "LF \<notin> set e"
    | n x where "kv_increment t k d p m = (RInteger n, m(k \<mapsto> (FormatInt n, x)))"
proof -
  let ?bad = "''ERR value is not an integer or out of range''"
  obtain v x where vx: "(case kv_live t m k of None \<Rightarrow> (''0'', None) | Some e \<Rightarrow> e) = (v, x)" by fastforce
  obtain n e1 where 1: "ParseInt v 64 = (n, e1)" by fastforce
  obtain delta e2 where 2: "ParseInt d 64 = (delta, e2)" by fastforce
  obtain ms e3 where 3: "ParseInt p 64 = (ms, e3)" by fastforce
  have "kv_increment t k d p m = (RError ?bad, m) \<or>
    (\<exists>n x. kv_increment t k d p m = (RInteger n, m(k \<mapsto> (FormatInt n, x))))"
    unfolding kv_increment_def vx Let_def prod.case 1 2 3
    by (cases e1; cases e2; cases e3) (simp_all, blast)
  then show thesis using that(1) [of ?bad] that(2) by auto
qed

lemma kv_increment_inv:
  "kv_inv m \<Longrightarrow> kv_inv (snd (kv_increment t k d p m)) \<and> fits (fst (kv_increment t k d p m))"
  by (rule kv_increment_cases [of t k d p m]) (simp_all add: kv_inv_upd length_FormatInt)

lemma kv_run_inv:
  assumes "kv_inv m"
  shows "kv_inv (snd (kv_run t as m)) \<and> fits (fst (kv_run t as m))"
proof -
  have bulk: "fits (kv_bulk (kv_live t m k))" for k
    using assms by (auto simp: kv_bulk_def kv_live_def kv_inv_def max_value_def max_alloc_def split: option.splits)
      fastforce+
  have set: "kv_inv (snd (kv_set opts t k v m)) \<and> fits (fst (kv_set opts t k v m))" for opts k v
    using assms by (auto simp: kv_set_def kv_inv_upd split: list.split prod.split option.split)
  have none: "fits (kv_bulk None)" by (simp add: kv_bulk_def)
  have eval: "kv_inv (snd (kv_eval t scr n as m)) \<and> fits (fst (kv_eval t scr n as m))" for scr n as
    using assms bulk kv_increment_inv [OF assms] by (simp add: kv_eval_def kv_inv_del split: list.split)
  show ?thesis
    unfolding kv_run_def using assms bulk none set eval by (simp add: kv_inv_del split: list.split)
qed

lemma kv_live_abs: "live (kv_abs m) t k = map_option kv_entry (kv_live t m k)"
proof -
  have "t < ms * millisecond \<longleftrightarrow> t div millisecond < ms" for ms
    by (simp add: millisecond_def) linarith
  then show ?thesis
    by (auto simp: live_def kv_abs_def kv_live_def kv_entry_def alive_def split: option.splits)
qed

lemma near_kv_at: "near t p (kv_at t p * millisecond)"
  by (simp add: near_def kv_at_def millisecond_def algebra_simps) linarith

lemma kv_abs_upd: "kv_abs (m(k \<mapsto> (v, x))) = (kv_abs m)(k \<mapsto> (v, map_option (\<lambda>ms. ms * millisecond) x))"
  by (auto simp: kv_abs_def kv_entry_def)

lemma kv_abs_del: "kv_abs (m(k := None)) = (kv_abs m)(k := None)"
  by (auto simp: kv_abs_def)

lemma FormatInt_digit: "FormatInt 1 = ''1''" "FormatInt 0 = ''0''"
proof -
  have "digit_char 1 = CHR ''1''" "digit_char 0 = CHR ''0''" by code_simp+
  then show "FormatInt 1 = ''1''" "FormatInt 0 = ''0''"
    by (simp_all add: FormatInt_def format_int_def nat_digits.simps)
qed

definition wire_ok :: "call_env \<Rightarrow> bool" where
  "wire_ok ce \<longleftrightarrow> ce_ctx ce = None \<and> quiet (ce_command ce)"

definition wire_inv :: "kv link \<Rightarrow> bool" where
  "wire_inv l \<longleftrightarrow> lk_conn l = Some [] \<and> kv_inv (lk_srv l)"

definition wire_time :: "call_env \<Rightarrow> time" where
  "wire_time ce = ex_time (ce_command ce)"

definition kv_client :: "redisConn \<Rightarrow> (call_env, kv link) RedisClient" where
  "kv_client cn = conn_client (wired kv_run) cn None"

lemma kv_do:
  assumes "wire_inv l" "wire_ok ce" "sized args" "args \<noteq> []"
    and "kv_run (wire_time ce) (map redisArgBytes args) (lk_srv l) = (reply, m)"
    and "rcl_Do (kv_client cn) ce args l = (r, l')"
  shows "r = meaning True reply \<and> lk_srv l' = m \<and> wire_inv l'"
proof -
  have "kv_inv m \<and> fits reply"
    using kv_run_inv [of "lk_srv l" "wire_time ce" "map redisArgBytes args"] assms(1,5) by (simp add: wire_inv_def)
  moreover from this have "redis_Do (wired kv_run) cn ce args l = (Return (meaning True reply), l\<lparr>lk_srv := m\<rparr>)"
    using assms by (intro redis_Do_wired) (auto simp: wire_inv_def wire_ok_def wire_time_def)
  ultimately show ?thesis
    using assms(1,6) by (auto simp: kv_client_def conn_client_def wire_inv_def)
qed

lemma bulk_or_nil_kv: "meaning True (kv_bulk e) = bulk_or_nil (map_option kv_entry e)"
  by (cases e) (auto simp: kv_bulk_def bulk_or_nil_def nil_value_def kv_entry_def)

lemma kv_run_set:
  "int (length v) \<le> max_value \<Longrightarrow>
   kv_run t (map redisArgBytes (set_command k v d)) m =
     (RSimple ''OK'', m(k \<mapsto> (v, if 0 < sint d then Some (kv_at t (redisTTLMillis d)) else None)))"
  using redisTTLMillis_bounds(1) [of d]
  by (auto simp: set_command_def kv_run_def kv_set_def)

lemma kv_run_eval:
  "kv_run t (map redisArgBytes (take_command k)) m = (kv_bulk (kv_live t m k), m(k := None))"
  "kv_run t (map redisArgBytes (increment_command k d ttl)) m =
     kv_increment t k (FormatInt d) (FormatInt (redisTTLMillis ttl)) m"
  by (simp_all add: take_command_def increment_command_def kv_run_def kv_eval_def FormatInt_digit)

lemma kv_increment_ok:
  assumes "case kv_live t m k of None \<Rightarrow> n = 0 \<and> y = None | Some (v, x) \<Rightarrow> v = FormatInt n \<and> y = x"
    and "- (2 ^ 63) \<le> sint n + sint delta" "sint n + sint delta < 2 ^ 63"
  shows "kv_increment t k (FormatInt delta) (FormatInt p) m =
    (RInteger (n + delta), m(k \<mapsto> (FormatInt (n + delta), if 0 < sint p then Some (kv_at t p) else y)))"
proof -
  have e: "(case kv_live t m k of None \<Rightarrow> (''0'', None) | Some e \<Rightarrow> e) = (FormatInt n, y)"
    using assms(1) by (auto simp: FormatInt_digit split: option.splits)
  have "sint (n + delta) = sint n + sint delta" by (rule sint_add_int64 [OF assms(2,3)])
  then show ?thesis unfolding kv_increment_def e by simp
qed

interpretation kv_wire: redis_commands "kv_client cn" "\<lambda>l. kv_abs (lk_srv l)" wire_inv wire_time wire_ok
  for cn
proof
  fix s e k r s'
  assume a: "wire_inv s" "wire_ok e" "sized (get_command k)" "rcl_Do (kv_client cn) e (get_command k) s = (r, s')"
  have "kv_run (wire_time e) (map redisArgBytes (get_command k)) (lk_srv s)
      = (kv_bulk (kv_live (wire_time e) (lk_srv s) k), lk_srv s)"
    by (simp add: get_command_def kv_run_def)
  from kv_do [OF a(1-3) _ this a(4)] show "r = bulk_or_nil (live (kv_abs (lk_srv s)) (wire_time e) k) \<and> wire_inv s' \<and>
      same_from (wire_time e) (kv_abs (lk_srv s)) (kv_abs (lk_srv s'))"
    by (auto simp: get_command_def bulk_or_nil_kv kv_live_abs)
next
  fix s e k v d r s'
  assume a: "wire_inv s" "wire_ok e" "sized (set_command k v d)" "int (length v) \<le> max_value"
    "rcl_Do (kv_client cn) e (set_command k v d) s = (r, s')"
  let ?x = "if 0 < sint d then Some (kv_at (wire_time e) (redisTTLMillis d) * millisecond) else None"
  from kv_do [OF a(1-3) _ kv_run_set [OF a(4)] a(5)]
  have "r = Inr (VString ''OK'')" "wire_inv s'" "kv_abs (lk_srv s') = (kv_abs (lk_srv s))(k \<mapsto> (v, ?x))"
    by (simp_all add: set_command_def kv_abs_upd)
  then show "\<exists>x. r = Inr (VString ''OK'') \<and> wire_inv s' \<and>
      same_from (wire_time e) ((kv_abs (lk_srv s))(k \<mapsto> (v, x))) (kv_abs (lk_srv s')) \<and>
      (case x of None \<Rightarrow> sint d \<le> 0 | Some u \<Rightarrow> 0 < sint d \<and> near (wire_time e) (redisTTLMillis d) u)"
    by (intro exI [of _ ?x]) (simp add: near_kv_at)
next
  fix s e k r s'
  assume a: "wire_inv s" "wire_ok e" "sized [ArgString ''EXISTS'', ArgString k]"
    "rcl_Do (kv_client cn) e [ArgString ''EXISTS'', ArgString k] s = (r, s')"
  have "kv_run (wire_time e) (map redisArgBytes [ArgString ''EXISTS'', ArgString k]) (lk_srv s)
      = (RInteger (if kv_live (wire_time e) (lk_srv s) k = None then 0 else 1), lk_srv s)"
    by (simp add: kv_run_def)
  from kv_do [OF a(1-3) _ this a(4)] show "r = Inr (VInt (if live (kv_abs (lk_srv s)) (wire_time e) k = None then 0 else 1)) \<and>
      wire_inv s' \<and> same_from (wire_time e) (kv_abs (lk_srv s)) (kv_abs (lk_srv s'))"
    by (simp add: kv_live_abs)
next
  fix s e k r s'
  assume a: "wire_inv s" "wire_ok e" "sized [ArgString ''DEL'', ArgString k]"
    "rcl_Do (kv_client cn) e [ArgString ''DEL'', ArgString k] s = (r, s')"
  have "kv_run (wire_time e) (map redisArgBytes [ArgString ''DEL'', ArgString k]) (lk_srv s)
      = (RInteger (if kv_live (wire_time e) (lk_srv s) k = None then 0 else 1), (lk_srv s)(k := None))"
    by (simp add: kv_run_def)
  from kv_do [OF a(1-3) _ this a(4)] show "(\<exists>i. r = Inr (VInt i)) \<and> wire_inv s' \<and>
      same_from (wire_time e) ((kv_abs (lk_srv s))(k := None)) (kv_abs (lk_srv s'))"
    by (simp add: kv_abs_del)
next
  fix s e k r s'
  assume a: "wire_inv s" "wire_ok e" "sized [ArgString ''PTTL'', ArgString k]"
    "rcl_Do (kv_client cn) e [ArgString ''PTTL'', ArgString k] s = (r, s')"
  let ?en = "kv_live (wire_time e) (lk_srv s) k"
  have "kv_run (wire_time e) (map redisArgBytes [ArgString ''PTTL'', ArgString k]) (lk_srv s)
      = (RInteger (kv_pttl (wire_time e) ?en), lk_srv s)"
    by (simp add: kv_run_def)
  from kv_do [OF a(1-3) _ this a(4)] have r: "r = Inr (VInt (kv_pttl (wire_time e) ?en))" "wire_inv s'" "lk_srv s' = lk_srv s"
    by simp_all
  have pos: "0 \<le> sint (kv_pttl (wire_time e) (Some (v, Some ms)))" if "wire_time e div millisecond < ms" for v ms
    using that unfolding kv_pttl_def by (simp add: sint_of_int64)
  have live: "wire_time e div millisecond < ms" if "?en = Some (v, Some ms)" for v ms
    using that by (auto simp: kv_live_def split: option.splits if_splits)
  show "(case live (kv_abs (lk_srv s)) (wire_time e) k of
         None \<Rightarrow> r = Inr (VInt (- 2)) | Some (v, None) \<Rightarrow> r = Inr (VInt (- 1))
       | Some (v, Some u) \<Rightarrow> \<exists>i. r = Inr (VInt i) \<and> 0 \<le> sint i) \<and>
      wire_inv s' \<and> same_from (wire_time e) (kv_abs (lk_srv s)) (kv_abs (lk_srv s'))"
  proof (cases ?en)
    case None
    with r show ?thesis by (simp add: kv_live_abs kv_pttl_def)
  next
    case (Some en)
    obtain v x where en: "en = (v, x)" by fastforce
    show ?thesis
      using r Some en pos live by (cases x) (simp_all add: kv_live_abs kv_entry_def, simp add: kv_pttl_def)
  qed
next
  fix s e k r s'
  assume a: "wire_inv s" "wire_ok e" "sized (take_command k)" "rcl_Do (kv_client cn) e (take_command k) s = (r, s')"
  from kv_do [OF a(1-3) _ kv_run_eval(1) a(4)] show "r = bulk_or_nil (live (kv_abs (lk_srv s)) (wire_time e) k) \<and> wire_inv s' \<and>
      same_from (wire_time e) ((kv_abs (lk_srv s))(k := None)) (kv_abs (lk_srv s'))"
    by (simp add: take_command_def bulk_or_nil_kv kv_live_abs kv_abs_del)
next
  fix s e k delta d n y r s'
  assume a: "wire_inv s" "wire_ok e" "sized (increment_command k delta d)"
    "case live (kv_abs (lk_srv s)) (wire_time e) k of None \<Rightarrow> n = 0 \<and> y = None | Some (v, x) \<Rightarrow> v = FormatInt n \<and> y = x"
    "- (2 ^ 63) \<le> sint n + sint delta" "sint n + sint delta < 2 ^ 63"
    "rcl_Do (kv_client cn) e (increment_command k delta d) s = (r, s')"
  let ?t = "wire_time e" and ?p = "redisTTLMillis d"
  obtain z where z: "case kv_live ?t (lk_srv s) k of None \<Rightarrow> n = 0 \<and> z = None | Some (v, x) \<Rightarrow> v = FormatInt n \<and> z = x"
    "y = map_option (\<lambda>ms. ms * millisecond) z"
    using a(4) by (cases "kv_live ?t (lk_srv s) k") (auto simp: kv_live_abs kv_entry_def)
  have "kv_run ?t (map redisArgBytes (increment_command k delta d)) (lk_srv s) =
    (RInteger (n + delta), (lk_srv s)(k \<mapsto> (FormatInt (n + delta), if 0 < sint ?p then Some (kv_at ?t ?p) else z)))"
    using kv_increment_ok [OF z(1) a(5,6)] by (simp add: kv_run_eval)
  from kv_do [OF a(1-3) _ this a(7)] z(2)
  show "\<exists>x. r = Inr (VInt (n + delta)) \<and> wire_inv s' \<and>
      same_from ?t ((kv_abs (lk_srv s))(k \<mapsto> (FormatInt (n + delta), x))) (kv_abs (lk_srv s')) \<and>
      (if 0 < sint ?p then \<exists>u. x = Some u \<and> near ?t ?p u else x = y)"
    by (intro exI [of _ "if 0 < sint ?p then Some (kv_at ?t ?p * millisecond) else y"])
      (auto simp: increment_command_def kv_abs_upd near_kv_at)
qed

interpretation kv_server: command_server kv_run kv_inv
  by unfold_locales (rule kv_run_inv)

section \<open>Properties\<close>

text \<open>
  C12: Over a server with the documented commands, a value set in the Redis store is read back
  unchanged until two milliseconds before its lifetime ends, and is a miss from two
  milliseconds after the end on: the lifetime is rounded to whole milliseconds, and a shorter
  one counts as one millisecond. A lifetime of zero or less never ends.
\<close>

theorem redis_set_then_get:
  assumes "redis_commands client view good tm ok" "rs_client rs = client" "good s" "ok e" "ok e'" "tm e \<le> tm e'"
    and "sized (set_command (redis_key rs k) v d)" "sized (get_command (redis_key rs k))" "int (length v) \<le> max_value"
    and "Redis_Set rs e k v d s = (err, s1)" "Redis_Get rs e' k s1 = (r, s2)"
  shows "err = None \<and> (sint d \<le> 0 \<or> tm e' < tm e + sint d - 2 * millisecond \<longrightarrow> r = Inr v) \<and>
    (0 < sint d \<and> tm e + sint d + 2 * millisecond \<le> tm e' \<longrightarrow> r = miss)"
  by (rule redis_commands.set_then_get [OF assms(1) assms(2,3,4) assms(7) assms(9) assms(10) assms(5) assms(8) assms(6) assms(11)])

text \<open>The small server behind a connection without faults.\<close>

definition kv_store :: "string \<Rightarrow> (call_env, kv link) Redis" where
  "kv_store prefix = NewRedis (kv_client local_conn) prefix"

definition kv_empty :: "kv link" where
  "kv_empty = \<lparr>lk_conn = Some [], lk_srv = Map.empty\<rparr>"

lemma kv_store_simps [simp]:
  "rs_client (kv_store p) = kv_client local_conn"
  "rs_prefix (kv_store p) = p" "wire_ok (calm_call t)" "wire_time (calm_call t) = t" "wire_inv kv_empty"
  by (simp_all add: kv_store_def NewRedis_def calm_call_def calm_def wire_ok_def wire_time_def quiet_def
      wire_inv_def kv_empty_def kv_inv_def)

lemma length_FormatInt_le: "int (length (FormatInt w)) + 2 \<le> max_alloc"
  using length_FormatInt [of w] by (simp add: max_value_def max_alloc_def)

lemma kv_key: "redis_key (kv_store ''app'') ''k'' = ''app:k''"
  by (simp add: redis_key_def Key_def TrimRight_def Let_def)

theorem redis_set_then_get_witness:
  "fst (Redis_Get (kv_store ''app'') (calm_call (3 * millisecond)) ''k''
     (snd (Redis_Set (kv_store ''app'') (calm_call 0) ''k'' ''v'' (word_of_int (7 * millisecond)) kv_empty))) = Inr ''v''"
proof -
  let ?d = "word_of_int (7 * millisecond) :: duration"
  obtain err s1 where s: "Redis_Set (kv_store ''app'') (calm_call 0) ''k'' ''v'' ?d kv_empty = (err, s1)" by fastforce
  obtain r s2 where g: "Redis_Get (kv_store ''app'') (calm_call (3 * millisecond)) ''k'' s1 = (r, s2)" by fastforce
  have d: "sint ?d = 7 * millisecond" by (rule sint_of_int64) (simp_all add: millisecond_def)
  have "err = None \<and> (sint ?d \<le> 0 \<or> 3 * millisecond < 0 + sint ?d - 2 * millisecond \<longrightarrow> r = Inr ''v'') \<and>
    (0 < sint ?d \<and> 0 + sint ?d + 2 * millisecond \<le> 3 * millisecond \<longrightarrow> r = miss)"
    using redis_set_then_get [OF kv_wire.redis_commands_axioms, of "kv_store ''app''" _ kv_empty "calm_call 0" "calm_call (3 * millisecond)" "''k''" "''v''" ?d err s1 r s2]
      s g length_FormatInt_le by (simp add: kv_key sized_def set_command_def get_command_def max_alloc_def max_value_def millisecond_def)
  then have "r = Inr ''v''" by (simp add: d millisecond_def)
  with s g show ?thesis by simp
qed

text \<open>
  Over a server with the documented commands, \<open>Take\<close> of the Redis store hands a value out
  once: a later \<open>Take\<close> or \<open>Get\<close> of the key is a miss until something is stored again. (The
  script runs in one step at the server.)
\<close>

theorem redis_take_is_final:
  assumes "redis_commands client view good tm ok" "rs_client rs = client" "good s" "ok e" "ok e'" "tm e \<le> tm e'"
    and "sized (take_command (redis_key rs k))" "sized (get_command (redis_key rs k))" "Redis_Take rs e k s = (r, s1)"
  shows "fst (Redis_Take rs e' k s1) = miss \<and> fst (Redis_Get rs e' k s1) = miss"
  using redis_commands.take_once [OF assms(1) assms(2,3,4) assms(7) assms(9) assms(5,6)] assms(8) by simp

theorem redis_take_is_final_witness:
  "fst (Redis_Take (kv_store ''app'') (calm_call 2) ''k'' (snd (Redis_Take (kv_store ''app'') (calm_call 1) ''k'' kv_empty))) = miss"
proof -
  obtain r s1 where t: "Redis_Take (kv_store ''app'') (calm_call 1) ''k'' kv_empty = (r, s1)" by fastforce
  have "length takeScript \<le> 200" by code_simp
  then have "sized (take_command ''app:k'')"
    by (simp add: sized_def take_command_def max_alloc_def FormatInt_digit)
  with redis_take_is_final [OF kv_wire.redis_commands_axioms, of "kv_store ''app''" _ kv_empty "calm_call 1" "calm_call 2" "''k''" r s1] t
  show ?thesis by (simp add: kv_key sized_def get_command_def max_alloc_def)
qed

text \<open>
  The rate limiter counts on the Redis store as it does in memory: from an absent key the
  hits of a run count 1, 2, 3, ... as long as each comes two milliseconds before the window its
  predecessor opened closes, and the limit is reported as exceeded exactly from the hit whose
  number reaches a positive limit.
\<close>

theorem redis_rate_limit_counts:
  assumes "redis_commands client view good tm ok" "rs_client rs = client" "good s"
    and "\<forall>(e1, e2) \<in> set es. ok e1 \<and> ok e2" "paced tm w' h u es" "sint w' = sint w - 2 * millisecond" "0 < sint w"
    and "hit_sized (redis_key rs (limiter_key p k)) w"
    and "\<And>t. u \<le> t \<Longrightarrow> live (view s) t (redis_key rs (limiter_key p k)) = None"
    and "int (length es) < 2 ^ 62" "Hits (redis_cache rs) p es k lim w s = (results, s')" "i < length es"
  shows "\<exists>res. results ! i = Inr res \<and> rl_Count res = of_nat (Suc i) \<and>
    (Exceeded res \<longleftrightarrow> 0 < sint lim \<and> sint lim \<le> int (Suc i))"
proof -
  have "is_hit (limiter_key p k) (0 + 1 + of_nat i) lim (results ! i)"
    by (rule redis_commands.hits_count [OF assms(1) assms(2-8) _ _ _ assms(11,12)]) (use assms(9,10) in simp_all)
  then obtain ttl where r: "results ! i = Inr \<lparr>rl_Key = limiter_key p k, rl_Count = of_nat (Suc i), rl_Limit = lim, rl_TTL = ttl\<rparr>"
    by (auto simp: is_hit_def)
  have "sint (of_nat (Suc i) :: int64) = int (Suc i)"
    using sint_of_int64 [of "int (Suc i)"] assms(10,12) by simp
  with r show ?thesis by (simp add: Exceeded_def)
qed

theorem redis_rate_limit_counts_witness:
  "\<exists>res. fst (Hits (redis_cache (kv_store ''app'')) ''rl'' [(calm_call 1, calm_call 1), (calm_call 2, calm_call 2)] ''k'' 2
       (word_of_int second) kv_empty) ! 1 = Inr res \<and> rl_Count res = of_nat 2 \<and> Exceeded res"
proof -
  let ?w = "word_of_int second :: duration"
  let ?es = "[(calm_call 1, calm_call 1), (calm_call 2, calm_call 2)]"
  obtain rs s' where h: "Hits (redis_cache (kv_store ''app'')) ''rl'' ?es ''k'' 2 ?w kv_empty = (rs, s')" by fastforce
  have w: "sint ?w = second" by (rule sint_of_int64; simp add: second_def)+
  have "\<exists>v :: duration. sint v = second - 2 * millisecond"
    by (rule exI, rule sint_of_int64) (simp_all add: second_def millisecond_def)
  then obtain v :: duration where v: "sint v = second - 2 * millisecond" by blast
  have "length incrementScript \<le> 200" by code_simp
  then have sz: "hit_sized k ?w" if "length k \<le> 100" for k
    using that length_FormatInt_le
    by (simp add: hit_sized_def sized_def increment_command_def max_alloc_def FormatInt_digit)
  have k: "redis_key (kv_store ''app'') (limiter_key ''rl'' ''k'') = ''app:rl:k''"
    by (simp add: redis_key_def limiter_key_def Key_def TrimRight_def Let_def TrimSpace_graphic graphic_def)
  have sec: "0 < second" "2 * millisecond + 5 < second" by (simp_all add: second_def millisecond_def)
  have "\<exists>res. rs ! 1 = Inr res \<and> rl_Count res = of_nat (Suc 1) \<and>
    (Exceeded res \<longleftrightarrow> 0 < sint (2 :: int64) \<and> sint (2 :: int64) \<le> int (Suc 1))"
    by (rule redis_rate_limit_counts [OF kv_wire.redis_commands_axioms _ _ _ _ _ _ _ _ _ h, where w' = v and h = 1 and u = 1])
      (use sec in \<open>simp_all add: w v k sz live_def kv_abs_def kv_empty_def wire_inv_def kv_inv_def\<close>)
  with h show ?thesis by simp
qed

end
