(* ===== verification/Cache_Memory_Concurrent.thy ===== *)
theory Cache_Memory_Concurrent
  imports Cache_Memory
begin

text \<open>
  Concurrent use of \<open>cache.Memory\<close>. \<open>Take\<close>, \<open>Increment\<close> and \<open>Delete\<close> hold the lock from
  start to end, so each is one step. \<open>Get\<close> and \<open>TTL\<close> read the item under the read lock,
  release it, compare the item with the clock, and take the write lock only to drop an
  expired item: three steps, between which other goroutines move. \<open>Set\<close> computes the
  item before it locks: two steps. Goroutines are numbered; \<open>cs_log\<close> is the history of
  completed operations, newest first.
\<close>

section \<open>Steps\<close>

datatype reader = ByGet | ByTTL

datatype pc =
    Idle
  | Read reader string "memoryItem option"
  | Dropping reader string
  | Setting string memoryItem

datatype event =
    Stored nat string
  | Taken nat string "gerr + bytes"
  | Counted nat string int64 duration "gerr + int64"
  | Deleted nat string
  | Got nat string "gerr + bytes"
  | Timed nat string "gerr + duration"

record cstate =
  cs_mem :: memory
  cs_now :: time
  cs_pc :: "nat \<Rightarrow> pc"
  cs_log :: "event list"

definition init_state :: "time \<Rightarrow> cstate" where
  "init_state now = \<lparr>cs_mem = NewMemory, cs_now = now, cs_pc = (\<lambda>_. Idle), cs_log = []\<rparr>"

text \<open>What a reader returns after the comparison with the clock, when it need not drop.\<close>

definition read_event :: "reader \<Rightarrow> nat \<Rightarrow> string \<Rightarrow> memoryItem option \<Rightarrow> time \<Rightarrow> event" where
  "read_event w t k found now =
     (case w of
        ByGet \<Rightarrow> Got t k (case found of None \<Rightarrow> miss | Some item \<Rightarrow> Inr (mi_value item))
      | ByTTL \<Rightarrow> Timed t k (case found of None \<Rightarrow> miss
                  | Some item \<Rightarrow> Inr (if IsZero (mi_expiresAt item) then 0
                                     else Sub (mi_expiresAt item) now)))"

definition drop_event :: "reader \<Rightarrow> nat \<Rightarrow> string \<Rightarrow> event" where
  "drop_event w t k = (case w of ByGet \<Rightarrow> Got t k miss | ByTTL \<Rightarrow> Timed t k miss)"

inductive cstep :: "cstate \<Rightarrow> cstate \<Rightarrow> bool" where
  tick: "cs_now s \<le> now \<Longrightarrow> cstep s (s\<lparr>cs_now := now\<rparr>)"
| set_begin: "cs_pc s t = Idle \<Longrightarrow>
     item = \<lparr>mi_value = v, mi_expiresAt = (if 0 < sint ttl then Add (cs_now s) ttl else zeroTime)\<rparr> \<Longrightarrow>
     cstep s (s\<lparr>cs_pc := (cs_pc s)(t := Setting k item)\<rparr>)"
| set_store: "cs_pc s t = Setting k item \<Longrightarrow>
     cstep s (s\<lparr>cs_pc := (cs_pc s)(t := Idle),
                cs_mem := (cs_mem s)\<lparr>items := (items (cs_mem s))(k \<mapsto> item)\<rparr>,
                cs_log := Stored t k # cs_log s\<rparr>)"
| take: "cs_pc s t = Idle \<Longrightarrow> Memory_Take (cs_now s) k (cs_mem s) = (r, m) \<Longrightarrow>
     cstep s (s\<lparr>cs_mem := m, cs_log := Taken t k r # cs_log s\<rparr>)"
| increment: "cs_pc s t = Idle \<Longrightarrow> Memory_Increment (cs_now s) k d ttl (cs_mem s) = (r, m) \<Longrightarrow>
     cstep s (s\<lparr>cs_mem := m, cs_log := Counted t k d ttl r # cs_log s\<rparr>)"
| delete: "cs_pc s t = Idle \<Longrightarrow> Memory_Delete (cs_now s) k (cs_mem s) = (r, m) \<Longrightarrow>
     cstep s (s\<lparr>cs_mem := m, cs_log := Deleted t k # cs_log s\<rparr>)"
| read: "cs_pc s t = Idle \<Longrightarrow>
     cstep s (s\<lparr>cs_pc := (cs_pc s)(t := Read w k (items (cs_mem s) k))\<rparr>)"
| fresh: "cs_pc s t = Read w k found \<Longrightarrow>
     (case found of None \<Rightarrow> True | Some item \<Rightarrow> \<not> item_expired item (cs_now s)) \<Longrightarrow>
     cstep s (s\<lparr>cs_pc := (cs_pc s)(t := Idle),
                cs_log := read_event w t k found (cs_now s) # cs_log s\<rparr>)"
| stale: "cs_pc s t = Read w k (Some item) \<Longrightarrow> item_expired item (cs_now s) \<Longrightarrow>
     cstep s (s\<lparr>cs_pc := (cs_pc s)(t := Dropping w k)\<rparr>)"
| drop: "cs_pc s t = Dropping w k \<Longrightarrow>
     cstep s (s\<lparr>cs_pc := (cs_pc s)(t := Idle),
                cs_mem := (cs_mem s)\<lparr>items := (items (cs_mem s))(k := None)\<rparr>,
                cs_log := drop_event w t k # cs_log s\<rparr>)"

inductive reachable :: "time \<Rightarrow> cstate \<Rightarrow> bool" for now0 where
  start: "reachable now0 (init_state now0)"
| step: "reachable now0 s \<Longrightarrow> cstep s s' \<Longrightarrow> reachable now0 s'"

lemma two_steps: "cstep a b \<Longrightarrow> cstep b c \<Longrightarrow> cstep\<^sup>*\<^sup>* a c"
  by (meson r_into_rtranclp rtranclp.rtrancl_into_rtrancl)

text \<open>Run alone, the three steps of a read are the operation of \<open>Cache_Memory\<close>.\<close>

lemma solo_get:
  assumes "cs_pc s t = Idle" "Memory_Get (cs_now s) k (cs_mem s) = (r, m)"
  shows "cstep\<^sup>*\<^sup>* s (s\<lparr>cs_mem := m, cs_log := Got t k r # cs_log s\<rparr>)"
proof -
  let ?f = "items (cs_mem s) k"
  let ?s1 = "s\<lparr>cs_pc := (cs_pc s)(t := Read ByGet k ?f)\<rparr>"
  have 1: "cstep s ?s1" by (rule cstep.read [OF assms(1)])
  have idle: "(cs_pc s)(t := Idle) = cs_pc s" using assms(1) by auto
  show ?thesis
  proof (cases "case ?f of None \<Rightarrow> True | Some item \<Rightarrow> \<not> item_expired item (cs_now s)")
    case True
    have "cstep ?s1 (?s1\<lparr>cs_pc := (cs_pc ?s1)(t := Idle),
        cs_log := read_event ByGet t k ?f (cs_now ?s1) # cs_log ?s1\<rparr>)"
      by (rule cstep.fresh) (use True in \<open>auto split: option.splits\<close>)
    moreover have "?s1\<lparr>cs_pc := (cs_pc ?s1)(t := Idle),
        cs_log := read_event ByGet t k ?f (cs_now ?s1) # cs_log ?s1\<rparr> =
        s\<lparr>cs_mem := m, cs_log := Got t k r # cs_log s\<rparr>"
      using True assms(2) by (auto simp: idle read_event_def Memory_Get_def split: option.splits)
    ultimately have 2: "cstep ?s1 (s\<lparr>cs_mem := m, cs_log := Got t k r # cs_log s\<rparr>)" by simp
    show ?thesis
      by (rule two_steps [OF 1 2])
  next
    case False
    then obtain item where item: "?f = Some item" "item_expired item (cs_now s)"
      by (auto split: option.splits)
    let ?s2 = "?s1\<lparr>cs_pc := (cs_pc ?s1)(t := Dropping ByGet k)\<rparr>"
    have 2: "cstep ?s1 ?s2" by (rule cstep.stale) (use item in auto)
    have 3: "cstep ?s2 (?s2\<lparr>cs_pc := (cs_pc ?s2)(t := Idle),
        cs_mem := (cs_mem ?s2)\<lparr>items := (items (cs_mem ?s2))(k := None)\<rparr>,
        cs_log := drop_event ByGet t k # cs_log ?s2\<rparr>)"
      by (rule cstep.drop) auto
    moreover have "?s2\<lparr>cs_pc := (cs_pc ?s2)(t := Idle),
        cs_mem := (cs_mem ?s2)\<lparr>items := (items (cs_mem ?s2))(k := None)\<rparr>,
        cs_log := drop_event ByGet t k # cs_log ?s2\<rparr> = s\<lparr>cs_mem := m, cs_log := Got t k r # cs_log s\<rparr>"
      using item assms(2) by (auto simp: idle drop_event_def Memory_Get_def)
    ultimately have 3: "cstep ?s2 (s\<lparr>cs_mem := m, cs_log := Got t k r # cs_log s\<rparr>)" by simp
    show ?thesis
      by (rule converse_rtranclp_into_rtranclp [of cstep, OF 1 two_steps [OF 2 3]])
  qed
qed

section \<open>A stored value is taken at most once\<close>

fun stores :: "string \<Rightarrow> event \<Rightarrow> bool" where
  "stores k (Stored _ k') = (k' = k)"
| "stores k (Counted _ k' _ _ (Inr _)) = (k' = k)"
| "stores k _ = False"

fun takes :: "string \<Rightarrow> event \<Rightarrow> bool" where
  "takes k (Taken _ k' (Inr _)) = (k' = k)"
| "takes k _ = False"

definition count :: "(event \<Rightarrow> bool) \<Rightarrow> event list \<Rightarrow> nat" where
  "count P es = length (filter P es)"

lemma count_simps [simp]:
  "count P [] = 0"
  "count P (e # es) = (if P e then Suc (count P es) else count P es)"
  by (simp_all add: count_def)

text \<open>The successful takes of a key and the item held for it never outnumber its stores.\<close>

definition balanced :: "string \<Rightarrow> cstate \<Rightarrow> bool" where
  "balanced k s \<longleftrightarrow>
     count (takes k) (cs_log s) + (if items (cs_mem s) k = None then 0 else 1)
       \<le> count (stores k) (cs_log s)"

lemma balanced_init: "balanced k (init_state now)"
  by (simp add: balanced_def init_state_def NewMemory_def)

lemma Memory_Increment_items:
  assumes "Memory_Increment now k d ttl m = (r, m')"
  shows "k' \<noteq> k \<Longrightarrow> items m' k' = items m k'"
    and "r = Inl e \<Longrightarrow> items m' k \<noteq> None \<Longrightarrow> items m k \<noteq> None"
    and "r = Inr n \<Longrightarrow> items m' k \<noteq> None"
  using assms by (auto simp: Memory_Increment_def Let_def split: option.splits prod.splits if_splits)

lemma Memory_Take_items:
  assumes "Memory_Take now k m = (r, m')"
  shows "k' \<noteq> k \<Longrightarrow> items m' k' = items m k'"
    and "items m' k = None"
    and "r = Inr v \<Longrightarrow> items m k \<noteq> None"
  using assms by (auto simp: Memory_Take_def split: option.splits if_splits)

lemma cstep_balanced: "cstep s s' \<Longrightarrow> balanced k s \<Longrightarrow> balanced k s'"
proof (induction rule: cstep.induct)
  case (take s t k' r m)
  then show ?case
    using Memory_Take_items [OF take(2)]
    by (cases r; cases "k = k'") (auto simp: balanced_def split: if_splits)
next
  case (increment s t k' d ttl r m)
  then show ?case
    using Memory_Increment_items [OF increment(2)]
    by (cases r; cases "k = k'") (auto simp: balanced_def split: if_splits)
next
  case (fresh s t w k' found)
  then show ?case by (cases w) (simp_all add: balanced_def read_event_def)
next
  case (drop s t w k')
  then show ?case by (cases w) (auto simp: balanced_def drop_event_def split: if_splits)
qed (auto simp: balanced_def Memory_Delete_def split: if_splits)

lemma reachable_balanced: "reachable now0 s \<Longrightarrow> balanced k s"
  by (induction rule: reachable.induct) (auto intro: balanced_init cstep_balanced)

section \<open>Increments are not lost\<close>

text \<open>
  \<open>only_counts k es\<close>: in the history, the only operations that wrote \<open>k\<close> are
  increments without a positive \<open>ttl\<close>; \<open>total\<close> is the sum of their deltas, with the
  wrap-around of int64, and \<open>counted\<close> says there was one.
\<close>

fun plain_for :: "string \<Rightarrow> event \<Rightarrow> bool" where
  "plain_for k (Stored _ k') = (k' \<noteq> k)"
| "plain_for k (Taken _ k' _) = (k' \<noteq> k)"
| "plain_for k (Deleted _ k') = (k' \<noteq> k)"
| "plain_for k (Counted _ k' _ ttl _) = (k' = k \<longrightarrow> sint ttl \<le> 0)"
| "plain_for k (Got _ _ _) = True"
| "plain_for k (Timed _ _ _) = True"

definition only_counts :: "string \<Rightarrow> event list \<Rightarrow> bool" where
  "only_counts k es \<longleftrightarrow> list_all (plain_for k) es"

fun delta_of :: "string \<Rightarrow> event \<Rightarrow> int64 option" where
  "delta_of k (Counted _ k' d _ _) = (if k' = k then Some d else None)"
| "delta_of k _ = None"

definition total :: "string \<Rightarrow> event list \<Rightarrow> int64" where
  "total k es = sum_list (List.map_filter (delta_of k) es)"

definition counted :: "string \<Rightarrow> event list \<Rightarrow> bool" where
  "counted k es \<longleftrightarrow> list_ex (\<lambda>e. delta_of k e \<noteq> None) es"

lemma only_counts_simps [simp]:
  "only_counts k []" "only_counts k (e # es) \<longleftrightarrow> plain_for k e \<and> only_counts k es"
  by (simp_all add: only_counts_def)

lemma total_simps [simp]:
  "total k [] = 0"
  "total k (e # es) = (case delta_of k e of None \<Rightarrow> 0 | Some d \<Rightarrow> d) + total k es"
  by (simp_all add: total_def split: option.splits)

lemma counted_simps [simp]:
  "\<not> counted k []" "counted k (e # es) \<longleftrightarrow> delta_of k e \<noteq> None \<or> counted k es"
  by (simp_all add: counted_def)

text \<open>
  The invariant behind it: the item is the decimal form of the total and never expires, and
  no reader is about to drop the key.
\<close>

definition tally :: "string \<Rightarrow> event list \<Rightarrow> memoryItem option" where
  "tally k es =
     (if counted k es then Some \<lparr>mi_value = FormatInt (total k es), mi_expiresAt = zeroTime\<rparr> else None)"

definition harmless :: "string \<Rightarrow> pc \<Rightarrow> bool" where
  "harmless k p \<longleftrightarrow> (\<forall>w. p \<noteq> Dropping w k) \<and> (\<forall>w item. p = Read w k (Some item) \<longrightarrow> IsZero (mi_expiresAt item))"

definition counting :: "string \<Rightarrow> cstate \<Rightarrow> bool" where
  "counting k s \<longleftrightarrow>
     (only_counts k (cs_log s) \<longrightarrow>
        items (cs_mem s) k = tally k (cs_log s) \<and> (\<forall>t. harmless k (cs_pc s t)))"

lemma harmless_simps [simp]:
  "harmless k Idle" "harmless k (Setting k' item)"
  "harmless k (Dropping w k') \<longleftrightarrow> k' \<noteq> k"
  "harmless k (Read w k' found) \<longleftrightarrow>
     (k' = k \<longrightarrow> (case found of None \<Rightarrow> True | Some item \<Rightarrow> IsZero (mi_expiresAt item)))"
  by (auto simp: harmless_def split: option.splits)

lemma tally_IsZero: "tally k es = Some item \<Longrightarrow> IsZero (mi_expiresAt item)"
  by (auto simp: tally_def split: if_splits)

lemma Memory_Increment_tally:
  assumes "Memory_Increment now k d ttl m = (r, m')" "sint ttl \<le> 0" "items m k = tally k es"
  shows "r = Inr (total k es + d) \<or> \<not> counted k es"
    "items m' k = Some \<lparr>mi_value = FormatInt (d + total k es), mi_expiresAt = zeroTime\<rparr>"
proof -
  have z: "\<not> counted k es \<Longrightarrow> total k es = 0"
    by (induction es) (auto split: option.splits)
  show "r = Inr (total k es + d) \<or> \<not> counted k es"
    "items m' k = Some \<lparr>mi_value = FormatInt (d + total k es), mi_expiresAt = zeroTime\<rparr>"
    using assms z by (auto simp: Memory_Increment_def Let_def tally_def item_expired_def add.commute
        split: if_splits)
qed

lemma counting_init: "counting k (init_state now)"
  by (simp add: counting_def init_state_def NewMemory_def tally_def)

lemma cstep_counting: "cstep s s' \<Longrightarrow> counting k s \<Longrightarrow> counting k s'"
proof (induction rule: cstep.induct)
  case (set_store s t k' item)
  then show ?case by (auto simp: counting_def tally_def)
next
  case (take s t k' r m)
  then show ?case
    using Memory_Take_items(1) [OF take(2), of k] by (auto simp: counting_def tally_def)
next
  case (increment s t k' d ttl r m)
  then show ?case
    using Memory_Increment_items(1) [OF increment(2), of k] Memory_Increment_tally(2) [OF increment(2)]
    by (cases "k' = k") (auto simp: counting_def tally_def)
next
  case (read s t w k')
  then show ?case
    using tally_IsZero [of k "cs_log s"] by (auto simp: counting_def split: option.splits)
next
  case (fresh s t w k' found)
  have "plain_for k (read_event w t k' found (cs_now s))" "delta_of k (read_event w t k' found (cs_now s)) = None"
    by (cases w; simp add: read_event_def)+
  with fresh show ?case by (auto simp: counting_def tally_def)
next
  case (stale s t w k' item)
  have "k' \<noteq> k" if "only_counts k (cs_log s)"
  proof
    assume "k' = k"
    with stale that have "IsZero (mi_expiresAt item)"
      unfolding counting_def by (metis harmless_simps(4) option.simps(5))
    with stale(2) show False by (simp add: item_expired_def)
  qed
  with stale show ?case by (auto simp: counting_def)
next
  case (drop s t w k')
  have "k' \<noteq> k" if "only_counts k (cs_log s)"
    using drop that unfolding counting_def by (metis harmless_simps(3))
  moreover have "plain_for k (drop_event w t k')" "delta_of k (drop_event w t k') = None"
    by (cases w; simp add: drop_event_def)+
  ultimately show ?case using drop by (auto simp: counting_def tally_def)
qed (auto simp: counting_def tally_def Memory_Delete_def)

lemma reachable_counting: "reachable now0 s \<Longrightarrow> counting k s"
  by (induction rule: reachable.induct) (auto intro: counting_init cstep_counting)

section \<open>Properties\<close>

text \<open>
  C4: However the steps of concurrent callers interleave, the successful takes of a key never
  outnumber the completed writes of it: no value is handed out twice.
\<close>

theorem no_value_taken_twice:
  "reachable now0 s \<Longrightarrow> count (takes k) (cs_log s) \<le> count (stores k) (cs_log s)"
  using reachable_balanced [of now0 s k] by (simp add: balanced_def split: if_splits)

lemma reach_step: "reachable now0 s \<Longrightarrow> cstep s s' \<Longrightarrow> s' = t \<Longrightarrow> reachable now0 t"
  using reachable.step by blast

definition stored_state :: "nat \<Rightarrow> memoryItem \<Rightarrow> event list \<Rightarrow> cstate" where
  "stored_state n item es = \<lparr>cs_mem = \<lparr>items = [''k'' \<mapsto> item]\<rparr>, cs_now = int n, cs_pc = (\<lambda>_. Idle), cs_log = es\<rparr>"

lemma all_idle: "(\<lambda>_. Idle)(t := Idle) = (\<lambda>_. Idle)"
  by auto

lemma reach_stored:
  "reachable 0 (stored_state 0 \<lparr>mi_value = ''v'', mi_expiresAt = 5\<rparr> [Stored 0 ''k''])"
proof -
  let ?item = "\<lparr>mi_value = ''v'', mi_expiresAt = 5\<rparr>"
  let ?s1 = "(init_state 0)\<lparr>cs_pc := (cs_pc (init_state 0))(0 := Setting ''k'' ?item)\<rparr>"
  have "cstep (init_state 0) ?s1"
    by (rule cstep.set_begin [where ttl = 5]) (simp_all add: init_state_def Add_def)
  then have 1: "reachable 0 ?s1" by (rule reachable.step [OF reachable.start])
  have "cs_pc ?s1 0 = Setting ''k'' ?item" by simp
  from reach_step [OF 1 cstep.set_store [OF this]] show ?thesis
    by (simp add: stored_state_def init_state_def NewMemory_def all_idle)
qed

theorem no_value_taken_twice_witness:
  "count (takes ''k'') [Taken 1 ''k'' (Inr ''v''), Stored 0 ''k''] = 1 \<and>
   count (takes ''k'') [Taken 1 ''k'' (Inr ''v''), Stored 0 ''k''] \<le> count (stores ''k'') [Taken 1 ''k'' (Inr ''v''), Stored 0 ''k'']"
proof -
  let ?s = "stored_state 0 \<lparr>mi_value = ''v'', mi_expiresAt = 5\<rparr> [Stored 0 ''k'']"
  let ?m = "\<lparr>items = [''k'' \<mapsto> \<lparr>mi_value = ''v'', mi_expiresAt = 5\<rparr>]\<rparr>"
  let ?m' = "?m\<lparr>items := (items ?m)(''k'' := None)\<rparr>"
  have "Memory_Take (cs_now ?s) ''k'' (cs_mem ?s) = (Inr ''v'', ?m')"
    by (simp add: stored_state_def run_eqs)
  then have "cstep ?s (?s\<lparr>cs_mem := ?m', cs_log := Taken 1 ''k'' (Inr ''v'') # cs_log ?s\<rparr>)"
    by (intro cstep.take) (simp_all add: stored_state_def)
  from no_value_taken_twice [OF reachable.step [OF reach_stored this], of "''k''"]
  show ?thesis by (simp add: stored_state_def)
qed

text \<open>
  C19: No increment is lost: in every reachable state in which only increments without a lifetime
  have written a key, and at least one has, the key holds the decimal form of the sum of all
  their deltas, modulo 2^64.
\<close>

theorem no_increment_lost:
  assumes "reachable now0 s" "only_counts k (cs_log s)" "counted k (cs_log s)"
  shows "map_option mi_value (items (cs_mem s) k) = Some (FormatInt (total k (cs_log s)))"
  using reachable_counting [OF assms(1), of k] assms(2,3) by (simp add: counting_def tally_def)

theorem no_increment_lost_witness:
  "\<exists>s. reachable 0 s \<and> cs_log s = [Counted 1 ''k'' 4 0 (Inr 7), Counted 0 ''k'' 3 0 (Inr 3)] \<and>
     map_option mi_value (items (cs_mem s) ''k'') = Some (FormatInt 7)"
proof -
  let ?s0 = "init_state 0"
  obtain m1 where m1: "Memory_Increment (cs_now ?s0) ''k'' 3 0 (cs_mem ?s0) = (Inr 3, m1)"
    and i1: "items m1 ''k'' = Some \<lparr>mi_value = FormatInt 3, mi_expiresAt = zeroTime\<rparr>"
    by (simp add: init_state_def run_eqs)
  let ?s1 = "?s0\<lparr>cs_mem := m1, cs_log := Counted 0 ''k'' 3 0 (Inr 3) # cs_log ?s0\<rparr>"
  have 1: "reachable 0 ?s1"
    by (rule reachable.step [OF reachable.start cstep.increment [OF _ m1]]) (simp add: init_state_def)
  obtain m2 where m2: "Memory_Increment (cs_now ?s1) ''k'' 4 0 (cs_mem ?s1) = (Inr 7, m2)"
    using i1 by (simp add: Memory_Increment_def item_expired_def Let_def)
  let ?s2 = "?s1\<lparr>cs_mem := m2, cs_log := Counted 1 ''k'' 4 0 (Inr 7) # cs_log ?s1\<rparr>"
  have 2: "reachable 0 ?s2"
    by (rule reachable.step [OF 1 cstep.increment [OF _ m2]]) (simp add: init_state_def)
  have lg: "cs_log ?s2 = [Counted 1 ''k'' 4 0 (Inr 7), Counted 0 ''k'' 3 0 (Inr 3)]"
    by (simp add: init_state_def)
  have "map_option mi_value (items (cs_mem ?s2) ''k'') = Some (FormatInt (total ''k'' (cs_log ?s2)))"
    by (rule no_increment_lost [OF 2]; unfold lg; simp)
  then have "map_option mi_value (items (cs_mem ?s2) ''k'') = Some (FormatInt 7)" unfolding lg by simp
  with 2 lg show ?thesis by blast
qed


end
