(* ===== verification/Cache_Manager.thy ===== *)
theory Cache_Manager
  imports Cache_Database Cache_Redis_Conn
begin

text \<open>
  Configuration, opening and the manager of \<open>cache/cache.go\<close>, and \<open>OpenDatabase\<close> of
  \<open>cache/database.go\<close>.

  A Go map that is iterated is an association list: its order is the order of that
  iteration, which Go leaves open; the lemmas hold for every order. \<^term>\<open>None\<close> is the nil
  map. What opening needs from outside is a parameter: dialling Redis (\<open>dial\<close>), the
  database resolver, the driver's answers while migrating (\<open>menv\<close>). Databases are
  numbered; \<open>dbs\<close> holds their tables.
\<close>

section \<open>Configuration\<close>

record DatabaseConfig =
  dc_Connection :: string
  dc_Driver :: string
  dc_Table :: string
  dc_AutoMigrate :: bool

record StoreConfig =
  sc_Driver :: string
  sc_Prefix :: string
  sc_Required :: bool
  sc_Redis :: RedisConfig
  sc_Database :: DatabaseConfig

record Config =
  cc_DefaultStore :: string
  cc_Stores :: "(string \<times> StoreConfig) list option"

definition zero_DatabaseConfig :: DatabaseConfig where
  "zero_DatabaseConfig = \<lparr>dc_Connection = [], dc_Driver = [], dc_Table = [], dc_AutoMigrate = False\<rparr>"

definition zero_RedisConfig :: RedisConfig where
  "zero_RedisConfig = \<lparr>rc_Addr = [], rc_Username = [], rc_Password = [], rc_DB = 0, rc_Prefix = [],
     rc_Required = False\<rparr>"

definition zero_StoreConfig :: StoreConfig where
  "zero_StoreConfig = \<lparr>sc_Driver = [], sc_Prefix = [], sc_Required = False,
     sc_Redis = zero_RedisConfig, sc_Database = zero_DatabaseConfig\<rparr>"

definition DatabaseConfig_ApplyDefaults :: "DatabaseConfig \<Rightarrow> DatabaseConfig" where
  "DatabaseConfig_ApplyDefaults cfg =
     (if dc_Table cfg = [] then cfg\<lparr>dc_Table := ''chobits_cache''\<rparr> else cfg)"

definition StoreConfig_ApplyDefaults :: "StoreConfig \<Rightarrow> StoreConfig" where
  "StoreConfig_ApplyDefaults cfg =
     (let cfg = (if sc_Driver cfg = [] then cfg\<lparr>sc_Driver := ''memory''\<rparr> else cfg);
          cfg = (if EqualFold (sc_Driver cfg) ''redis'' \<and> rc_Addr (sc_Redis cfg) = []
                 then cfg\<lparr>sc_Redis := (sc_Redis cfg)\<lparr>rc_Addr := ''127.0.0.1:6379''\<rparr>\<rparr> else cfg);
          cfg = (if EqualFold (sc_Driver cfg) ''database''
                 then cfg\<lparr>sc_Database := DatabaseConfig_ApplyDefaults (sc_Database cfg)\<rparr> else cfg)
      in cfg)"

definition IsRequired :: "StoreConfig \<Rightarrow> bool" where
  "IsRequired cfg \<longleftrightarrow> sc_Required cfg \<or> rc_Required (sc_Redis cfg)"

text \<open>The stores after \<open>ApplyDefaults\<close>; the map is never nil then.\<close>

definition default_stores :: "string \<Rightarrow> (string \<times> StoreConfig) list \<Rightarrow> (string \<times> StoreConfig) list" where
  "default_stores name stores =
     map (\<lambda>(n, st). (n, StoreConfig_ApplyDefaults st))
       (if stores = [] then [(name, zero_StoreConfig\<lparr>sc_Driver := ''memory''\<rparr>)] else stores)"

definition Config_ApplyDefaults :: "Config \<Rightarrow> Config" where
  "Config_ApplyDefaults cfg =
     (let name = (if cc_DefaultStore cfg = [] then ''default'' else cc_DefaultStore cfg);
          stores = (case cc_Stores cfg of None \<Rightarrow> [] | Some m \<Rightarrow> m)
      in \<lparr>cc_DefaultStore = name, cc_Stores = Some (default_stores name stores)\<rparr>)"

definition stores_of :: "Config \<Rightarrow> (string \<times> StoreConfig) list" where
  "stores_of cfg = (case cc_Stores cfg of None \<Rightarrow> [] | Some m \<Rightarrow> m)"

definition Config_Store :: "Config \<Rightarrow> string \<Rightarrow> gerr + StoreConfig" where
  "Config_Store cfg name =
     (let cfg = Config_ApplyDefaults cfg;
          name = (if TrimSpace name = [] then cc_DefaultStore cfg else name)
      in case map_of (stores_of cfg) name of
           None \<Rightarrow> Inl (Wrapf ''%w: %s'' (Sentinel ErrStoreNotFound) [name])
         | Some st \<Rightarrow> Inr (StoreConfig_ApplyDefaults st))"

text \<open>
  \<open>Config.Store\<close> has a value receiver, but the copy shares the caller's map: the defaults
  are written through to it. The caller's map after the call.
\<close>

definition Config_Store_caller :: "Config \<Rightarrow> Config" where
  "Config_Store_caller cfg =
     (case cc_Stores cfg of None \<Rightarrow> cfg
      | Some m \<Rightarrow> cfg\<lparr>cc_Stores := cc_Stores (Config_ApplyDefaults cfg)\<rparr>)"

section \<open>Opening a store\<close>

record handle =
  h_DB :: "nat option"
  h_Driver :: string

type_synonym resolver = "string \<Rightarrow> gerr + handle"

text \<open>
  An option is nil or the setter \<open>WithDatabaseResolver r\<close>, whose \<open>r\<close> may be nil.
\<close>

type_synonym OpenOption = "resolver option option"

definition WithDatabase :: "nat option \<Rightarrow> string \<Rightarrow> OpenOption" where
  "WithDatabase db driver = Some (Some (\<lambda>_. Inr \<lparr>h_DB = db, h_Driver = driver\<rparr>))"

fun openOptions :: "OpenOption list \<Rightarrow> resolver option \<Rightarrow> resolver option" where
  "openOptions [] r = r"
| "openOptions (None # opts) r = openOptions opts r"
| "openOptions (Some r' # opts) r = openOptions opts r'"

datatype store =
    SMemory memory
  | SRedis RedisConfig
  | SDatabase nat database
  | SPrefixed store string

definition wrap_prefix :: "store \<Rightarrow> string \<Rightarrow> store" where
  "wrap_prefix st prefix = (if TrimSpace prefix = [] then st else SPrefixed st prefix)"

type_synonym dbworld = "nat \<Rightarrow> sqldb"

definition OpenDatabase ::
  "DatabaseConfig \<Rightarrow> resolver option \<Rightarrow> dbenv \<Rightarrow> dbworld \<Rightarrow> (gerr + nat \<times> database) \<times> dbworld" where
  "OpenDatabase cfg res menv dbs =
     (let cfg = DatabaseConfig_ApplyDefaults cfg in
      case res of None \<Rightarrow> (Inl (Sentinel ErrDatabaseUnset), dbs)
      | Some f \<Rightarrow>
          (case f (dc_Connection cfg) of Inl err \<Rightarrow> (Inl err, dbs)
           | Inr hdl \<Rightarrow>
               let driver = (if dc_Driver cfg = [] then h_Driver hdl else dc_Driver cfg) in
               (case NewDatabase (h_DB hdl \<noteq> None) driver (dc_Table cfg) of Inl err \<Rightarrow> (Inl err, dbs)
                | Inr d \<Rightarrow>
                    let i = the (h_DB hdl) in
                    if dc_AutoMigrate cfg
                    then (case Migrate (Some d) menv (dbs i) of
                            (Some err, db) \<Rightarrow> (Inl err, dbs(i := db))
                          | (None, db) \<Rightarrow> (Inr (i, d), dbs(i := db)))
                    else (Inr (i, d), dbs))))"

text \<open>\<open>OpenRedis\<close>: the address default, then a connection attempt when it is required.\<close>

definition OpenRedis :: "(RedisConfig \<Rightarrow> gerr option) \<Rightarrow> RedisConfig \<Rightarrow> gerr + RedisConfig" where
  "OpenRedis dial cfg =
     (let client = (if rc_Addr cfg = [] then cfg\<lparr>rc_Addr := ''127.0.0.1:6379''\<rparr> else cfg) in
      if rc_Required client
      then (case dial client of Some err \<Rightarrow> Inl err | None \<Rightarrow> Inr client)
      else Inr client)"

definition Open ::
  "(RedisConfig \<Rightarrow> gerr option) \<Rightarrow> dbenv \<Rightarrow> StoreConfig \<Rightarrow> OpenOption list \<Rightarrow> dbworld \<Rightarrow>
   (gerr + store) \<times> dbworld" where
  "Open dial menv cfg opts dbs =
     (let res = openOptions opts None;
          cfg = StoreConfig_ApplyDefaults cfg;
          driver = ToLower (TrimSpace (sc_Driver cfg))
      in if driver = [] \<or> driver = ''memory''
         then (Inr (wrap_prefix (SMemory NewMemory) (sc_Prefix cfg)), dbs)
         else if driver = ''redis''
         then (let redisCfg = sc_Redis cfg;
                   redisCfg = (if rc_Prefix redisCfg = [] then redisCfg\<lparr>rc_Prefix := sc_Prefix cfg\<rparr> else redisCfg)
               in (case OpenRedis dial redisCfg of Inl err \<Rightarrow> (Inl err, dbs)
                   | Inr r \<Rightarrow> (Inr (SRedis r), dbs)))
         else if driver = ''database''
         then (case OpenDatabase (sc_Database cfg) res menv dbs of
                 (Inl err, dbs) \<Rightarrow> (Inl err, dbs)
               | (Inr (i, d), dbs) \<Rightarrow> (Inr (wrap_prefix (SDatabase i d) (sc_Prefix cfg)), dbs))
         else (Inl (Errorf ''unsupported cache driver %q'' [sc_Driver cfg]), dbs))"

definition OpenDefault ::
  "(RedisConfig \<Rightarrow> gerr option) \<Rightarrow> dbenv \<Rightarrow> Config \<Rightarrow> OpenOption list \<Rightarrow> dbworld \<Rightarrow>
   (gerr + store) \<times> dbworld" where
  "OpenDefault dial menv cfg opts dbs =
     (case Config_Store cfg [] of Inl err \<Rightarrow> (Inl err, dbs) | Inr st \<Rightarrow> Open dial menv st opts dbs)"

section \<open>The manager\<close>

record Manager =
  m_default :: string
  m_stores :: "(string \<times> store) list"

text \<open>
  \<open>closeAll\<close> closes every store of the map and joins the errors. \<open>shut\<close> gives the error of
  closing a Redis client; closing memory and database stores does nothing. The second
  component lists the stores closed.
\<close>

fun close_store :: "(RedisConfig \<Rightarrow> gerr option) \<Rightarrow> store \<Rightarrow> gerr option" where
  "close_store shut (SMemory _) = None"
| "close_store shut (SRedis r) = shut r"
| "close_store shut (SDatabase _ _) = None"
| "close_store shut (SPrefixed st _) = close_store shut st"

fun closeAll ::
  "(RedisConfig \<Rightarrow> gerr option) \<Rightarrow> (string \<times> store) list \<Rightarrow> gerr option \<Rightarrow> gerr option \<times> string list" where
  "closeAll shut [] result = (result, [])"
| "closeAll shut ((name, st) # rest) result =
     (case closeAll shut rest (errors_Join [result, close_store shut st]) of
        (result, closed) \<Rightarrow> (result, name # closed))"

text \<open>
  The loop of \<open>OpenManager\<close>: the stores opened so far and, when one fails, its error.
\<close>

fun open_stores ::
  "(RedisConfig \<Rightarrow> gerr option) \<Rightarrow> (string \<Rightarrow> dbenv) \<Rightarrow> resolver option \<Rightarrow>
   (string \<times> StoreConfig) list \<Rightarrow> (string \<times> store) list \<Rightarrow> dbworld \<Rightarrow>
   gerr option \<times> (string \<times> store) list \<times> dbworld" where
  "open_stores dial menv res [] opened dbs = (None, opened, dbs)"
| "open_stores dial menv res ((name, cfg) # rest) opened dbs =
     (case Open dial (menv name) cfg [Some res] dbs of
        (Inl err, dbs) \<Rightarrow> (Some (Wrapf ''open cache store %s: %w'' err [name]), opened, dbs)
      | (Inr st, dbs) \<Rightarrow> open_stores dial menv res rest (opened @ [(name, st)]) dbs)"

text \<open>The result, the names of the stores closed again, and the databases.\<close>

definition OpenManager ::
  "(RedisConfig \<Rightarrow> gerr option) \<Rightarrow> (RedisConfig \<Rightarrow> gerr option) \<Rightarrow> (string \<Rightarrow> dbenv) \<Rightarrow> Config \<Rightarrow>
   OpenOption list \<Rightarrow> dbworld \<Rightarrow> (gerr + Manager) \<times> string list \<times> dbworld" where
  "OpenManager dial shut menv cfg opts dbs =
     (let res = openOptions opts None;
          cfg = Config_ApplyDefaults cfg
      in case open_stores dial menv res (stores_of cfg) [] dbs of
           (Some err, opened, dbs) \<Rightarrow> (Inl err, snd (closeAll shut opened None), dbs)
         | (None, opened, dbs) \<Rightarrow>
             let name = (if opened = [] then ''default'' else cc_DefaultStore cfg);
                 opened = (if opened = [] then [(''default'', SMemory NewMemory)] else opened)
             in if map_of opened name = None
                then (Inl (Wrapf ''%w: %s'' (Sentinel ErrStoreNotFound) [name]),
                      snd (closeAll shut opened None), dbs)
                else (Inr \<lparr>m_default = name, m_stores = opened\<rparr>, [], dbs))"

text \<open>The methods of a manager, nil (\<^term>\<open>None\<close>) included; a missing store is nil.\<close>

definition Manager_Default :: "Manager option \<Rightarrow> store option" where
  "Manager_Default mg = (case mg of None \<Rightarrow> None | Some m \<Rightarrow> map_of (m_stores m) (m_default m))"

definition Manager_Cache :: "Manager option \<Rightarrow> string \<Rightarrow> store option" where
  "Manager_Cache mg name =
     (case mg of None \<Rightarrow> None
      | Some m \<Rightarrow> map_of (m_stores m) (if TrimSpace name = [] then m_default m else name))"

definition Manager_Names :: "Manager option \<Rightarrow> string list" where
  "Manager_Names mg = (case mg of None \<Rightarrow> [] | Some m \<Rightarrow> map fst (m_stores m))"

definition Manager_Close :: "(RedisConfig \<Rightarrow> gerr option) \<Rightarrow> Manager option \<Rightarrow> gerr option" where
  "Manager_Close shut mg = (case mg of None \<Rightarrow> None | Some m \<Rightarrow> fst (closeAll shut (m_stores m) None))"

section \<open>Lemmas\<close>

lemma StoreConfig_ApplyDefaults_idem [simp]:
  "StoreConfig_ApplyDefaults (StoreConfig_ApplyDefaults cfg) = StoreConfig_ApplyDefaults cfg"
proof (cases "sc_Driver cfg = []")
  case True
  then show ?thesis
    by (cases "EqualFold ''memory'' ''redis''"; cases "EqualFold ''memory'' ''database''";
        cases "rc_Addr (sc_Redis cfg) = []"; cases "dc_Table (sc_Database cfg) = []")
      (simp_all add: StoreConfig_ApplyDefaults_def DatabaseConfig_ApplyDefaults_def)
next
  case False
  then show ?thesis
    by (cases "EqualFold (sc_Driver cfg) ''redis''"; cases "EqualFold (sc_Driver cfg) ''database''";
        cases "rc_Addr (sc_Redis cfg) = []"; cases "dc_Table (sc_Database cfg) = []")
      (simp_all add: StoreConfig_ApplyDefaults_def DatabaseConfig_ApplyDefaults_def)
qed

lemma default_stores_keys: "stores \<noteq> [] \<Longrightarrow> map fst (default_stores name stores) = map fst stores"
  by (simp add: default_stores_def case_prod_beta comp_def)

lemma default_stores_not_Nil [simp]: "default_stores name stores \<noteq> []"
  by (simp add: default_stores_def)

lemma default_stores_idem [simp]:
  "default_stores name' (default_stores name stores) = default_stores name stores"
  unfolding default_stores_def [of name' "default_stores name stores"] if_not_P [OF default_stores_not_Nil]
  by (simp add: default_stores_def case_prod_beta)

lemma closeAll_names: "snd (closeAll shut sts r) = map fst sts"
  by (induction shut sts r rule: closeAll.induct) (auto split: prod.splits)

lemma closeAll_error:
  "fst (closeAll shut sts r) = None \<longleftrightarrow> r = None \<and> (\<forall>(n, st) \<in> set sts. close_store shut st = None)"
  by (induction shut sts r rule: closeAll.induct) (auto split: prod.splits)

text \<open>What the loop opened: each store from its configuration, in the order of iteration.\<close>

lemma open_stores_names:
  "open_stores dial menv res cfgs opened dbs = (err, opened', dbs') \<Longrightarrow>
   \<exists>done. map fst opened' = map fst opened @ done \<and> (\<exists>rest. map fst cfgs = done @ rest \<and> (err = None \<longrightarrow> rest = []))"
proof (induction dial menv res cfgs opened dbs arbitrary: err opened' dbs' rule: open_stores.induct)
  case (1 dial menv res opened dbs)
  then show ?case by simp
next
  case (2 dial menv res name cfg rest opened dbs)
  obtain r dbs1 where o: "Open dial (menv name) cfg [Some res] dbs = (r, dbs1)"
    by (cases "Open dial (menv name) cfg [Some res] dbs")
  show ?case
  proof (cases r)
    case (Inl e)
    with 2 o show ?thesis by auto
  next
    case (Inr st)
    with 2(2) o have "open_stores dial menv res rest (opened @ [(name, st)]) dbs1 = (err, opened', dbs')"
      by simp
    from 2(1) [OF o [symmetric] Inr this] obtain don rest' where
      "map fst opened' = map fst (opened @ [(name, st)]) @ don" "map fst rest = don @ rest'"
      "err = None \<longrightarrow> rest' = []" by blast
    then show ?thesis by (intro exI [of _ "name # don"]) auto
  qed
qed

section \<open>Properties\<close>

lemma stores_of_defaults_not_Nil: "stores_of (Config_ApplyDefaults cfg) \<noteq> []"
  by (simp add: Config_ApplyDefaults_def stores_of_def Let_def)

text \<open>
  A manager that opens has opened exactly the configured stores, holds its default store, and
  has closed nothing.
\<close>

theorem open_manager_complete:
  assumes "OpenManager dial shut menv cfg opts dbs = (Inr m, closed, dbs')"
  shows "closed = [] \<and> Manager_Names (Some m) = map fst (stores_of (Config_ApplyDefaults cfg)) \<and>
    Manager_Default (Some m) \<noteq> None"
proof -
  let ?cfg = "Config_ApplyDefaults cfg"
  obtain err opened dbs1 where o: "open_stores dial menv (openOptions opts None) (stores_of ?cfg) [] dbs = (err, opened, dbs1)"
    by (metis prod.collapse)
  from open_stores_names [OF o] obtain don rest where
    n: "map fst opened = don" "map fst (stores_of ?cfg) = don @ rest" "err = None \<longrightarrow> rest = []" by auto
  have "err = None" using assms o by (auto simp: OpenManager_def Let_def split: option.splits)
  with n have names: "map fst opened = map fst (stores_of ?cfg)" by simp
  then have "opened \<noteq> []" using stores_of_defaults_not_Nil [of cfg] by auto
  with assms o \<open>err = None\<close> names show ?thesis
    by (auto simp: OpenManager_def Let_def Manager_Names_def Manager_Default_def split: if_splits)
qed

text \<open>Opening the configuration without stores: one memory store named \<open>default\<close>.\<close>

lemma StoreConfig_memory_defaults:
  "StoreConfig_ApplyDefaults (zero_StoreConfig\<lparr>sc_Driver := ''memory''\<rparr>) = zero_StoreConfig\<lparr>sc_Driver := ''memory''\<rparr>"
proof -
  have e: "\<not> EqualFold ''memory'' ''redis''" "\<not> EqualFold ''memory'' ''database''" by code_simp+
  show ?thesis by (simp add: StoreConfig_ApplyDefaults_def e)
qed

lemma Open_memory:
  "Open dial menv (zero_StoreConfig\<lparr>sc_Driver := ''memory''\<rparr>) opts dbs = (Inr (SMemory NewMemory), dbs)"
proof -
  have t: "TrimSpace ''memory'' = ''memory''" by (rule TrimSpace_graphic) (simp add: graphic_def)
  have l: "ToLower ''memory'' = ''memory''" by code_simp
  show ?thesis
    unfolding Open_def StoreConfig_memory_defaults Let_def by (simp add: t l wrap_prefix_def zero_StoreConfig_def del: ToLower.simps)
qed

lemma OpenManager_empty:
  "OpenManager dial shut menv \<lparr>cc_DefaultStore = [], cc_Stores = None\<rparr> [] dbs
   = (Inr \<lparr>m_default = ''default'', m_stores = [(''default'', SMemory NewMemory)]\<rparr>, [], dbs)"
  by (simp add: OpenManager_def Config_ApplyDefaults_def default_stores_def stores_of_def
      StoreConfig_memory_defaults Open_memory Let_def)

theorem open_manager_complete_witness:
  "Manager_Names (Some \<lparr>m_default = ''default'', m_stores = [(''default'', SMemory NewMemory)]\<rparr>)
   = map fst (stores_of (Config_ApplyDefaults \<lparr>cc_DefaultStore = [], cc_Stores = None\<rparr>))"
  using open_manager_complete [OF OpenManager_empty [of "\<lambda>_. None" "\<lambda>_. None"
      "\<lambda>_. \<lparr>db_now = 0, db_fault = \<lambda>_. None\<rparr>" "\<lambda>_. Map.empty"]] by simp

text \<open>
  C26: A manager that fails to open has closed every store it had opened: the stores closed are an
  initial part of the configured ones, up to the one that failed.
\<close>

theorem open_manager_failure_closes:
  assumes "OpenManager dial shut menv cfg opts dbs = (Inl err, closed, dbs')"
  shows "\<exists>opened rest e dbs1. open_stores dial menv (openOptions opts None) (stores_of (Config_ApplyDefaults cfg)) [] dbs
       = (e, opened, dbs1) \<and> closed = map fst opened \<and>
     map fst (stores_of (Config_ApplyDefaults cfg)) = closed @ rest"
proof -
  let ?cfg = "Config_ApplyDefaults cfg"
  obtain e opened dbs1 where o: "open_stores dial menv (openOptions opts None) (stores_of ?cfg) [] dbs = (e, opened, dbs1)"
    by (metis prod.collapse)
  from open_stores_names [OF o] obtain don rest where
    n: "map fst opened = don" "map fst (stores_of ?cfg) = don @ rest" "e = None \<longrightarrow> rest = []" by auto
  have "closed = map fst opened"
  proof (cases e)
    case (Some x)
    with assms o show ?thesis by (auto simp: OpenManager_def Let_def closeAll_names)
  next
    case None
    with n have "opened \<noteq> []" using stores_of_defaults_not_Nil [of cfg] by auto
    with None assms o show ?thesis
      by (auto simp: OpenManager_def Let_def closeAll_names split: if_splits)
  qed
  with o n show ?thesis by blast
qed

lemma OpenManager_unsupported:
  "OpenManager dial shut menv \<lparr>cc_DefaultStore = ''b'', cc_Stores = Some [(''a'', zero_StoreConfig\<lparr>sc_Driver := ''memory''\<rparr>)]\<rparr> [] dbs
   = (Inl (Wrapf ''%w: %s'' (Sentinel ErrStoreNotFound) [''b'']), [''a''], dbs)"
  by (simp add: OpenManager_def Config_ApplyDefaults_def default_stores_def stores_of_def
      StoreConfig_memory_defaults Open_memory Let_def)

theorem open_manager_failure_closes_witness:
  "\<exists>rest. map fst (stores_of (Config_ApplyDefaults
      \<lparr>cc_DefaultStore = ''b'', cc_Stores = Some [(''a'', zero_StoreConfig\<lparr>sc_Driver := ''memory''\<rparr>)]\<rparr>)) = [''a''] @ rest"
  using open_manager_failure_closes [OF OpenManager_unsupported [of "\<lambda>_. None" "\<lambda>_. None"
      "\<lambda>_. \<lparr>db_now = 0, db_fault = \<lambda>_. None\<rparr>" "\<lambda>_. Map.empty"]] by blast

end
