(* ===== verification/App_Runtime.thy ===== *)
theory App_Runtime
  imports Prelude
begin

text \<open>
  The HTTP runtime of \<open>app/runtime.go\<close>: starting background services, waiting for a
  signal or for the server to end, and the shutdown that stops services and closes
  resources. A run is the list of calls it makes on the services, the server and the
  closers, with the error it returns. What the called code answers is part of the values.
\<close>

section \<open>Services\<close>

text \<open>
  A value with the optional interfaces of the package: \<open>Some r\<close> says the value implements
  the method and that it returns \<open>r\<close>, \<^term>\<open>None\<close> that it does not implement it. A nil
  \<open>any\<close> or \<open>Closer\<close> is \<^term>\<open>None\<close>.
\<close>

record component =
  cp_type :: string
  cp_id :: nat
  cp_start :: "gerr option option"
  cp_stop :: "gerr option option"
  cp_wait :: bool
  cp_close :: "gerr option option"

definition is_Background :: "component \<Rightarrow> bool" where
  "is_Background c \<longleftrightarrow> cp_start c \<noteq> None"

definition is_Stopper :: "component \<Rightarrow> bool" where
  "is_Stopper c \<longleftrightarrow> cp_stop c \<noteq> None"

definition is_Waiter :: "component \<Rightarrow> bool" where
  "is_Waiter c \<longleftrightarrow> cp_wait c"

definition is_Closer :: "component \<Rightarrow> bool" where
  "is_Closer c \<longleftrightarrow> cp_close c \<noteq> None"

datatype call =
    CallStart component
  | CallServe
  | CallShutdown int
  | CallStop component int
  | CallWait component
  | CallClose component

section \<open>Shutdown\<close>

text \<open>The call of one service's \<open>Stop\<close> and \<open>Wait\<close>, with the stop error.\<close>

definition stop_one :: "int \<Rightarrow> component \<Rightarrow> gerr option \<times> call list" where
  "stop_one timeout c =
     (case cp_stop c of None \<Rightarrow> None | Some r \<Rightarrow> r,
      (if is_Stopper c then [CallStop c timeout] else []) @ (if is_Waiter c then [CallWait c] else []))"

text \<open>
  \<open>stopBackgrounds\<close>: the loop runs from the last index down to 0, so the list is walked
  reversed. \<open>result\<close> joins the errors.
\<close>

fun stop_loop :: "int \<Rightarrow> component option list \<Rightarrow> gerr option \<Rightarrow> gerr option \<times> call list" where
  "stop_loop timeout [] result = (result, [])"
| "stop_loop timeout (None # cs) result = stop_loop timeout cs result"
| "stop_loop timeout (Some c # cs) result =
     (case stop_one timeout c of (err, calls) \<Rightarrow>
        case stop_loop timeout cs (if err = None then result else errors_Join [result, err]) of
          (result, others) \<Rightarrow> (result, calls @ others))"

definition stopBackgrounds :: "component option list \<Rightarrow> int \<Rightarrow> gerr option \<times> call list" where
  "stopBackgrounds services timeout = stop_loop timeout (rev services) None"

fun close_loop :: "component option list \<Rightarrow> gerr option \<Rightarrow> gerr option \<times> call list" where
  "close_loop [] result = (result, [])"
| "close_loop (None # cs) result = close_loop cs result"
| "close_loop (Some c # cs) result =
     (let err = (case cp_close c of None \<Rightarrow> None | Some r \<Rightarrow> r) in
      case close_loop cs (if err = None then result else errors_Join [result, err]) of
        (result, others) \<Rightarrow> (result, CallClose c # others))"

definition closeResources :: "component option list \<Rightarrow> gerr option \<times> call list" where
  "closeResources closers = close_loop (rev closers) None"

section \<open>The run\<close>

text \<open>
  The start loop: nil services are skipped; a service without \<open>Start\<close> counts as started;
  the first failing \<open>Start\<close> ends the loop.
\<close>

fun start_loop :: "component option list \<Rightarrow> component list \<Rightarrow> gerr option \<times> component list \<times> call list" where
  "start_loop [] started = (None, started, [])"
| "start_loop (None # cs) started = start_loop cs started"
| "start_loop (Some c # cs) started =
     (case cp_start c of
        Some (Some err) \<Rightarrow> (Some err, started, [CallStart c])
      | st \<Rightarrow>
          (case start_loop cs (started @ [c]) of
             (err, started, calls) \<Rightarrow> (err, started, (if st = None then [] else [CallStart c]) @ calls)))"

text \<open>What the \<open>select\<close> sees first: the signal, or the error of \<open>ListenAndServe\<close>.\<close>

datatype server_end = Signalled | Served "gerr option"

text \<open>The error sent on \<open>errCh\<close>: \<open>http.ErrServerClosed\<close> counts as a clean end.\<close>

definition not_closed :: "gerr option \<Rightarrow> gerr option" where
  "not_closed e = (case e of None \<Rightarrow> None | Some err \<Rightarrow> if errors_Is err ErrServerClosed then None else Some err)"

record options =
  o_ShutdownTimeout :: int
  o_Backgrounds :: "component option list"
  o_Closers :: "component option list"

definition shutdown_timeout :: "options \<Rightarrow> int" where
  "shutdown_timeout opts = (if o_ShutdownTimeout opts \<le> 0 then 10 * second else o_ShutdownTimeout opts)"

text \<open>
  \<open>srv\<close> tells whether the server is not nil, \<open>race\<close> what ends the wait, \<open>down\<close> the answer
  of \<open>srv.Shutdown\<close>.
\<close>

definition RunHTTP :: "bool \<Rightarrow> server_end \<Rightarrow> gerr option \<Rightarrow> options \<Rightarrow> gerr option \<times> call list" where
  "RunHTTP srv race down opts =
     (if \<not> srv then (Some (Errorf ''http server is nil'' []), [])
      else let timeout = shutdown_timeout opts in
      case start_loop (o_Backgrounds opts) [] of
        (Some err, started, starts) \<Rightarrow>
          (Some err, starts @ snd (stopBackgrounds (map Some started) timeout)
             @ snd (closeResources (o_Closers opts)))
      | (None, started, starts) \<Rightarrow>
          let serveErr = (case race of Signalled \<Rightarrow> None | Served e \<Rightarrow> not_closed e);
              result = (if not_closed down = None then None else errors_Join [None, down]);
              (stopErr, stops) = stopBackgrounds (map Some started) timeout;
              result = errors_Join [result, stopErr];
              (closeErr, closes) = closeResources (o_Closers opts);
              result = errors_Join [result, closeErr];
              result = (if serveErr \<noteq> None then errors_Join [serveErr, result] else result)
          in (result, starts @ [CallServe, CallShutdown timeout] @ stops @ closes))"

section \<open>Lemmas\<close>

text \<open>The calls of the two shutdown loops do not depend on errors.\<close>

definition present :: "'a option list \<Rightarrow> 'a list" where
  "present xs = List.map_filter (\<lambda>x. x) xs"

lemma present_simps [simp]:
  "present [] = []" "present (None # xs) = present xs" "present (Some x # xs) = x # present xs"
  by (simp_all add: present_def)

lemma present_append [simp]: "present (xs @ ys) = present xs @ present ys"
proof (induction xs)
  case (Cons x xs)
  then show ?case by (cases x) auto
qed simp

lemma present_rev [simp]: "present (rev xs) = rev (present xs)"
proof (induction xs)
  case (Cons x xs)
  then show ?case by (cases x) auto
qed simp

lemma present_map_Some [simp]: "present (map Some xs) = xs"
  by (induction xs) auto

lemma stop_loop_calls: "snd (stop_loop t cs r) = concat (map (\<lambda>c. snd (stop_one t c)) (present cs))"
  by (induction t cs r rule: stop_loop.induct) (auto split: prod.splits)

lemma close_loop_calls: "snd (close_loop cs r) = map CallClose (present cs)"
  by (induction cs r rule: close_loop.induct) (auto simp: Let_def split: prod.splits)

lemma stopBackgrounds_calls:
  "snd (stopBackgrounds services t) = concat (map (\<lambda>c. snd (stop_one t c)) (rev (present services)))"
  by (simp add: stopBackgrounds_def stop_loop_calls)

lemma closeResources_calls: "snd (closeResources closers) = map CallClose (rev (present closers))"
  by (simp add: closeResources_def close_loop_calls)

text \<open>The joined error: nil exactly when every call was clean, and it carries each error.\<close>

definition stop_error :: "component \<Rightarrow> gerr option" where
  "stop_error c = (case cp_stop c of None \<Rightarrow> None | Some r \<Rightarrow> r)"

definition close_error :: "component \<Rightarrow> gerr option" where
  "close_error c = (case cp_close c of None \<Rightarrow> None | Some r \<Rightarrow> r)"

text \<open>\<open>reports e s\<close>: the error is not nil and \<open>errors.Is\<close> finds \<open>s\<close> in it.\<close>

definition reports :: "gerr option \<Rightarrow> sentinel \<Rightarrow> bool" where
  "reports e s \<longleftrightarrow> (\<exists>x. e = Some x \<and> errors_Is x s)"

lemma reports_simps [simp]: "\<not> reports None s" "reports (Some x) s \<longleftrightarrow> errors_Is x s"
  by (auto simp: reports_def)

lemma reports_Join [simp]: "reports (errors_Join es) s \<longleftrightarrow> (\<exists>e \<in> set es. reports e s)"
proof (cases "errors_Join es")
  case None
  then have "\<forall>e \<in> set es. e = None" by simp
  then show ?thesis unfolding None by auto
next
  case (Some j)
  with errors_Is_Join [OF Some, of s] show ?thesis by (auto simp: reports_def)
qed

lemma stop_loop_error:
  "fst (stop_loop t cs r) = None \<longleftrightarrow> r = None \<and> (\<forall>c \<in> set (present cs). stop_error c = None)"
  "reports (fst (stop_loop t cs r)) s \<longleftrightarrow> reports r s \<or> (\<exists>c \<in> set (present cs). reports (stop_error c) s)"
  by (induction t cs r rule: stop_loop.induct)
    (auto simp: stop_one_def stop_error_def split: prod.splits option.splits if_splits)

lemma close_loop_error:
  "fst (close_loop cs r) = None \<longleftrightarrow> r = None \<and> (\<forall>c \<in> set (present cs). close_error c = None)"
  "reports (fst (close_loop cs r)) s \<longleftrightarrow> reports r s \<or> (\<exists>c \<in> set (present cs). reports (close_error c) s)"
  by (induction cs r rule: close_loop.induct)
    (auto simp: close_error_def Let_def split: prod.splits option.splits if_splits)

lemma present_eq_set: "c \<in> set (present xs) \<longleftrightarrow> Some c \<in> set xs"
proof (induction xs)
  case (Cons x xs)
  then show ?case by (cases x) auto
qed simp

text \<open>
  The start loop: the services started are an initial part of those present, all of them
  when it succeeds; when it fails, the next one is the service whose \<open>Start\<close> failed.
\<close>

definition start_calls :: "component list \<Rightarrow> call list" where
  "start_calls cs = map CallStart (filter is_Background cs)"

definition start_clean :: "component \<Rightarrow> bool" where
  "start_clean c \<longleftrightarrow> cp_start c \<in> {None, Some None}"

lemma start_loop_ok:
  "list_all start_clean (present cs) \<Longrightarrow>
   start_loop cs started = (None, started @ present cs, start_calls (present cs))"
  by (induction cs started rule: start_loop.induct)
    (auto simp: start_clean_def start_calls_def is_Background_def split: option.splits)

lemma start_loop_fail:
  "present cs = pre @ c # post \<Longrightarrow> list_all start_clean pre \<Longrightarrow> cp_start c = Some (Some err) \<Longrightarrow>
   start_loop cs started = (Some err, started @ pre, start_calls pre @ [CallStart c])"
proof (induction cs arbitrary: pre started)
  case (Cons x cs)
  show ?case
  proof (cases x)
    case None
    with Cons show ?thesis by simp
  next
    case (Some d)
    show ?thesis
    proof (cases pre)
      case Nil
      with Cons.prems Some show ?thesis by (simp add: start_calls_def)
    next
      case (Cons p pre')
      with Cons.prems Some have d: "d = p" "present cs = pre' @ c # post" "start_clean p" "list_all start_clean pre'"
        by auto
      from Cons.IH [OF d(2,4) Cons.prems(3), of "started @ [d]"] d Cons Some show ?thesis
        by (cases "cp_start d") (auto simp: start_clean_def start_calls_def is_Background_def)
    qed
  qed
qed simp

text \<open>A list of services either starts cleanly or has a first failing one.\<close>

lemma start_split:
  "list_all start_clean cs \<or>
   (\<exists>pre c post err. cs = pre @ c # post \<and> list_all start_clean pre \<and> cp_start c = Some (Some err))"
proof (induction cs)
  case (Cons d cs)
  show ?case
  proof (cases "start_clean d")
    case True
    from Cons show ?thesis
    proof
      assume "list_all start_clean cs"
      with True show ?thesis by simp
    next
      assume "\<exists>pre c post err. cs = pre @ c # post \<and> list_all start_clean pre \<and> cp_start c = Some (Some err)"
      then obtain pre c post err where "cs = pre @ c # post" "list_all start_clean pre" "cp_start c = Some (Some err)"
        by blast
      with True have "d # cs = (d # pre) @ c # post \<and> list_all start_clean (d # pre) \<and> cp_start c = Some (Some err)"
        by simp
      then show ?thesis by blast
    qed
  next
    case False
    then obtain err where "cp_start d = Some (Some err)"
      by (auto simp: start_clean_def)
    then have "d # cs = [] @ d # cs \<and> list_all start_clean [] \<and> cp_start d = Some (Some err)" by simp
    then show ?thesis by blast
  qed
qed simp

lemma RunHTTP_ok_calls:
  assumes "list_all start_clean (present (o_Backgrounds opts))"
  shows "snd (RunHTTP True race down opts) =
    start_calls (present (o_Backgrounds opts)) @ [CallServe, CallShutdown (shutdown_timeout opts)]
    @ concat (map (\<lambda>c. snd (stop_one (shutdown_timeout opts) c)) (rev (present (o_Backgrounds opts))))
    @ map CallClose (rev (present (o_Closers opts)))"
  using start_loop_ok [OF assms, of "[]"]
    stopBackgrounds_calls [of "map Some (present (o_Backgrounds opts))" "shutdown_timeout opts"]
    closeResources_calls [of "o_Closers opts"]
  by (auto simp: RunHTTP_def Let_def split: prod.splits)

lemma RunHTTP_fail_calls:
  assumes "present (o_Backgrounds opts) = pre @ c # post" "list_all start_clean pre"
    "cp_start c = Some (Some err)"
  shows "RunHTTP True race down opts =
    (Some err, start_calls pre @ [CallStart c]
      @ concat (map (\<lambda>c. snd (stop_one (shutdown_timeout opts) c)) (rev pre))
      @ map CallClose (rev (present (o_Closers opts))))"
  using start_loop_fail [OF assms, of "[]"]
  by (simp add: RunHTTP_def stopBackgrounds_calls closeResources_calls)

section \<open>Properties\<close>

text \<open>
  When every background service starts, \<open>RunHTTP\<close> starts them in order, serves, shuts the
  server down, then stops and awaits the services and closes the resources, each in reverse
  order; no error of a step keeps a later step from running.
\<close>

theorem run_http_order:
  assumes "list_all start_clean (present (o_Backgrounds opts))"
  shows "snd (RunHTTP True race down opts) =
    start_calls (present (o_Backgrounds opts)) @ [CallServe, CallShutdown (shutdown_timeout opts)]
    @ concat (map (\<lambda>c. snd (stop_one (shutdown_timeout opts) c)) (rev (present (o_Backgrounds opts))))
    @ map CallClose (rev (present (o_Closers opts)))"
  by (rule RunHTTP_ok_calls [OF assms])

text \<open>Services for the instances below.\<close>

definition sample :: "nat \<Rightarrow> gerr option option \<Rightarrow> gerr option option \<Rightarrow> gerr option option \<Rightarrow> component" where
  "sample n st sp cl = \<lparr>cp_type = ''*svc'', cp_id = n, cp_start = st, cp_stop = sp, cp_wait = False, cp_close = cl\<rparr>"

definition sample_options :: "component option list \<Rightarrow> component option list \<Rightarrow> options" where
  "sample_options bs cs = \<lparr>o_ShutdownTimeout = 5, o_Backgrounds = bs, o_Closers = cs\<rparr>"

lemmas sample_defs = sample_def sample_options_def shutdown_timeout_def start_calls_def stop_one_def
  is_Background_def is_Stopper_def is_Waiter_def start_clean_def stop_error_def close_error_def

theorem run_http_order_witness:
  "snd (RunHTTP True Signalled None (sample_options
     [Some (sample 1 (Some None) (Some None) None), None, Some (sample 2 None (Some (Some (Sentinel ErrEOF))) None)]
     [Some (sample 3 None None (Some None)), Some (sample 4 None None (Some None))])) =
   [CallStart (sample 1 (Some None) (Some None) None), CallServe, CallShutdown 5,
    CallStop (sample 2 None (Some (Some (Sentinel ErrEOF))) None) 5, CallStop (sample 1 (Some None) (Some None) None) 5,
    CallClose (sample 4 None None (Some None)), CallClose (sample 3 None None (Some None))]"
  using run_http_order [of "sample_options
     [Some (sample 1 (Some None) (Some None) None), None, Some (sample 2 None (Some (Some (Sentinel ErrEOF))) None)]
     [Some (sample 3 None None (Some None)), Some (sample 4 None None (Some None))]" Signalled None]
  by (simp add: sample_defs)

text \<open>
  When a background service fails to start, \<open>RunHTTP\<close> returns that error, does not serve,
  stops exactly the services that come before the failed one, and closes every resource.
\<close>

theorem run_http_failed_start:
  assumes "present (o_Backgrounds opts) = pre @ c # post" "list_all start_clean pre"
    and "cp_start c = Some (Some err)"
  shows "RunHTTP True race down opts =
    (Some err,
     start_calls pre @ [CallStart c]
      @ concat (map (\<lambda>c. snd (stop_one (shutdown_timeout opts) c)) (rev pre))
      @ map CallClose (rev (present (o_Closers opts))))"
  by (rule RunHTTP_fail_calls [OF assms])

theorem run_http_failed_start_witness:
  "fst (RunHTTP True Signalled None (sample_options
     [Some (sample 1 (Some None) (Some None) None), Some (sample 2 (Some (Some (Sentinel ErrEOF))) (Some None) None)]
     [Some (sample 3 None None (Some None))])) = Some (Sentinel ErrEOF)"
  using run_http_failed_start [of "sample_options
     [Some (sample 1 (Some None) (Some None) None), Some (sample 2 (Some (Some (Sentinel ErrEOF))) (Some None) None)]
     [Some (sample 3 None None (Some None))]" "[sample 1 (Some None) (Some None) None]"
     "sample 2 (Some (Some (Sentinel ErrEOF))) (Some None) None" "[]" "Sentinel ErrEOF" Signalled None]
  by (simp add: sample_defs)

text \<open>The error of the server's end that is returned.\<close>

definition serve_error :: "server_end \<Rightarrow> gerr option" where
  "serve_error race = (case race of Signalled \<Rightarrow> None | Served e \<Rightarrow> not_closed e)"

text \<open>
  C18: After a clean start, \<open>RunHTTP\<close> returns nil exactly when the server ended cleanly, its
  shutdown was clean, and no \<open>Stop\<close> and no \<open>Close\<close> returned an error; and the error it returns
  otherwise reports each of those errors under \<open>errors.Is\<close>.
\<close>

theorem run_http_reports_every_error:
  assumes "list_all start_clean (present (o_Backgrounds opts))"
  shows "(fst (RunHTTP True race down opts) = None \<longleftrightarrow>
      serve_error race = None \<and> not_closed down = None \<and>
      (\<forall>c \<in> set (present (o_Backgrounds opts)). stop_error c = None) \<and>
      (\<forall>c \<in> set (present (o_Closers opts)). close_error c = None)) \<and>
    (\<forall>s. reports (fst (RunHTTP True race down opts)) s \<longleftrightarrow>
      reports (serve_error race) s \<or> (not_closed down \<noteq> None \<and> reports down s) \<or>
      (\<exists>c \<in> set (present (o_Backgrounds opts)). reports (stop_error c) s) \<or>
      (\<exists>c \<in> set (present (o_Closers opts)). reports (close_error c) s))"
proof -
  let ?t = "shutdown_timeout opts" and ?bs = "present (o_Backgrounds opts)"
  obtain se sc where st: "stopBackgrounds (map Some ?bs) ?t = (se, sc)" by fastforce
  obtain ce cc where cl: "closeResources (o_Closers opts) = (ce, cc)" by fastforce
  let ?down = "if not_closed down = None then None else errors_Join [None, down]"
  let ?rest = "errors_Join [errors_Join [?down, se], ce]"
  have r: "fst (RunHTTP True race down opts) = (if serve_error race \<noteq> None then errors_Join [serve_error race, ?rest] else ?rest)"
    using start_loop_ok [OF assms(1), of "[]"] st cl by (simp add: RunHTTP_def serve_error_def Let_def)
  have se: "se = None \<longleftrightarrow> (\<forall>c \<in> set ?bs. stop_error c = None)"
      "\<And>s. reports se s \<longleftrightarrow> (\<exists>c \<in> set ?bs. reports (stop_error c) s)"
    using st stop_loop_error [of ?t "rev (map Some ?bs)" None] by (simp_all add: stopBackgrounds_def)
  have ce: "ce = None \<longleftrightarrow> (\<forall>c \<in> set (present (o_Closers opts)). close_error c = None)"
      "\<And>s. reports ce s \<longleftrightarrow> (\<exists>c \<in> set (present (o_Closers opts)). reports (close_error c) s)"
    using cl close_loop_error [of "rev (o_Closers opts)" None] by (simp_all add: closeResources_def)
  have dn: "down = None \<Longrightarrow> not_closed down = None" by (simp add: not_closed_def)
  show ?thesis
  proof (intro conjI allI)
    show "fst (RunHTTP True race down opts) = None \<longleftrightarrow>
      serve_error race = None \<and> not_closed down = None \<and> (\<forall>c \<in> set ?bs. stop_error c = None) \<and>
      (\<forall>c \<in> set (present (o_Closers opts)). close_error c = None)"
      unfolding r using se(1) ce(1) dn by auto
    fix s
    show "reports (fst (RunHTTP True race down opts)) s \<longleftrightarrow>
      reports (serve_error race) s \<or> (not_closed down \<noteq> None \<and> reports down s) \<or>
      (\<exists>c \<in> set ?bs. reports (stop_error c) s) \<or>
      (\<exists>c \<in> set (present (o_Closers opts)). reports (close_error c) s)"
      unfolding r using se(2) [of s] ce(2) [of s] by (cases "serve_error race") auto
  qed
qed

theorem run_http_reports_every_error_witness:
  "reports (fst (RunHTTP True (Served (Some (Sentinel ErrServerClosed))) None (sample_options
     [Some (sample 1 (Some None) (Some (Some (Sentinel ErrEOF))) None)] [Some (sample 2 None None (Some None))]))) ErrEOF"
  using run_http_reports_every_error [of "sample_options
     [Some (sample 1 (Some None) (Some (Some (Sentinel ErrEOF))) None)] [Some (sample 2 None None (Some None))]"
     "Served (Some (Sentinel ErrServerClosed))" None]
  by (simp add: sample_defs)

end
