(* ===== verification/DI_Container.thy ===== *)
theory DI_Container
  imports App_Runtime
begin

text \<open>
  The component registry of \<open>di/container.go\<close>: components by type and by name, and the
  lists of background services and closers collected for \<open>app.RunHTTP\<close>. Every operation
  holds the container's lock, so each is one step. A component stored as \<open>any\<close> is an
  optional \<open>component\<close>; a nil container is \<^term>\<open>None\<close>.
\<close>

section \<open>State and operations\<close>

text \<open>
  A type parameter \<open>T\<close>: its name (the key \<open>reflect.TypeFor[T]()\<close>, never nil) and whether
  the type assertion \<open>value.(T)\<close> succeeds on a non-nil value. On a nil value it never does.
\<close>

record gotype =
  ty_name :: string
  ty_has :: "component \<Rightarrow> bool"

record Container =
  ct_values :: "string \<rightharpoonup> component option"
  ct_names :: "string \<rightharpoonup> component option"
  ct_backgrounds :: "component list"
  ct_closers :: "component list"

definition New :: Container where
  "New = \<lparr>ct_values = Map.empty, ct_names = Map.empty, ct_backgrounds = [], ct_closers = []\<rparr>"

definition collectLifecycle :: "component option \<Rightarrow> Container \<Rightarrow> Container" where
  "collectLifecycle value ct =
     (case value of None \<Rightarrow> ct
      | Some c \<Rightarrow>
          let ct = (if is_Background c then ct\<lparr>ct_backgrounds := ct_backgrounds ct @ [c]\<rparr>
                    else if is_Stopper c then ct\<lparr>ct_backgrounds := ct_backgrounds ct @ [c]\<rparr>
                    else if is_Waiter c then ct\<lparr>ct_backgrounds := ct_backgrounds ct @ [c]\<rparr>
                    else ct)
          in if is_Closer c then ct\<lparr>ct_closers := ct_closers ct @ [c]\<rparr> else ct)"

definition nil_container :: gerr where
  "nil_container = Errorf ''container is nil'' []"

text \<open>\<open>register\<close> is the common body of \<open>Register\<close> and \<open>RegisterNoLifecycle\<close>.\<close>

definition register ::
  "gotype \<Rightarrow> component option \<Rightarrow> bool \<Rightarrow> Container option \<Rightarrow> gerr option \<times> Container option" where
  "register T value collect cto =
     (case cto of None \<Rightarrow> (Some nil_container, None)
      | Some ct \<Rightarrow>
          if ct_values ct (ty_name T) \<noteq> None
          then (Some (Wrapf ''%w: %s'' (Sentinel ErrDuplicate) [ty_name T]), Some ct)
          else let ct = ct\<lparr>ct_values := (ct_values ct)(ty_name T \<mapsto> value)\<rparr> in
               (None, Some (if collect then collectLifecycle value ct else ct)))"

definition Register :: "gotype \<Rightarrow> component option \<Rightarrow> Container option \<Rightarrow> gerr option \<times> Container option" where
  "Register T value = register T value True"

definition RegisterNoLifecycle ::
  "gotype \<Rightarrow> component option \<Rightarrow> Container option \<Rightarrow> gerr option \<times> Container option" where
  "RegisterNoLifecycle T value = register T value False"

definition Replace :: "gotype \<Rightarrow> component option \<Rightarrow> Container option \<Rightarrow> Container option" where
  "Replace T value cto =
     (case cto of None \<Rightarrow> None
      | Some ct \<Rightarrow>
          Some (collectLifecycle value (ct\<lparr>ct_values := (ct_values ct)(ty_name T \<mapsto> value)\<rparr>)))"

text \<open>The type assertion at the end of a lookup.\<close>

definition typed :: "gotype \<Rightarrow> string \<Rightarrow> component option \<Rightarrow> gerr + component" where
  "typed T what value =
     (case value of
        Some c \<Rightarrow> (if ty_has T c then Inr c
                  else Inl (Errorf ''component %s has unexpected type %T'' [what, cp_type c]))
      | None \<Rightarrow> Inl (Errorf ''component %s has unexpected type %T'' [what, ''<nil>'']))"

definition Resolve :: "gotype \<Rightarrow> Container option \<Rightarrow> gerr + component" where
  "Resolve T cto =
     (case cto of None \<Rightarrow> Inl nil_container
      | Some ct \<Rightarrow>
          (case ct_values ct (ty_name T) of
             None \<Rightarrow> Inl (Wrapf ''%w: %s'' (Sentinel ErrComponentNotFound) [ty_name T])
           | Some value \<Rightarrow> typed T (ty_name T) value))"

definition empty_name :: gerr where
  "empty_name = Errorf ''component name is empty'' []"

definition RegisterName ::
  "string \<Rightarrow> component option \<Rightarrow> Container option \<Rightarrow> gerr option \<times> Container option" where
  "RegisterName name value cto =
     (case cto of None \<Rightarrow> (Some nil_container, None)
      | Some ct \<Rightarrow>
          if name = [] then (Some empty_name, Some ct)
          else if ct_names ct name \<noteq> None
          then (Some (Wrapf ''%w: %s'' (Sentinel ErrDuplicate) [name]), Some ct)
          else (None, Some (collectLifecycle value (ct\<lparr>ct_names := (ct_names ct)(name \<mapsto> value)\<rparr>))))"

definition ReplaceName :: "string \<Rightarrow> component option \<Rightarrow> Container option \<Rightarrow> Container option" where
  "ReplaceName name value cto =
     (case cto of None \<Rightarrow> None
      | Some ct \<Rightarrow>
          if name = [] then Some ct
          else Some (collectLifecycle value (ct\<lparr>ct_names := (ct_names ct)(name \<mapsto> value)\<rparr>)))"

definition ResolveName :: "gotype \<Rightarrow> string \<Rightarrow> Container option \<Rightarrow> gerr + component" where
  "ResolveName T name cto =
     (case cto of None \<Rightarrow> Inl nil_container
      | Some ct \<Rightarrow>
          if name = [] then Inl empty_name
          else (case ct_names ct name of
                  None \<Rightarrow> Inl (Wrapf ''%w: %s'' (Sentinel ErrComponentNotFound) [name])
                | Some value \<Rightarrow> typed T name value))"

text \<open>The \<open>Must\<close> variants panic with the error.\<close>

definition must :: "gerr option \<times> 'a \<Rightarrow> 'a outcome" where
  "must r = (case r of (Some err, _) \<Rightarrow> Panic err | (None, x) \<Rightarrow> Return x)"

definition must_value :: "gerr + 'a \<Rightarrow> 'a outcome" where
  "must_value r = (case r of Inl err \<Rightarrow> Panic err | Inr x \<Rightarrow> Return x)"

definition MustRegister :: "gotype \<Rightarrow> component option \<Rightarrow> Container option \<Rightarrow> Container option outcome" where
  "MustRegister T value cto = must (Register T value cto)"

definition MustRegisterNoLifecycle ::
  "gotype \<Rightarrow> component option \<Rightarrow> Container option \<Rightarrow> Container option outcome" where
  "MustRegisterNoLifecycle T value cto = must (RegisterNoLifecycle T value cto)"

definition MustRegisterName ::
  "string \<Rightarrow> component option \<Rightarrow> Container option \<Rightarrow> Container option outcome" where
  "MustRegisterName name value cto = must (RegisterName name value cto)"

definition MustResolve :: "gotype \<Rightarrow> Container option \<Rightarrow> component outcome" where
  "MustResolve T cto = must_value (Resolve T cto)"

definition MustResolveName :: "gotype \<Rightarrow> string \<Rightarrow> Container option \<Rightarrow> component outcome" where
  "MustResolveName T name cto = must_value (ResolveName T name cto)"

definition AddBackground :: "component option \<Rightarrow> Container option \<Rightarrow> Container option" where
  "AddBackground service cto =
     (case (cto, service) of
        (Some ct, Some c) \<Rightarrow> Some (ct\<lparr>ct_backgrounds := ct_backgrounds ct @ [c]\<rparr>)
      | _ \<Rightarrow> cto)"

definition AddCloser :: "component option \<Rightarrow> Container option \<Rightarrow> Container option" where
  "AddCloser closer cto =
     (case (cto, closer) of
        (Some ct, Some c) \<Rightarrow> Some (ct\<lparr>ct_closers := ct_closers ct @ [c]\<rparr>)
      | _ \<Rightarrow> cto)"

definition Backgrounds :: "Container option \<Rightarrow> component list" where
  "Backgrounds cto = (case cto of None \<Rightarrow> [] | Some ct \<Rightarrow> ct_backgrounds ct)"

definition Closers :: "Container option \<Rightarrow> component list" where
  "Closers cto = (case cto of None \<Rightarrow> [] | Some ct \<Rightarrow> ct_closers ct)"

section \<open>Lookups after registrations\<close>

lemma collectLifecycle_tables [simp]:
  "ct_values (collectLifecycle v ct) = ct_values ct"
  "ct_names (collectLifecycle v ct) = ct_names ct"
  by (auto simp: collectLifecycle_def Let_def split: option.splits)

text \<open>
  One contract for both tables: \<open>put\<close> refuses a present key and otherwise stores, \<open>swap\<close>
  always stores, \<open>look\<close> reads. \<open>other\<close> is the rest of the lookups, which must not change.
\<close>

locale registry =
  fixes put :: "'k \<Rightarrow> component option \<Rightarrow> Container \<Rightarrow> gerr option \<times> Container option"
    and swap :: "'k \<Rightarrow> component option \<Rightarrow> Container \<Rightarrow> Container option"
    and look :: "Container \<Rightarrow> 'k \<Rightarrow> component option option"
    and valid :: "'k \<Rightarrow> bool"
    and same :: "'k \<Rightarrow> 'k \<Rightarrow> bool"
  assumes put_new: "valid k \<Longrightarrow> look ct k = None \<Longrightarrow>
      \<exists>ct'. put k v ct = (None, Some ct') \<and> look ct' k = Some v \<and>
            (\<forall>k'. \<not> same k k' \<longrightarrow> look ct' k' = look ct k')"
    and put_present: "valid k \<Longrightarrow> look ct k \<noteq> None \<Longrightarrow>
      \<exists>err. put k v ct = (Some err, Some ct) \<and> errors_Is err ErrDuplicate"
    and swap_any: "valid k \<Longrightarrow>
      \<exists>ct'. swap k v ct = Some ct' \<and> look ct' k = Some v \<and>
            (\<forall>k'. \<not> same k k' \<longrightarrow> look ct' k' = look ct k')"
begin

text \<open>A second \<open>put\<close> under the same key is refused and changes nothing.\<close>

lemma put_twice:
  assumes "valid k" "put k v ct = (None, Some ct')"
  shows "look ct' k = Some v"
    and "\<exists>err. put k v' ct' = (Some err, Some ct') \<and> errors_Is err ErrDuplicate"
proof -
  have "look ct k = None"
    using put_present [OF assms(1), of ct v] assms(2) by (cases "look ct k") auto
  with put_new [OF assms(1), of ct v] assms(2) show l: "look ct' k = Some v" by auto
  show "\<exists>err. put k v' ct' = (Some err, Some ct') \<and> errors_Is err ErrDuplicate"
    by (rule put_present [OF assms(1)]) (simp add: l)
qed

text \<open>\<open>swap\<close> overrides what \<open>put\<close> stored.\<close>

lemma put_then_swap:
  assumes "valid k" "put k v ct = (None, Some ct1)" "swap k v' ct1 = Some ct2"
  shows "look ct2 k = Some v'"
  using swap_any [OF assms(1), of v' ct1] assms(3) by auto

end

interpretation by_type: registry
  "\<lambda>T v ct. Register T v (Some ct)" "\<lambda>T v ct. Replace T v (Some ct)" "\<lambda>ct T. ct_values ct (ty_name T)"
  "\<lambda>_. True" "\<lambda>T T'. ty_name T = ty_name T'"
  by unfold_locales (auto simp: Register_def register_def Replace_def Let_def)

interpretation by_name: registry
  "\<lambda>n v ct. RegisterName n v (Some ct)" "\<lambda>n v ct. ReplaceName n v (Some ct)" "\<lambda>ct n. ct_names ct n"
  "\<lambda>n. n \<noteq> []" "(=)"
  by unfold_locales (auto simp: RegisterName_def ReplaceName_def Let_def)

section \<open>The lifecycle lists\<close>

definition runs_in_background :: "component \<Rightarrow> bool" where
  "runs_in_background c \<longleftrightarrow> is_Background c \<or> is_Stopper c \<or> is_Waiter c"

lemma collectLifecycle_lists:
  "ct_backgrounds (collectLifecycle v ct) =
     ct_backgrounds ct @ filter runs_in_background (present [v])"
  "ct_closers (collectLifecycle v ct) = ct_closers ct @ filter is_Closer (present [v])"
  by (cases v; auto simp: collectLifecycle_def runs_in_background_def Let_def)+

text \<open>
  The operations a program makes on a container, and a run of them. Errors are the caller's;
  the run goes on with the container the operation left.
\<close>

datatype dop =
    OpRegister gotype "component option"
  | OpRegisterNoLifecycle gotype "component option"
  | OpReplace gotype "component option"
  | OpRegisterName string "component option"
  | OpReplaceName string "component option"
  | OpAddBackground "component option"
  | OpAddCloser "component option"

fun apply_op :: "dop \<Rightarrow> Container option \<Rightarrow> Container option" where
  "apply_op (OpRegister T v) ct = snd (Register T v ct)"
| "apply_op (OpRegisterNoLifecycle T v) ct = snd (RegisterNoLifecycle T v ct)"
| "apply_op (OpReplace T v) ct = Replace T v ct"
| "apply_op (OpRegisterName n v) ct = snd (RegisterName n v ct)"
| "apply_op (OpReplaceName n v) ct = ReplaceName n v ct"
| "apply_op (OpAddBackground v) ct = AddBackground v ct"
| "apply_op (OpAddCloser v) ct = AddCloser v ct"

definition run_ops :: "dop list \<Rightarrow> Container option" where
  "run_ops ops = fold apply_op ops (Some New)"

text \<open>
  The values an operation hands to \<open>collectLifecycle\<close>, and those it adds without a test:
  depends on the container only through whether the key is free.
\<close>

fun collected :: "Container \<Rightarrow> dop \<Rightarrow> component list" where
  "collected ct (OpRegister T v) = (if ct_values ct (ty_name T) = None then present [v] else [])"
| "collected ct (OpRegisterNoLifecycle T v) = []"
| "collected ct (OpReplace T v) = present [v]"
| "collected ct (OpRegisterName n v) = (if n \<noteq> [] \<and> ct_names ct n = None then present [v] else [])"
| "collected ct (OpReplaceName n v) = (if n \<noteq> [] then present [v] else [])"
| "collected ct (OpAddBackground v) = []"
| "collected ct (OpAddCloser v) = []"

fun added_background :: "dop \<Rightarrow> component list" where
  "added_background (OpAddBackground v) = present [v]"
| "added_background _ = []"

fun added_closer :: "dop \<Rightarrow> component list" where
  "added_closer (OpAddCloser v) = present [v]"
| "added_closer _ = []"

lemma apply_op_lists:
  "\<exists>ct'. apply_op op (Some ct) = Some ct' \<and>
     ct_backgrounds ct' = ct_backgrounds ct @ filter runs_in_background (collected ct op) @ added_background op \<and>
     ct_closers ct' = ct_closers ct @ filter is_Closer (collected ct op) @ added_closer op"
proof (cases op)
  case (OpAddBackground v)
  then show ?thesis by (cases v) (auto simp: AddBackground_def)
next
  case (OpAddCloser v)
  then show ?thesis by (cases v) (auto simp: AddCloser_def)
qed (auto simp: Register_def RegisterNoLifecycle_def register_def Replace_def RegisterName_def
    ReplaceName_def Let_def collectLifecycle_lists)

text \<open>No operation removes anything from the lifecycle lists.\<close>

lemma apply_op_grows:
  "\<exists>ct' bs cs. apply_op op (Some ct) = Some ct' \<and>
     ct_backgrounds ct' = ct_backgrounds ct @ bs \<and> ct_closers ct' = ct_closers ct @ cs"
  using apply_op_lists [of op ct] by auto

lemma fold_ops_grow:
  "\<exists>ct' bs cs. fold apply_op ops (Some ct) = Some ct' \<and>
     ct_backgrounds ct' = ct_backgrounds ct @ bs \<and> ct_closers ct' = ct_closers ct @ cs"
proof (induction ops arbitrary: ct)
  case Nil
  then show ?case by simp
next
  case (Cons op ops)
  obtain ct1 bs cs where 1: "apply_op op (Some ct) = Some ct1"
    "ct_backgrounds ct1 = ct_backgrounds ct @ bs" "ct_closers ct1 = ct_closers ct @ cs"
    using apply_op_grows [of op ct] by blast
  obtain ct2 bs' cs' where "fold apply_op ops (Some ct1) = Some ct2"
    "ct_backgrounds ct2 = ct_backgrounds ct1 @ bs'" "ct_closers ct2 = ct_closers ct1 @ cs'"
    using Cons by blast
  with 1 show ?case by auto
qed

text \<open>
  A component the container hands out by type or name was registered; when it was not
  registered without lifecycle and has a \<open>Close\<close>, it is among the closers. The invariant over
  a run without \<open>RegisterNoLifecycle\<close>.
\<close>

definition closers_complete :: "Container \<Rightarrow> bool" where
  "closers_complete ct \<longleftrightarrow>
     (\<forall>k c. (ct_values ct k = Some (Some c) \<or> ct_names ct k = Some (Some c)) \<longrightarrow>
        (is_Closer c \<longrightarrow> c \<in> set (ct_closers ct)) \<and>
        (runs_in_background c \<longrightarrow> c \<in> set (ct_backgrounds ct)))"

fun with_lifecycle :: "dop \<Rightarrow> bool" where
  "with_lifecycle (OpRegisterNoLifecycle _ _) = False"
| "with_lifecycle _ = True"

lemma closers_complete_collect:
  assumes "closers_complete ct"
    and "\<And>k c. ct_values ct' k = Some (Some c) \<or> ct_names ct' k = Some (Some c) \<Longrightarrow>
          ct_values ct k = Some (Some c) \<or> ct_names ct k = Some (Some c) \<or> v = Some c"
    and "ct_closers ct' = ct_closers ct" "ct_backgrounds ct' = ct_backgrounds ct"
  shows "closers_complete (collectLifecycle v ct')"
  unfolding closers_complete_def
proof (intro allI impI)
  fix k c
  assume "ct_values (collectLifecycle v ct') k = Some (Some c) \<or> ct_names (collectLifecycle v ct') k = Some (Some c)"
  then have "ct_values ct k = Some (Some c) \<or> ct_names ct k = Some (Some c) \<or> v = Some c"
    using assms(2) [of k c] by simp
  then show "(is_Closer c \<longrightarrow> c \<in> set (ct_closers (collectLifecycle v ct'))) \<and>
      (runs_in_background c \<longrightarrow> c \<in> set (ct_backgrounds (collectLifecycle v ct')))"
    using assms(1,3,4) unfolding closers_complete_def by (auto simp: collectLifecycle_lists)
qed

lemma apply_op_closers_complete:
  assumes "with_lifecycle op" "closers_complete ct" "apply_op op (Some ct) = Some ct'"
  shows "closers_complete ct'"
proof (cases op)
  case (OpRegister T v)
  with assms show ?thesis
    by (auto simp: Register_def register_def Let_def split: if_splits intro!: closers_complete_collect [of ct])
next
  case (OpReplace T v)
  with assms show ?thesis
    by (auto simp: Replace_def split: if_splits intro!: closers_complete_collect [of ct])
next
  case (OpRegisterName n v)
  with assms show ?thesis
    by (auto simp: RegisterName_def split: if_splits intro!: closers_complete_collect [of ct])
next
  case (OpReplaceName n v)
  with assms show ?thesis
    by (auto simp: ReplaceName_def split: if_splits intro!: closers_complete_collect [of ct])
next
  case (OpAddBackground v)
  with assms show ?thesis
    by (cases v) (auto simp: AddBackground_def closers_complete_def)
next
  case (OpAddCloser v)
  with assms show ?thesis
    by (cases v) (auto simp: AddCloser_def closers_complete_def)
qed (use assms in auto)

lemma run_ops_closers_complete:
  "list_all with_lifecycle ops \<Longrightarrow> closers_complete ct \<Longrightarrow> fold apply_op ops (Some ct) = Some ct' \<Longrightarrow>
   closers_complete ct'"
proof (induction ops arbitrary: ct)
  case (Cons op ops)
  obtain ct1 where "apply_op op (Some ct) = Some ct1"
    using apply_op_grows [of op ct] by blast
  with Cons apply_op_closers_complete [of op ct ct1] show ?case by auto
qed simp

lemma closers_complete_New: "closers_complete New"
  by (simp add: closers_complete_def New_def)

section \<open>Properties\<close>

text \<open>
  A component registered under a free type is the one \<open>Resolve\<close> returns for that type, lookups
  of other types are unchanged, and a second registration under the type is refused as a
  duplicate and changes nothing.
\<close>

theorem register_then_resolve:
  assumes "ct_values ct (ty_name T) = None" "ty_has T c"
  shows "\<exists>ct'. Register T (Some c) (Some ct) = (None, Some ct') \<and> Resolve T (Some ct') = Inr c \<and>
    (\<forall>T'. ty_name T' \<noteq> ty_name T \<longrightarrow> Resolve T' (Some ct') = Resolve T' (Some ct)) \<and>
    (\<forall>v. \<exists>err. Register T v (Some ct') = (Some err, Some ct') \<and> errors_Is err ErrDuplicate)"
proof -
  have "\<exists>ct'. Register T (Some c) (Some ct) = (None, Some ct') \<and> ct_values ct' (ty_name T) = Some (Some c) \<and>
      (\<forall>k' :: gotype. ty_name T \<noteq> ty_name k' \<longrightarrow> ct_values ct' (ty_name k') = ct_values ct (ty_name k'))"
    by (rule by_type.put_new [OF TrueI assms(1)])
  then obtain ct' where
    p: "Register T (Some c) (Some ct) = (None, Some ct')" "ct_values ct' (ty_name T) = Some (Some c)"
      "\<forall>k' :: gotype. ty_name T \<noteq> ty_name k' \<longrightarrow> ct_values ct' (ty_name k') = ct_values ct (ty_name k')"
    by (elim exE conjE) (rule that)
  have "Resolve T (Some ct') = Inr c" using p(2) assms(2) by (simp add: Resolve_def typed_def)
  moreover have "\<forall>T'. ty_name T' \<noteq> ty_name T \<longrightarrow> Resolve T' (Some ct') = Resolve T' (Some ct)"
    using p(3) by (simp add: Resolve_def)
  moreover have "\<forall>v. \<exists>err. Register T v (Some ct') = (Some err, Some ct') \<and> errors_Is err ErrDuplicate"
    using by_type.put_twice(2) [OF _ p(1)] by blast
  ultimately show ?thesis using p(1) by blast
qed

theorem register_then_resolve_witness:
  "\<exists>ct'. Register \<lparr>ty_name = ''*svc'', ty_has = \<lambda>_. True\<rparr> (Some (sample 1 None None (Some None))) (Some New) = (None, Some ct') \<and>
     Resolve \<lparr>ty_name = ''*svc'', ty_has = \<lambda>_. True\<rparr> (Some ct') = Inr (sample 1 None None (Some None))"
  using register_then_resolve [of New "\<lparr>ty_name = ''*svc'', ty_has = \<lambda>_. True\<rparr>" "sample 1 None None (Some None)"]
  by (auto simp: New_def)

text \<open>
  After \<open>Replace\<close> the type resolves to the new component, but the component it replaced stays
  among the background services and closers, so a run of the program still starts, stops and
  closes it.
\<close>

theorem replace_keeps_old_lifecycle:
  assumes "ct_values ct (ty_name T) = None" "Register T (Some old) (Some ct) = (None, Some ct1)"
    and "Replace T (Some new) (Some ct1) = Some ct2" "ty_has T new"
  shows "Resolve T (Some ct2) = Inr new \<and>
    (is_Closer old \<longrightarrow> old \<in> set (Closers (Some ct2))) \<and>
    (runs_in_background old \<longrightarrow> old \<in> set (Backgrounds (Some ct2)))"
proof -
  have "ct_values ct2 (ty_name T) = Some (Some new)"
    by (rule by_type.put_then_swap [OF _ assms(2,3)]) simp
  then have "Resolve T (Some ct2) = Inr new" using assms(4) by (simp add: Resolve_def typed_def)
  moreover have "ct1 = collectLifecycle (Some old) (ct\<lparr>ct_values := (ct_values ct)(ty_name T \<mapsto> Some old)\<rparr>)"
    using assms(1,2) by (simp add: Register_def register_def Let_def)
  moreover have "ct2 = collectLifecycle (Some new) (ct1\<lparr>ct_values := (ct_values ct1)(ty_name T \<mapsto> Some new)\<rparr>)"
    using assms(3) by (simp add: Replace_def)
  ultimately show ?thesis
    by (simp add: Closers_def Backgrounds_def collectLifecycle_lists)
qed

theorem replace_keeps_old_lifecycle_witness:
  "\<exists>ct1 ct2. Register \<lparr>ty_name = ''*db'', ty_has = \<lambda>_. True\<rparr> (Some (sample 1 None None (Some None))) (Some New) = (None, Some ct1) \<and>
     Replace \<lparr>ty_name = ''*db'', ty_has = \<lambda>_. True\<rparr> (Some (sample 2 None None None)) (Some ct1) = Some ct2 \<and>
     Resolve \<lparr>ty_name = ''*db'', ty_has = \<lambda>_. True\<rparr> (Some ct2) = Inr (sample 2 None None None) \<and>
     sample 1 None None (Some None) \<in> set (Closers (Some ct2))"
proof -
  let ?T = "\<lparr>ty_name = ''*db'', ty_has = \<lambda>_. True\<rparr>"
  obtain ct1 where r: "Register ?T (Some (sample 1 None None (Some None))) (Some New) = (None, Some ct1)"
    by (simp add: Register_def register_def New_def Let_def)
  obtain ct2 where s: "Replace ?T (Some (sample 2 None None None)) (Some ct1) = Some ct2"
    by (simp add: Replace_def)
  from replace_keeps_old_lifecycle [OF _ r s] r s show ?thesis
    by (auto simp: New_def sample_def is_Closer_def)
qed

lemma resolved_managed:
  assumes "list_all with_lifecycle ops" "run_ops ops = Some ct"
    and "Resolve T (Some ct) = Inr c \<or> ResolveName T n (Some ct) = Inr c"
  shows "(is_Closer c \<longrightarrow> c \<in> set (Closers (Some ct))) \<and>
    (runs_in_background c \<longrightarrow> c \<in> set (Backgrounds (Some ct)))"
proof -
  have "closers_complete ct"
    using run_ops_closers_complete [OF assms(1) closers_complete_New] assms(2) by (simp add: run_ops_def)
  moreover have "ct_values ct (ty_name T) = Some (Some c) \<or> ct_names ct n = Some (Some c)"
    using assms(3) by (auto simp: Resolve_def ResolveName_def typed_def split: option.splits if_splits)
  ultimately show ?thesis unfolding closers_complete_def Closers_def Backgrounds_def by auto
qed

text \<open>
  Over any run of operations that does not register a component without its lifecycle, every
  component the container hands out by type or by name is among its closers when it can be
  closed, and among its background services when it runs in the background.
\<close>

theorem resolved_components_are_managed:
  assumes "list_all with_lifecycle ops" "run_ops ops = Some ct"
    and "Resolve T (Some ct) = Inr c \<or> ResolveName T n (Some ct) = Inr c"
  shows "(is_Closer c \<longrightarrow> c \<in> set (Closers (Some ct))) \<and>
    (runs_in_background c \<longrightarrow> c \<in> set (Backgrounds (Some ct)))"
  by (rule resolved_managed [OF assms])

theorem resolved_components_are_managed_witness:
  "\<exists>ct. run_ops [OpRegisterName ''db'' (Some (sample 1 None None (Some None)))] = Some ct \<and>
     ResolveName \<lparr>ty_name = ''*svc'', ty_has = \<lambda>_. True\<rparr> ''db'' (Some ct) = Inr (sample 1 None None (Some None)) \<and>
     sample 1 None None (Some None) \<in> set (Closers (Some ct))"
proof -
  let ?ops = "[OpRegisterName ''db'' (Some (sample 1 None None (Some None)))]"
  let ?T = "\<lparr>ty_name = ''*svc'', ty_has = \<lambda>_. True\<rparr>"
  obtain ct where ct: "run_ops ?ops = Some ct" "ct_names ct ''db'' = Some (Some (sample 1 None None (Some None)))"
    by (simp add: run_ops_def RegisterName_def New_def)
  then have r: "ResolveName ?T ''db'' (Some ct) = Inr (sample 1 None None (Some None))"
    by (simp add: ResolveName_def typed_def)
  have "sample 1 None None (Some None) \<in> set (Closers (Some ct))"
    using resolved_components_are_managed [of ?ops ct ?T _ "''db''"] ct(1) r by (simp add: sample_def is_Closer_def)
  with ct(1) r show ?thesis by blast
qed

end
