(* ===== verification/Storage_Path.thy ===== *)
theory Storage_Path
  imports Strconv
begin

text \<open>
  Object paths: \<open>storage/path.go\<close>, the URL helpers of \<open>storage/storage.go\<close>, and what they use
  of Go's \<open>path\<close> and \<open>path/filepath\<close> packages (Unix: both use \<open>/\<close>). The main fact is
  that an accepted object path consists of ordinary names only, so joining it to a root
  directory stays below that root.
\<close>

section \<open>\<open>path.Clean\<close>, \<open>path.Join\<close>, \<open>filepath.Ext\<close>\<close>

abbreviation slash :: char where
  "slash \<equiv> CHR ''/''"

definition rooted :: "string \<Rightarrow> bool" where
  "rooted p \<longleftrightarrow> HasPrefix p ''/''"

text \<open>
  One name of the path against the names kept so far, innermost first: empty names and \<open>.\<close>
  vanish, \<open>..\<close> removes the name before it, or vanishes at the root, or is kept.
\<close>

fun clean_step :: "bool \<Rightarrow> string list \<Rightarrow> string \<Rightarrow> string list" where
  "clean_step r stk c =
     (if c = [] \<or> c = ''.'' then stk
      else if c = ''..'' then
        (case stk of [] \<Rightarrow> if r then [] else [c]
         | x # xs \<Rightarrow> if x = ''..'' then c # stk else xs)
      else c # stk)"

definition clean_names :: "bool \<Rightarrow> string list \<Rightarrow> string list" where
  "clean_names r cs = rev (foldl (clean_step r) [] cs)"

definition render :: "bool \<Rightarrow> string list \<Rightarrow> string" where
  "render r cs =
     (if r then slash # JoinWith cs ''/''
      else if cs = [] then ''.'' else JoinWith cs ''/'')"

definition names_of :: "string \<Rightarrow> string list" where
  "names_of p = clean_names (rooted p) (Split p slash)"

definition Clean :: "string \<Rightarrow> string" where
  "Clean p = render (rooted p) (names_of p)"

text \<open>\<open>path.Join\<close> of two elements; \<open>filepath.Join\<close> is the same on Unix.\<close>

definition PathJoin :: "string \<Rightarrow> string \<Rightarrow> string" where
  "PathJoin a b =
     (if a = [] \<and> b = [] then []
      else Clean (JoinWith (filter (\<lambda>e. e \<noteq> []) [a, b]) ''/''))"

text \<open>\<open>filepath.Ext\<close>: from the last dot of the last name.\<close>

fun ext_rev :: "string \<Rightarrow> string \<Rightarrow> string" where
  "ext_rev [] acc = []"
| "ext_rev (c # cs) acc =
     (if c = slash then [] else if c = CHR ''.'' then c # acc else ext_rev cs (c # acc))"

definition Ext :: "string \<Rightarrow> string" where
  "Ext p = ext_rev (rev p) []"

section \<open>\<open>storage/path.go\<close>\<close>

text \<open>
  \<open>now.Format("200601")\<close>: year and month of a civil date, counted from the days since the
  epoch (proleptic Gregorian calendar, years starting in March inside the 400-year era).
  \<open>zone\<close> is the offset in seconds that the location of \<open>now\<close> has at that instant.
\<close>

definition civil_month :: "int \<Rightarrow> int \<times> int" where
  "civil_month days =
     (let z = days + 719468;
          era = z div 146097;
          doe = z mod 146097;
          yoe = (doe - doe div 1460 + doe div 36524 - doe div 146096) div 365;
          doy = doe - (365 * yoe + yoe div 4 - yoe div 100);
          mp = (5 * doy + 2) div 153;
          m = (if mp < 10 then mp + 3 else mp - 9);
          y = yoe + era * 400
      in (if m \<le> 2 then y + 1 else y, m))"

definition pad_int :: "nat \<Rightarrow> int \<Rightarrow> string" where
  "pad_int width i =
     (let ds = nat_digits (nat \<bar>i\<bar>)
      in (if i < 0 then ''-'' else []) @ replicate (width - length ds) (CHR ''0'') @ ds)"

definition Format200601 :: "(time \<Rightarrow> int) \<Rightarrow> time \<Rightarrow> string" where
  "Format200601 zone now =
     (let (y, m) = civil_month ((now div second + zone now) div 86400)
      in pad_int 4 y @ pad_int 2 m)"

text \<open>\<open>random\<close> is the answer of the random source (12 bytes, or an error).\<close>

definition makeObjectPath :: "(time \<Rightarrow> int) \<Rightarrow> gerr + bytes \<Rightarrow> time \<Rightarrow> string \<Rightarrow> string \<Rightarrow> gerr + string" where
  "makeObjectPath zone random now uid originalName =
     (let ext = ToLower (Ext originalName);
          ext = (if ext = [] then ''.bin'' else ext)
      in case random of
           Inl err \<Rightarrow> Inl err
         | Inr bs \<Rightarrow>
             let prefix = (if uid = [] then ''0'' else uid);
                 filename = prefix @ ''_'' @ EncodeToString bs @ ext
             in Inr (PathJoin (Format200601 zone now) filename))"

definition cleanObjectPath :: "string \<Rightarrow> gerr + string" where
  "cleanObjectPath value =
     (let value = ReplaceChar value (CHR 0x5C) slash;
          value = TrimPrefix value ''/'';
          cleaned = Clean value
      in if cleaned = ''.'' \<or> HasPrefix cleaned ''../'' \<or> cleaned = ''..''
         then Inl (Sentinel ErrInvalidPath)
         else Inr cleaned)"

definition splitDiskPath :: "string \<Rightarrow> (string \<times> string) option" where
  "splitDiskPath value =
     (case Cut value ''/'' of
        None \<Rightarrow> None
      | Some (diskName, objectPath) \<Rightarrow>
          if diskName = [] \<or> objectPath = [] then None else Some (diskName, objectPath))"

text \<open>
  URL options set the size; a later option overrides an earlier one.
\<close>

type_synonym URLOption = string

definition appendURLOptions :: "string \<Rightarrow> URLOption list \<Rightarrow> string" where
  "appendURLOptions result opts =
     (let size = foldl (\<lambda>_ s. s) [] opts in
      if size \<noteq> [] then result @ ''!'' @ size else result)"

definition publicURL :: "string \<Rightarrow> string \<Rightarrow> URLOption list \<Rightarrow> string" where
  "publicURL publicBaseURL objectPath opts =
     (case cleanObjectPath objectPath of
        Inl _ \<Rightarrow> []
      | Inr cleaned \<Rightarrow>
          if publicBaseURL = [] then []
          else let base = (if HasSuffix publicBaseURL ''/'' then publicBaseURL else publicBaseURL @ ''/'')
               in appendURLOptions (base @ TrimPrefix cleaned ''/'') opts)"

section \<open>Cleaned paths\<close>

text \<open>An ordinary name: not empty, not \<open>.\<close> or \<open>..\<close>, without a slash.\<close>

definition ordinary :: "string \<Rightarrow> bool" where
  "ordinary c \<longleftrightarrow> c \<noteq> [] \<and> c \<noteq> ''.'' \<and> c \<noteq> ''..'' \<and> slash \<notin> set c"

lemma clean_step_ordinary [simp]: "ordinary c \<Longrightarrow> clean_step r stk c = c # stk"
  by (simp add: ordinary_def)

declare clean_step.simps [simp del]

lemma foldl_ordinary: "list_all ordinary cs \<Longrightarrow> foldl (clean_step r) stk cs = rev cs @ stk"
  by (induction cs arbitrary: stk) simp_all

text \<open>
  The names kept: ordinary ones on top of some \<open>..\<close>, and none of those below a root.
\<close>

definition clean_stack :: "bool \<Rightarrow> string list \<Rightarrow> bool" where
  "clean_stack r stk \<longleftrightarrow> (\<exists>n os. stk = os @ replicate n ''..'' \<and> list_all ordinary os \<and> (r \<longrightarrow> n = 0))"

lemma clean_step_stack:
  assumes "clean_stack r stk" "slash \<notin> set c"
  shows "clean_stack r (clean_step r stk c)"
proof -
  obtain n os where stk: "stk = os @ replicate n ''..''" "list_all ordinary os" "r \<longrightarrow> n = 0"
    using assms(1) by (auto simp: clean_stack_def)
  consider (skip) "c = [] \<or> c = ''.''" | (up) "c = ''..''" | (name) "ordinary c"
    using assms(2) by (auto simp: ordinary_def)
  then show ?thesis
  proof cases
    case skip
    with assms(1) show ?thesis by (auto simp: clean_step.simps)
  next
    case name
    then have "clean_step r stk c = (c # os) @ replicate n ''..''" "list_all ordinary (c # os)"
      using stk by simp_all
    with stk(3) show ?thesis unfolding clean_stack_def by blast
  next
    case up
    show ?thesis
    proof (cases os)
      case (Cons x xs)
      with stk have "x \<noteq> ''..''" by (auto simp: ordinary_def)
      with up Cons stk have "clean_step r stk c = xs @ replicate n ''..''" "list_all ordinary xs"
        by (simp_all add: clean_step.simps)
      with stk(3) show ?thesis unfolding clean_stack_def by blast
    next
      case Nil
      show ?thesis
      proof (cases "r \<and> n = 0")
        case True
        with up Nil stk have "clean_step r stk c = []" by (simp add: clean_step.simps)
        then show ?thesis by (auto simp: clean_stack_def)
      next
        case False
        with stk(3) have "\<not> r" by auto
        with up Nil stk have "clean_step r stk c = [] @ replicate (Suc n) ''..''"
          by (cases n) (auto simp: clean_step.simps)
        with \<open>\<not> r\<close> show ?thesis
          unfolding clean_stack_def by (intro exI [of _ "Suc n"] exI [of _ "[]"]) simp
      qed
    qed
  qed
qed

lemma foldl_clean_stack:
  "clean_stack r stk \<Longrightarrow> \<forall>c \<in> set cs. slash \<notin> set c \<Longrightarrow> clean_stack r (foldl (clean_step r) stk cs)"
  by (induction cs arbitrary: stk) (simp_all add: clean_step_stack)

lemma names_of_shape:
  obtains n os where "names_of p = replicate n ''..'' @ os" "list_all ordinary os" "rooted p \<longrightarrow> n = 0"
proof -
  have "clean_stack (rooted p) (foldl (clean_step (rooted p)) [] (Split p slash))"
    by (rule foldl_clean_stack) (auto simp: clean_stack_def dest: Split_free)
  then obtain n os where "foldl (clean_step (rooted p)) [] (Split p slash) = os @ replicate n ''..''"
    "list_all ordinary os" "rooted p \<longrightarrow> n = 0"
    by (auto simp: clean_stack_def)
  then have "names_of p = replicate n ''..'' @ rev os" "list_all ordinary (rev os)" "rooted p \<longrightarrow> n = 0"
    by (simp_all add: names_of_def clean_names_def)
  then show ?thesis by (rule that)
qed

lemma JoinWith_dotdot: "JoinWith (''..'' # cs) ''/'' = ''..'' \<or> HasPrefix (JoinWith (''..'' # cs) ''/'') ''../''"
  by (cases cs) (auto simp: HasPrefix_def)

text \<open>
  The shape of an accepted path: ordinary names, at least one of them when it does not start
  with a slash.
\<close>

lemma cleanObjectPath_shape:
  assumes "cleanObjectPath v = Inr p"
  obtains r cs where "p = render r cs" "list_all ordinary cs" "r \<or> cs \<noteq> []"
proof -
  define w where "w = TrimPrefix (ReplaceChar v (CHR 0x5C) slash) ''/''"
  have p: "p = Clean w" "Clean w \<noteq> ''.''" "\<not> HasPrefix (Clean w) ''../''" "Clean w \<noteq> ''..''"
    using assms by (auto simp: cleanObjectPath_def w_def Let_def split: if_splits)
  obtain n os where sh: "names_of w = replicate n ''..'' @ os" "list_all ordinary os" "rooted w \<longrightarrow> n = 0"
    by (rule names_of_shape [of w])
  have "n = 0"
  proof (rule ccontr)
    assume "n \<noteq> 0"
    then obtain m where "n = Suc m" by (cases n) auto
    moreover from \<open>n \<noteq> 0\<close> sh(3) have "\<not> rooted w" by auto
    ultimately have "Clean w = JoinWith (''..'' # replicate m ''..'' @ os) ''/''"
      using sh(1) by (simp add: Clean_def render_def)
    with p JoinWith_dotdot show False by metis
  qed
  with sh have "p = render (rooted w) os" using p(1) by (simp add: Clean_def)
  moreover have "rooted w \<or> os \<noteq> []"
    using p sh \<open>n = 0\<close> by (auto simp: Clean_def render_def)
  ultimately show ?thesis using sh(2) that by blast
qed

section \<open>Joining below a root\<close>

lemma Split_append_any: "Split (a @ x # b) x = Split a x @ Split b x"
  by (induction a) (auto split: list.splits)

lemma ordinary_free: "list_all ordinary cs \<Longrightarrow> \<forall>p \<in> set cs. slash \<notin> set p"
  by (auto simp: list_all_iff ordinary_def)

lemma Split_render:
  assumes "list_all ordinary cs" "r \<or> cs \<noteq> []"
  shows "foldl (clean_step q) stk (Split (render r cs) slash) = rev cs @ stk"
proof (cases "cs = []")
  case True
  with assms show ?thesis by (simp add: render_def clean_step.simps)
next
  case False
  then have "Split (JoinWith cs ''/'') slash = cs"
    using Split_JoinWith [OF False ordinary_free [OF assms(1)]] by simp
  then show ?thesis
    using False foldl_ordinary [OF assms(1)] by (simp add: render_def clean_step.simps)
qed

lemma render_nonempty: "r \<or> cs \<noteq> [] \<Longrightarrow> list_all ordinary cs \<Longrightarrow> render r cs \<noteq> []"
  by (cases cs; cases "tl cs") (auto simp: render_def ordinary_def neq_Nil_conv)

text \<open>
  The names of a joined path are those of the root followed by those of the object path,
  and the result starts at the same place.
\<close>

lemma PathJoin_below:
  assumes "root \<noteq> []" "list_all ordinary cs" "r \<or> cs \<noteq> []"
  shows "PathJoin root (render r cs) = render (rooted root) (names_of root @ cs)"
proof -
  let ?p = "render r cs"
  have "?p \<noteq> []" by (rule render_nonempty [OF assms(3,2)])
  with assms(1) have j: "PathJoin root ?p = Clean (root @ slash # ?p)"
    by (simp add: PathJoin_def)
  have rt: "rooted (root @ slash # ?p) = rooted root"
    using assms(1) by (cases root) (simp_all add: rooted_def)
  have "names_of (root @ slash # ?p) = names_of root @ cs"
    unfolding names_of_def clean_names_def rt Split_append_any foldl_append Split_render [OF assms(2,3)]
    by simp
  with j rt show ?thesis by (simp add: Clean_def)
qed

lemma JoinWith_not_rooted:
  assumes "\<forall>c \<in> set cs. c \<noteq> [] \<and> slash \<notin> set c"
  shows "\<not> rooted (JoinWith cs ''/'')"
proof (cases cs)
  case (Cons c ds)
  with assms have "c \<noteq> [] \<and> slash \<notin> set c" by simp
  then obtain x xs where "c = x # xs" "slash \<noteq> x" by (cases c) simp_all
  with Cons show ?thesis by (cases ds) (simp_all add: rooted_def)
qed (simp add: rooted_def)

section \<open>Cleaning a rendered path\<close>

lemma foldl_dotdot:
  "foldl (clean_step False) (replicate m ''..'') (replicate n ''..'') = replicate (n + m) ''..''"
proof (induction n arbitrary: m)
  case (Suc n)
  have "clean_step False (replicate m ''..'') ''..'' = replicate (Suc m) ''..''"
    by (cases m) (simp_all add: clean_step.simps)
  with Suc.IH [of "Suc m"] show ?case by simp
qed simp

text \<open>
  Rendering and reading back a list of names in the shape \<^term>\<open>names_of\<close> yields.
\<close>

definition clean_shape :: "bool \<Rightarrow> string list \<Rightarrow> bool" where
  "clean_shape r ns \<longleftrightarrow> (\<exists>n os. ns = replicate n ''..'' @ os \<and> list_all ordinary os \<and> (r \<longrightarrow> n = 0))"

lemma clean_shape_names_of [simp]: "clean_shape (rooted p) (names_of p)"
  by (rule names_of_shape [of p]) (auto simp: clean_shape_def)

lemma clean_shape_append: "clean_shape r ns \<Longrightarrow> list_all ordinary cs \<Longrightarrow> clean_shape r (ns @ cs)"
proof -
  assume "clean_shape r ns" "list_all ordinary cs"
  then obtain n os where "ns = replicate n ''..'' @ os" "list_all ordinary os" "r \<longrightarrow> n = 0"
    by (auto simp: clean_shape_def)
  with \<open>list_all ordinary cs\<close> show ?thesis
    unfolding clean_shape_def by (intro exI [of _ n] exI [of _ "os @ cs"]) simp
qed

lemma clean_shape_ordinary: "list_all ordinary cs \<Longrightarrow> clean_shape r cs"
  unfolding clean_shape_def by (intro exI [of _ 0]) simp

lemma clean_shape_free:
  assumes "clean_shape r ns" "c \<in> set ns"
  shows "c \<noteq> [] \<and> slash \<notin> set c"
proof -
  from assms consider "c = ''..''" | "ordinary c"
    by (auto simp: clean_shape_def list_all_iff)
  then show ?thesis by cases (simp_all add: ordinary_def)
qed

lemma clean_shape_fold: "clean_shape r ns \<Longrightarrow> foldl (clean_step r) [] ns = rev ns"
proof -
  assume "clean_shape r ns"
  then obtain n os where ns: "ns = replicate n ''..'' @ os" "list_all ordinary os" "r \<longrightarrow> n = 0"
    by (auto simp: clean_shape_def)
  have "foldl (clean_step r) [] (replicate n ''..'') = replicate n ''..''"
    using ns(3) foldl_dotdot [of 0 n] by (cases r) simp_all
  then show ?thesis using foldl_ordinary [OF ns(2)] ns(1) by simp
qed

lemma rooted_slash [simp]: "rooted (slash # p)"
  by (simp add: rooted_def)

lemma rooted_dot [simp]: "\<not> rooted ''.''"
  by (simp add: rooted_def)

lemma Split_slash: "Split (slash # p) slash = [] # Split p slash"
  by simp

lemma clean_step_empty [simp]: "clean_step r stk [] = stk"
  by (simp add: clean_step.simps)

lemma rooted_render: "clean_shape r ns \<Longrightarrow> rooted (render r ns) = r"
  by (cases "r \<or> ns = []") (auto simp: render_def JoinWith_not_rooted clean_shape_free)

lemma names_of_render: "clean_shape r ns \<Longrightarrow> names_of (render r ns) = ns"
proof -
  assume c: "clean_shape r ns"
  then have fr: "\<forall>p \<in> set ns. slash \<notin> set p" using clean_shape_free by blast
  show ?thesis
  proof (cases "ns = []")
    case True
    then show ?thesis
      by (cases r) (simp_all add: names_of_def clean_names_def render_def clean_step.simps)
  next
    case False
    have "foldl (clean_step r) [] (Split (render r ns) slash) = rev ns"
      using Split_JoinWith [OF False fr] clean_shape_fold [OF c] False by (cases r) (simp_all add: render_def)
    then show ?thesis
      by (simp add: names_of_def clean_names_def rooted_render [OF c])
  qed
qed

lemma Clean_idem [simp]: "Clean (Clean p) = Clean p"
  using rooted_render [OF clean_shape_names_of, of p] names_of_render [OF clean_shape_names_of, of p]
  by (simp add: Clean_def)

section \<open>Accepting a path that was accepted before\<close>

lemma clean_step_chars: "c' \<in> set (clean_step r stk c) \<Longrightarrow> c' \<in> set stk \<or> c' = c"
  by (auto simp: clean_step.simps split: if_splits list.splits)

lemma foldl_clean_chars: "c' \<in> set (foldl (clean_step r) stk cs) \<Longrightarrow> c' \<in> set stk \<or> c' \<in> set cs"
proof (induction cs arbitrary: stk)
  case (Cons c cs)
  then have "c' \<in> set (clean_step r stk c) \<or> c' \<in> set cs" by simp
  with clean_step_chars show ?case by auto
qed simp

lemma Split_chars: "p \<in> set (Split s x) \<Longrightarrow> set p \<subseteq> set s"
  by (induction s arbitrary: p) (fastforce split: list.splits if_splits)+

lemma names_of_chars: "c \<in> set (names_of p) \<Longrightarrow> set c \<subseteq> set p"
  using foldl_clean_chars [of c "rooted p" "[]" "Split p slash"] Split_chars [of c p slash]
  by (auto simp: names_of_def clean_names_def)

lemma ReplaceChar_free: "x \<notin> set s \<Longrightarrow> ReplaceChar s x y = s"
  by (induction s) (auto simp: ReplaceChar_def)

lemma ReplaceChar_removes: "x \<noteq> y \<Longrightarrow> x \<notin> set (ReplaceChar s x y)"
  by (auto simp: ReplaceChar_def)

lemma JoinWith_chars: "set (JoinWith cs [x]) \<subseteq> insert x (\<Union> (set ` set cs))"
  by (induction cs rule: induct_list012) auto

abbreviation backslash :: char where
  "backslash \<equiv> CHR 0x5C"

lemma render_no_backslash: "\<forall>c \<in> set cs. backslash \<notin> set c \<Longrightarrow> backslash \<notin> set (render r cs)"
  using JoinWith_chars [of cs slash] by (auto simp: render_def)

text \<open>The shape again, now with the names known to be free of backslashes.\<close>

lemma cleanObjectPath_names:
  assumes "cleanObjectPath v = Inr p"
  obtains r cs where "p = render r cs" "list_all ordinary cs" "r \<or> cs \<noteq> []" "backslash \<notin> set p"
proof -
  define w where "w = TrimPrefix (ReplaceChar v backslash slash) ''/''"
  have w: "backslash \<notin> set w"
    using ReplaceChar_removes [of backslash slash v] unfolding w_def TrimPrefix_def
    by (auto dest: in_set_dropD)
  have p: "p = render (rooted w) (names_of w)"
    using assms by (auto simp: cleanObjectPath_def w_def Let_def Clean_def split: if_splits)
  have "backslash \<notin> set p"
    unfolding p by (rule render_no_backslash) (use w names_of_chars [of _ w] in auto)
  with cleanObjectPath_shape [OF assms] that show ?thesis by blast
qed

lemma JoinWith_not_dots:
  assumes "list_all ordinary cs" "cs \<noteq> []"
  shows "JoinWith cs ''/'' \<noteq> ''.''" "JoinWith cs ''/'' \<noteq> ''..''" "\<not> HasPrefix (JoinWith cs ''/'') ''../''"
proof -
  have sp: "Split (JoinWith cs ''/'') slash = cs"
    using Split_JoinWith [OF assms(2) ordinary_free [OF assms(1)]] by simp
  have no: "c \<in> set cs \<Longrightarrow> c \<noteq> ''.'' \<and> c \<noteq> ''..''" for c
    using assms(1) by (auto simp: list_all_iff ordinary_def)
  show "JoinWith cs ''/'' \<noteq> ''.''"
  proof
    assume "JoinWith cs ''/'' = ''.''"
    with sp have "cs = [''.'']" by simp
    with no [of "''.''"] show False by simp
  qed
  show "JoinWith cs ''/'' \<noteq> ''..''"
  proof
    assume "JoinWith cs ''/'' = ''..''"
    with sp have "cs = [''..'']" by simp
    with no [of "''..''"] show False by simp
  qed
  show "\<not> HasPrefix (JoinWith cs ''/'') ''../''"
  proof
    assume "HasPrefix (JoinWith cs ''/'') ''../''"
    then obtain r where "JoinWith cs ''/'' = ''../'' @ r" unfolding HasPrefix_iff ..
    with sp have "cs = Split (''..'' @ slash # r) slash" by simp
    then have "cs = ''..'' # Split r slash" by (simp add: Split_append)
    with no [of "''..''"] show False by simp
  qed
qed

text \<open>
  A path an operation reports is accepted again, as the same names; only the path \<open>/\<close> is not.
\<close>

lemma cleanObjectPath_again:
  assumes "cleanObjectPath v = Inr p" "p \<noteq> ''/''"
  obtains r cs where "p = render r cs" "list_all ordinary cs" "cs \<noteq> []"
    "cleanObjectPath p = Inr (render False cs)"
proof -
  obtain r cs where p: "p = render r cs" "list_all ordinary cs" "r \<or> cs \<noteq> []" "backslash \<notin> set p"
    by (rule cleanObjectPath_names [OF assms(1)])
  have ne: "cs \<noteq> []" using p(1,3) assms(2) by (auto simp: render_def)
  have "TrimPrefix p ''/'' = JoinWith cs ''/''"
  proof (cases r)
    case True
    then have "p = ''/'' @ JoinWith cs ''/''" using p(1) by (simp add: render_def)
    then show ?thesis by (simp only: TrimPrefix_append)
  next
    case False
    then have "p = JoinWith cs ''/''" using p(1) ne by (simp add: render_def)
    moreover have "\<not> rooted (JoinWith cs ''/'')"
      by (rule JoinWith_not_rooted) (use p(2) in \<open>auto simp: list_all_iff ordinary_def\<close>)
    ultimately show ?thesis by (simp add: TrimPrefix_def rooted_def)
  qed
  moreover have "Clean (JoinWith cs ''/'') = JoinWith cs ''/''"
    using names_of_render [OF clean_shape_ordinary [OF p(2)], of False]
      rooted_render [OF clean_shape_ordinary [OF p(2)], of False] ne
    by (simp add: Clean_def render_def)
  ultimately have "cleanObjectPath p = Inr (render False cs)"
    using JoinWith_not_dots [OF p(2) ne] ne
    by (simp add: cleanObjectPath_def ReplaceChar_free [OF p(4)] render_def)
  with p ne that show ?thesis by blast
qed

text \<open>An accepted path starts with a slash only when the given one starts with two.\<close>

lemma cleanObjectPath_rooted:
  assumes "cleanObjectPath v = Inr p" "rooted p"
  shows "HasPrefix (ReplaceChar v backslash slash) ''//''"
proof -
  define u where "u = ReplaceChar v backslash slash"
  define w where "w = TrimPrefix u ''/''"
  have p: "p = Clean w"
    using assms by (auto simp: cleanObjectPath_def w_def u_def Let_def split: if_splits)
  have "rooted w"
    using assms(2) rooted_render [OF clean_shape_names_of, of w] unfolding p Clean_def by simp
  have "HasPrefix u ''/''"
  proof (rule ccontr)
    assume "\<not> HasPrefix u ''/''"
    then have "w = u" by (simp add: w_def TrimPrefix_def)
    with \<open>rooted w\<close> \<open>\<not> HasPrefix u ''/''\<close> show False by (simp add: rooted_def)
  qed
  then obtain v1 where u: "u = ''/'' @ v1" unfolding HasPrefix_iff ..
  then have "w = v1" unfolding w_def by (simp only: TrimPrefix_append)
  with \<open>rooted w\<close> obtain v2 where "v1 = ''/'' @ v2" unfolding rooted_def HasPrefix_iff by blast
  with u have "HasPrefix u ''//''" by simp
  then show ?thesis by (simp add: u_def)
qed

section \<open>Properties\<close>



text \<open>
  With an empty root directory, two leading slashes leave the working directory: the path is
  accepted and names an absolute file.
\<close>

theorem empty_root_escapes:
  "\<exists>p. cleanObjectPath ''//etc/passwd'' = Inr p \<and> PathJoin [] p = ''/etc/passwd''"
proof -
  have "cleanObjectPath ''//etc/passwd'' = Inr ''/etc/passwd''" by code_simp
  moreover have "PathJoin [] ''/etc/passwd'' = ''/etc/passwd''" by code_simp
  ultimately show ?thesis by blast
qed

end
