(* ===== verification/Storage_Local.thy ===== *)
theory Storage_Local
  imports Storage_Path "HOL-Library.AList"
begin

text \<open>
  The local disk: \<open>storage/local.go\<close> over a file system, with the data types of
  \<open>storage/storage.go\<close>.

  The file system maps a path to a file or a directory. A path is kept as its cleaned names,
  with the root it starts from; symbolic links are not modelled. The operating system may
  refuse any call, and a write may stop midway: both are answers of the environment. The
  SHA-256 digest and the content sniffing of \<open>net/http\<close> are functions of the environment.
\<close>

section \<open>The file system\<close>

datatype node = File bytes | Dir

type_synonym path_key = "bool \<times> string list"
type_synonym fs = "(path_key \<times> node) list"

datatype syscall = ReadFile path_key | MkdirAll path_key | OpenFile path_key | WriteFile path_key
  | RemoveFile path_key | StatFile path_key

record os_env =
  fault :: "syscall \<Rightarrow> gerr option"
  written :: nat
  clock :: time
  zone :: "time \<Rightarrow> int"
  rand_read :: "gerr + bytes"
  sha256 :: "bytes \<Rightarrow> bytes"
  detect :: "bytes \<Rightarrow> string"

definition key_of :: "string \<Rightarrow> path_key" where
  "key_of p = (rooted p, names_of p)"

text \<open>The starting points \<open>/\<close> and \<open>.\<close> are directories.\<close>

definition node_at :: "fs \<Rightarrow> path_key \<Rightarrow> node option" where
  "node_at d k = (if snd k = [] then Some Dir else map_of d k)"

definition ENOENT :: gerr where "ENOENT = Sentinel ErrNotExist"
definition EEXIST :: gerr where "EEXIST = Sentinel ErrExist"
definition ENOTDIR :: gerr where "ENOTDIR = Errorf ''not a directory'' []"
definition EISDIR :: gerr where "EISDIR = Errorf ''is a directory'' []"
definition ENOTEMPTY :: gerr where "ENOTEMPTY = Errorf ''directory not empty'' []"
definition EBUSY :: gerr where "EBUSY = Errorf ''device or resource busy'' []"

lemmas errno_defs = ENOENT_def EEXIST_def ENOTDIR_def EISDIR_def ENOTEMPTY_def EBUSY_def

text \<open>
  Path resolution, from the last name inwards: what a name is looked up in has to resolve to a
  directory.
\<close>

fun walk :: "fs \<Rightarrow> bool \<Rightarrow> string list \<Rightarrow> gerr + node" where
  "walk d r [] = Inr Dir"
| "walk d r (c # up) =
     (case walk d r up of
        Inl e \<Rightarrow> Inl e
      | Inr (File _) \<Rightarrow> Inl ENOTDIR
      | Inr Dir \<Rightarrow> (case node_at d (r, rev (c # up)) of None \<Rightarrow> Inl ENOENT | Some n \<Rightarrow> Inr n))"

definition resolve :: "fs \<Rightarrow> path_key \<Rightarrow> gerr + node" where
  "resolve d k = walk d (fst k) (rev (snd k))"

definition parent :: "path_key \<Rightarrow> path_key" where
  "parent k = (fst k, butlast (snd k))"

section \<open>The calls of package \<open>os\<close>\<close>

definition os_ReadFile :: "os_env \<Rightarrow> fs \<Rightarrow> path_key \<Rightarrow> gerr + bytes" where
  "os_ReadFile e d k =
     (case fault e (ReadFile k) of
        Some err \<Rightarrow> Inl err
      | None \<Rightarrow> (case resolve d k of
                   Inl err \<Rightarrow> Inl err
                 | Inr Dir \<Rightarrow> Inl EISDIR
                 | Inr (File bs) \<Rightarrow> Inr bs))"

definition os_Stat :: "os_env \<Rightarrow> fs \<Rightarrow> path_key \<Rightarrow> gerr + node" where
  "os_Stat e d k = (case fault e (StatFile k) of Some err \<Rightarrow> Inl err | None \<Rightarrow> resolve d k)"

text \<open>\<open>MkdirAll\<close> makes the missing directories from the outside in and stops at a file.\<close>

fun mkdirs :: "fs \<Rightarrow> bool \<Rightarrow> string list \<Rightarrow> string list \<Rightarrow> fs \<times> gerr option" where
  "mkdirs d r pre [] = (d, None)"
| "mkdirs d r pre (c # cs) =
     (case node_at d (r, pre @ [c]) of
        None \<Rightarrow> mkdirs (AList.update (r, pre @ [c]) Dir d) r (pre @ [c]) cs
      | Some (File _) \<Rightarrow> (d, Some ENOTDIR)
      | Some Dir \<Rightarrow> mkdirs d r (pre @ [c]) cs)"

definition os_MkdirAll :: "os_env \<Rightarrow> fs \<Rightarrow> path_key \<Rightarrow> fs \<times> gerr option" where
  "os_MkdirAll e d k =
     (case fault e (MkdirAll k) of
        Some err \<Rightarrow> (d, Some err)
      | None \<Rightarrow> mkdirs d (fst k) [] (snd k))"

text \<open>
  \<open>OpenFile\<close> for writing with \<open>O_CREATE\<close> and one of \<open>O_TRUNC\<close> (\<^term>\<open>True\<close>) and \<open>O_EXCL\<close>:
  on success the file exists and is empty.
\<close>

definition os_OpenFile :: "os_env \<Rightarrow> fs \<Rightarrow> path_key \<Rightarrow> bool \<Rightarrow> fs \<times> gerr option" where
  "os_OpenFile e d k trunc =
     (case fault e (OpenFile k) of
        Some err \<Rightarrow> (d, Some err)
      | None \<Rightarrow>
          (case resolve d (parent k) of
             Inl err \<Rightarrow> (d, Some err)
           | Inr (File _) \<Rightarrow> (d, Some ENOTDIR)
           | Inr Dir \<Rightarrow>
               (case node_at d k of
                  None \<Rightarrow> (AList.update k (File []) d, None)
                | Some n \<Rightarrow>
                    if \<not> trunc then (d, Some EEXIST)
                    else (case n of Dir \<Rightarrow> (d, Some EISDIR)
                          | File _ \<Rightarrow> (AList.update k (File []) d, None)))))"

text \<open>A failing write leaves the part that was written.\<close>

definition os_Write :: "os_env \<Rightarrow> fs \<Rightarrow> path_key \<Rightarrow> bytes \<Rightarrow> fs \<times> gerr option" where
  "os_Write e d k bs =
     (case fault e (WriteFile k) of
        Some err \<Rightarrow> (AList.update k (File (take (written e) bs)) d, Some err)
      | None \<Rightarrow> (AList.update k (File bs) d, None))"

text \<open>\<open>Remove\<close> takes a file or an empty directory.\<close>

definition os_Remove :: "os_env \<Rightarrow> fs \<Rightarrow> path_key \<Rightarrow> fs \<times> gerr option" where
  "os_Remove e d k =
     (case fault e (RemoveFile k) of
        Some err \<Rightarrow> (d, Some err)
      | None \<Rightarrow>
          (case resolve d k of
             Inl err \<Rightarrow> (d, Some err)
           | Inr (File _) \<Rightarrow> (AList.delete k d, None)
           | Inr Dir \<Rightarrow>
               if list_ex (\<lambda>(k', _). snd k' \<noteq> [] \<and> parent k' = k) d then (d, Some ENOTEMPTY)
               else if snd k = [] then (d, Some EBUSY)
               else (AList.delete k d, None)))"

section \<open>Disks and their data\<close>

record LocalOptions =
  CreateDirMode :: "32 word"
  FileMode :: "32 word"

record DiskConfig =
  Backend :: string
  RootDir :: string
  PublicBaseURL :: string
  LocalOpts :: LocalOptions

record SaveOptions =
  opt_Disk :: string
  UID :: string
  opt_Dir :: string
  Now :: time
  MaxBytes :: int64
  Filename :: string
  OriginalName :: string
  Overwrite :: bool

record ObjectInfo =
  info_Disk :: string
  info_Path :: string
  info_URL :: string
  info_Size :: int64
  Checksum :: string
  ContentType :: string

record LocalDisk =
  rootDir :: string
  publicBaseURL :: string
  maxUploadSize :: int64
  dirMode :: "32 word"
  fileMode :: "32 word"

text \<open>
  A multipart file: the size its header claims, the answer of \<open>Open\<close>, the bytes its reader
  delivers and the error (if any) that comes after them, its content type and name.
\<close>

record FileHeader =
  fh_Size :: int64
  fh_open :: "gerr option"
  fh_data :: bytes
  fh_error :: "gerr option"
  fh_type :: string
  fh_Filename :: string

definition NewLocalDisk :: "DiskConfig \<Rightarrow> int64 \<Rightarrow> LocalDisk" where
  "NewLocalDisk cfg mx =
     (let dm = CreateDirMode (LocalOpts cfg);
          dm = (if dm = 0 then 493 else dm);
          fm = FileMode (LocalOpts cfg);
          fm = (if fm = 0 then 420 else fm)
      in \<lparr> rootDir = RootDir cfg, publicBaseURL = PublicBaseURL cfg, maxUploadSize = mx,
           dirMode = dm, fileMode = fm \<rparr>)"

text \<open>
  The context is its error: \<^term>\<open>Some err\<close> when \<open>ctx.Done()\<close> is closed by the time it is
  looked at, \<^term>\<open>None\<close> when it is not (a nil context counts as the background one).
\<close>

definition target_key :: "LocalDisk \<Rightarrow> string \<Rightarrow> path_key" where
  "target_key disk cleaned = key_of (PathJoin (rootDir disk) cleaned)"

definition Local_Get :: "os_env \<Rightarrow> LocalDisk \<Rightarrow> gerr option \<Rightarrow> string \<Rightarrow> fs \<Rightarrow> gerr + bytes" where
  "Local_Get e disk ctx objectPath d =
     (case cleanObjectPath objectPath of
        Inl err \<Rightarrow> Inl err
      | Inr cleaned \<Rightarrow>
          (case os_ReadFile e d (target_key disk cleaned) of
             Inl err \<Rightarrow> Inl err
           | Inr bs \<Rightarrow> (case ctx of Some err \<Rightarrow> Inl err | None \<Rightarrow> Inr bs)))"

definition Local_URL :: "LocalDisk \<Rightarrow> string \<Rightarrow> URLOption list \<Rightarrow> string" where
  "Local_URL disk objectPath _ = publicURL (publicBaseURL disk) objectPath []"

text \<open>The limit in force: the option's when positive, the disk's otherwise.\<close>

definition max_bytes :: "LocalDisk \<Rightarrow> SaveOptions \<Rightarrow> int64" where
  "max_bytes disk options =
     (if sint (MaxBytes options) \<le> 0 then maxUploadSize disk else MaxBytes options)"

text \<open>The path an object is saved under, before it is cleaned.\<close>

definition object_path :: "os_env \<Rightarrow> SaveOptions \<Rightarrow> gerr + string" where
  "object_path e options =
     (let now = (if IsZero (Now options) then clock e else Now options)
      in case (if Filename options = []
               then makeObjectPath (zone e) (rand_read e) now (UID options)
                      (if OriginalName options = [] then Filename options else OriginalName options)
               else Inr (Filename options)) of
           Inl err \<Rightarrow> Inl err
         | Inr p \<Rightarrow> Inr (if opt_Dir options \<noteq> [] then PathJoin (opt_Dir options) p else p))"

definition Local_SaveBytes ::
  "os_env \<Rightarrow> LocalDisk \<Rightarrow> gerr option \<Rightarrow> bytes \<Rightarrow> string \<Rightarrow> SaveOptions \<Rightarrow> fs \<Rightarrow> (gerr + ObjectInfo) \<times> fs" where
  "Local_SaveBytes e disk ctx bs contentType options d =
     (let maxBytes = max_bytes disk options
      in if sint maxBytes > 0 \<and> int (length bs) > sint maxBytes then (Inl (Sentinel ErrTooLarge), d)
      else (case object_path e options of
        Inl err \<Rightarrow> (Inl err, d)
      | Inr raw \<Rightarrow>
     (case cleanObjectPath raw of
        Inl err \<Rightarrow> (Inl err, d)
      | Inr objectPath \<Rightarrow>
        let contentType = (if contentType = [] then detect e (take 512 bs) else contentType);
            k = target_key disk objectPath
        in (case os_MkdirAll e d (parent k) of
              (d, Some err) \<Rightarrow> (Inl err, d)
            | (d, None) \<Rightarrow>
           (case os_OpenFile e d k (Overwrite options) of
              (d, Some err) \<Rightarrow> (Inl err, d)
            | (d, None) \<Rightarrow>
           (case os_Write e d k bs of
              (d, Some err) \<Rightarrow> (Inl err, d)
            | (d, None) \<Rightarrow>
           (case ctx of
              Some err \<Rightarrow> (Inl err, fst (os_Remove e d k))
            | None \<Rightarrow>
                (Inr \<lparr> info_Disk = [], info_Path = objectPath, info_URL = Local_URL disk objectPath [],
                      info_Size = word_of_int (int (length bs)),
                      Checksum = EncodeToString (sha256 e bs), ContentType = contentType \<rparr>, d))))))))"

definition zero_options :: SaveOptions where
  "zero_options = \<lparr> opt_Disk = [], UID = [], opt_Dir = [], Now = zeroTime, MaxBytes = 0,
                    Filename = [], OriginalName = [], Overwrite = False \<rparr>"

definition Local_Put :: "os_env \<Rightarrow> LocalDisk \<Rightarrow> gerr option \<Rightarrow> string \<Rightarrow> bytes \<Rightarrow> fs \<Rightarrow> gerr option \<times> fs" where
  "Local_Put e disk ctx objectPath bs d =
     (case Local_SaveBytes e disk ctx bs [] (zero_options\<lparr> Filename := objectPath, Overwrite := True \<rparr>) d of
        (r, d) \<Rightarrow> (result_error r, d))"

text \<open>
  \<open>io.ReadAll\<close> of \<open>io.LimitReader(source, n)\<close>: nothing at all for \<open>n \<le> 0\<close>; the error of the
  source is seen only when the limit is not reached before it.
\<close>

definition ReadAll :: "FileHeader \<Rightarrow> gerr + bytes" where
  "ReadAll f = (case fh_error f of Some err \<Rightarrow> Inl err | None \<Rightarrow> Inr (fh_data f))"

definition ReadAll_Limit :: "FileHeader \<Rightarrow> int64 \<Rightarrow> gerr + bytes" where
  "ReadAll_Limit f n =
     (if sint n \<le> 0 then Inr []
      else if sint n \<le> int (length (fh_data f)) then Inr (take (nat (sint n)) (fh_data f))
      else ReadAll f)"

definition Local_SaveUpload ::
  "os_env \<Rightarrow> LocalDisk \<Rightarrow> gerr option \<Rightarrow> FileHeader option \<Rightarrow> SaveOptions \<Rightarrow> fs \<Rightarrow> (gerr + ObjectInfo) \<times> fs" where
  "Local_SaveUpload e disk ctx fileHeader options d =
     (case fileHeader of
        None \<Rightarrow> (Inl (Sentinel ErrInvalidPath), d)
      | Some f \<Rightarrow>
          let maxBytes = max_bytes disk options
          in if sint maxBytes > 0 \<and> sint (fh_Size f) > sint maxBytes then (Inl (Sentinel ErrTooLarge), d)
          else (case fh_open f of
            Some err \<Rightarrow> (Inl err, d)
          | None \<Rightarrow>
          (case (if sint maxBytes > 0 then ReadAll_Limit f (maxBytes + 1) else ReadAll f) of
            Inl err \<Rightarrow> (Inl err, d)
          | Inr bs \<Rightarrow>
              if sint maxBytes > 0 \<and> int (length bs) > sint maxBytes then (Inl (Sentinel ErrTooLarge), d)
              else Local_SaveBytes e disk ctx bs (fh_type f)
                     (if OriginalName options = [] then options\<lparr> OriginalName := fh_Filename f \<rparr>
                      else options) d)))"

definition Local_Delete :: "os_env \<Rightarrow> LocalDisk \<Rightarrow> string \<Rightarrow> fs \<Rightarrow> gerr option \<times> fs" where
  "Local_Delete e disk objectPath d =
     (case cleanObjectPath objectPath of
        Inl err \<Rightarrow> (Some err, d)
      | Inr cleaned \<Rightarrow>
          (case os_Remove e d (target_key disk cleaned) of
             (d, None) \<Rightarrow> (None, d)
           | (d, Some err) \<Rightarrow> (if errors_Is err ErrNotExist then None else Some err, d)))"

definition Local_Exists :: "os_env \<Rightarrow> LocalDisk \<Rightarrow> string \<Rightarrow> fs \<Rightarrow> bool \<times> gerr option" where
  "Local_Exists e disk objectPath d =
     (case cleanObjectPath objectPath of
        Inl err \<Rightarrow> (False, Some err)
      | Inr cleaned \<Rightarrow>
          (case os_Stat e d (target_key disk cleaned) of
             Inr _ \<Rightarrow> (True, None)
           | Inl err \<Rightarrow> (if errors_Is err ErrNotExist then (False, None) else (False, Some err))))"

definition Local_OpenPath :: "LocalDisk \<Rightarrow> string \<Rightarrow> gerr + string" where
  "Local_OpenPath disk objectPath =
     (case cleanObjectPath objectPath of
        Inl err \<Rightarrow> Inl err
      | Inr cleaned \<Rightarrow> Inr (PathJoin (rootDir disk) cleaned))"

section \<open>Path resolution\<close>

lemma node_at_update:
  "node_at (AList.update k n d) k' = (if k' = k \<and> snd k \<noteq> [] then Some n else node_at d k')"
  by (auto simp: node_at_def AList.update_conv')

lemma node_at_delete:
  "node_at (AList.delete k d) k' = (if k' = k \<and> snd k \<noteq> [] then None else node_at d k')"
  by (auto simp: node_at_def AList.delete_conv')

lemma walk_node: "walk d r up = Inr n \<Longrightarrow> node_at d (r, rev up) = Some n"
  by (cases up) (auto simp: node_at_def split: sum.splits option.splits node.splits)

lemma resolve_node: "resolve d k = Inr n \<Longrightarrow> node_at d k = Some n"
  using walk_node [of d "fst k" "rev (snd k)"] by (simp add: resolve_def)

lemma resolve_last:
  assumes "snd k \<noteq> []"
  shows "resolve d k =
     (case resolve d (parent k) of
        Inl e \<Rightarrow> Inl e
      | Inr (File _) \<Rightarrow> Inl ENOTDIR
      | Inr Dir \<Rightarrow> (case node_at d k of None \<Rightarrow> Inl ENOENT | Some n \<Rightarrow> Inr n))"
proof -
  obtain r ns c where k: "k = (r, ns @ [c])"
    using assms by (cases k; cases "snd k" rule: rev_cases) auto
  show ?thesis unfolding k resolve_def parent_def by (simp split: sum.split node.split)
qed

text \<open>Changing a node does not change how the paths above it resolve.\<close>

lemma walk_update: "length up < length (snd k) \<Longrightarrow> walk (AList.update k n d) r up = walk d r up"
  by (induction up) (auto simp: node_at_update split: sum.splits node.splits)

lemma resolve_parent_update [simp]:
  "snd k \<noteq> [] \<Longrightarrow> resolve (AList.update k n d) (parent k) = resolve d (parent k)"
  unfolding resolve_def by (rule walk_update) (simp add: parent_def)

text \<open>What is added or rewritten without replacing a directory leaves other files in place.\<close>

definition extends :: "fs \<Rightarrow> fs \<Rightarrow> bool" where
  "extends d d' \<longleftrightarrow> (\<forall>k n. node_at d k = Some n \<longrightarrow> node_at d' k = Some n)"

lemma extends_refl [simp]: "extends d d" by (simp add: extends_def)

lemma extends_trans: "extends a b \<Longrightarrow> extends b c \<Longrightarrow> extends a c" by (simp add: extends_def)

lemma extends_update: "node_at d k = None \<Longrightarrow> extends d (AList.update k n d)"
  by (auto simp: extends_def node_at_update)

lemma walk_mono:
  assumes "\<forall>k n. node_at d k = Some n \<and> k \<noteq> t \<longrightarrow> node_at d' k = Some n"
    and "node_at d t \<noteq> Some Dir"
  shows "walk d r up = Inr n \<Longrightarrow> (r, rev up) \<noteq> t \<Longrightarrow> walk d' r up = Inr n"
proof (induction up arbitrary: n)
  case (Cons c up)
  then have up: "walk d r up = Inr Dir" "node_at d (r, rev (c # up)) = Some n"
    by (auto split: sum.splits option.splits node.splits)
  from up(1) have "node_at d (r, rev up) = Some Dir" by (rule walk_node)
  with assms(2) have "(r, rev up) \<noteq> t" by auto
  with Cons.IH up(1) have "walk d' r up = Inr Dir" by blast
  moreover have "node_at d' (r, rev (c # up)) = Some n" using up(2) Cons.prems(2) assms(1) by blast
  ultimately show ?case by simp
qed simp

lemma resolve_mono:
  assumes "\<forall>k n. node_at d k = Some n \<and> k \<noteq> t \<longrightarrow> node_at d' k = Some n" "node_at d t \<noteq> Some Dir"
    and "resolve d k = Inr n" "k \<noteq> t"
  shows "resolve d' k = Inr n"
  using walk_mono [OF assms(1,2), of "fst k" "rev (snd k)" n] assms(3,4) by (simp add: resolve_def)

lemma walk_extends: "extends d d' \<Longrightarrow> walk d r up = Inr n \<Longrightarrow> walk d' r up = Inr n"
proof (induction up arbitrary: n)
  case (Cons c up)
  then have "walk d r up = Inr Dir" "node_at d (r, rev (c # up)) = Some n"
    by (auto split: sum.splits option.splits node.splits)
  with Cons have "walk d' r up = Inr Dir" "node_at d' (r, rev (c # up)) = Some n"
    by (auto simp: extends_def)
  then show ?case by simp
qed simp

lemma resolve_extends: "extends d d' \<Longrightarrow> resolve d k = Inr n \<Longrightarrow> resolve d' k = Inr n"
  unfolding resolve_def by (rule walk_extends)

section \<open>Effects of the calls\<close>

lemma mkdirs_extends: "extends d (fst (mkdirs d r pre cs))"
proof (induction cs arbitrary: d pre)
  case (Cons c cs)
  show ?case
  proof (cases "node_at d (r, pre @ [c])")
    case None
    with Cons.IH [of "AList.update (r, pre @ [c]) Dir d" "pre @ [c]"] extends_update [OF None, of Dir]
    show ?thesis by (auto intro: extends_trans)
  next
    case (Some n)
    with Cons.IH show ?thesis by (cases n) simp_all
  qed
qed simp

lemma MkdirAll_extends: "os_MkdirAll e d k = (d', r) \<Longrightarrow> extends d d'"
  using mkdirs_extends [of d "fst k" "[]" "snd k"] by (auto simp: os_MkdirAll_def split: option.splits)

text \<open>Only directories at prefixes of the path are made.\<close>

lemma mkdirs_new:
  "node_at (fst (mkdirs d r pre cs)) k \<noteq> node_at d k \<Longrightarrow>
   node_at d k = None \<and> node_at (fst (mkdirs d r pre cs)) k = Some Dir \<and> (\<exists>us vs. cs = us @ vs \<and> k = (r, pre @ us))"
proof (induction cs arbitrary: d pre)
  case (Cons c cs)
  show ?case
  proof (cases "node_at d (r, pre @ [c])")
    case None
    let ?d = "AList.update (r, pre @ [c]) Dir d"
    have m: "mkdirs d r pre (c # cs) = mkdirs ?d r (pre @ [c]) cs" using None by simp
    show ?thesis
    proof (cases "k = (r, pre @ [c])")
      case True
      have "extends ?d (fst (mkdirs ?d r (pre @ [c]) cs))" by (rule mkdirs_extends)
      with True None m show ?thesis
        by (auto simp: extends_def node_at_update intro: exI [of _ "[c]"])
    next
      case False
      then have "node_at ?d k = node_at d k" by (simp add: node_at_update)
      with Cons.IH [of ?d "pre @ [c]"] Cons.prems m
      have *: "node_at d k = None" "node_at (fst (mkdirs ?d r (pre @ [c]) cs)) k = Some Dir"
        "\<exists>us vs. cs = us @ vs \<and> k = (r, (pre @ [c]) @ us)"
        by simp_all
      then obtain us vs where "cs = us @ vs" "k = (r, (pre @ [c]) @ us)" by blast
      then have "c # cs = (c # us) @ vs \<and> k = (r, pre @ (c # us))" by simp
      with *(1,2) m show ?thesis by metis
    qed
  next
    case (Some n)
    show ?thesis
    proof (cases n)
      case (File bs)
      with Some Cons.prems show ?thesis by simp
    next
      case Dir
      with Some have m: "mkdirs d r pre (c # cs) = mkdirs d r (pre @ [c]) cs" by simp
      with Cons.IH [of d "pre @ [c]"] Cons.prems
      have *: "node_at d k = None" "node_at (fst (mkdirs d r (pre @ [c]) cs)) k = Some Dir"
        "\<exists>us vs. cs = us @ vs \<and> k = (r, (pre @ [c]) @ us)"
        by simp_all
      then obtain us vs where "cs = us @ vs" "k = (r, (pre @ [c]) @ us)" by blast
      then have "c # cs = (c # us) @ vs \<and> k = (r, pre @ (c # us))" by simp
      with *(1,2) m show ?thesis by metis
    qed
  qed
qed simp

lemma OpenFile_ok:
  assumes "os_OpenFile e d k t = (d', None)"
  shows "d' = AList.update k (File []) d" "resolve d (parent k) = Inr Dir" "node_at d k \<noteq> Some Dir"
    "snd k \<noteq> []" "\<not> t \<longrightarrow> node_at d k = None"
proof -
  show "d' = AList.update k (File []) d" "resolve d (parent k) = Inr Dir" "\<not> t \<longrightarrow> node_at d k = None"
    "node_at d k \<noteq> Some Dir"
    using assms by (auto simp: os_OpenFile_def split: option.splits sum.splits node.splits if_splits)
  then show "snd k \<noteq> []" by (auto simp: node_at_def)
qed

lemma OpenFile_fail: "os_OpenFile e d k t = (d', Some err) \<Longrightarrow> d' = d"
  by (auto simp: os_OpenFile_def split: option.splits sum.splits node.splits if_splits)

lemma OpenFile_exists:
  "node_at d k = Some n \<Longrightarrow> \<not> t \<Longrightarrow> os_OpenFile e d k t = (d', r) \<Longrightarrow> d' = d \<and> r \<noteq> None"
  by (cases r) (auto dest: OpenFile_ok(5) OpenFile_fail)

lemma update_twice: "AList.update k a (AList.update k b d) = AList.update k a d"
  by (induction d) auto

lemma resolve_written:
  "resolve d (parent k) = Inr Dir \<Longrightarrow> snd k \<noteq> [] \<Longrightarrow> resolve (AList.update k n d) k = Inr n"
  by (simp add: resolve_last [of k] node_at_update)

section \<open>Saving\<close>

text \<open>The steps of a successful save.\<close>

lemma SaveBytes_ok:
  assumes "Local_SaveBytes e disk ctx bs ct options d = (Inr info, d')"
  obtains raw cleaned d1 where
    "object_path e options = Inr raw" "cleanObjectPath raw = Inr cleaned"
    "os_MkdirAll e d (parent (target_key disk cleaned)) = (d1, None)"
    "os_OpenFile e d1 (target_key disk cleaned) (Overwrite options)
       = (AList.update (target_key disk cleaned) (File []) d1, None)"
    "d' = AList.update (target_key disk cleaned) (File bs) d1"
    "info_Path info = cleaned" "info_Size info = word_of_int (int (length bs))"
    "Checksum info = EncodeToString (sha256 e bs)" "ctx = None"
    "max_bytes disk options \<le>s 0 \<or> int (length bs) \<le> sint (max_bytes disk options)"
proof -
  obtain raw where raw: "object_path e options = Inr raw"
    using assms by (auto simp: Local_SaveBytes_def Let_def split: sum.splits if_splits)
  obtain c where c: "cleanObjectPath raw = Inr c"
    using assms raw by (auto simp: Local_SaveBytes_def Let_def split: sum.splits if_splits)
  let ?k = "target_key disk c"
  obtain d1 where d1: "os_MkdirAll e d (parent ?k) = (d1, None)"
    using assms raw c by (auto simp: Local_SaveBytes_def Let_def split: prod.splits option.splits if_splits)
  obtain d2 where d2: "os_OpenFile e d1 ?k (Overwrite options) = (d2, None)"
    using assms raw c d1 by (auto simp: Local_SaveBytes_def Let_def split: prod.splits option.splits if_splits)
  obtain d3 where d3: "os_Write e d2 ?k bs = (d3, None)"
    using assms raw c d1 d2 by (auto simp: Local_SaveBytes_def Let_def split: prod.splits option.splits if_splits)
  from d2 have d2': "d2 = AList.update ?k (File []) d1" by (rule OpenFile_ok)
  from d3 have d3': "d3 = AList.update ?k (File bs) d1"
    by (auto simp: os_Write_def d2' update_twice split: option.splits)
  show ?thesis
  proof (rule that [OF raw c d1])
    show "os_OpenFile e d1 ?k (Overwrite options) = (AList.update ?k (File []) d1, None)"
      using d2 d2' by simp
    show "d' = AList.update ?k (File bs) d1"
      using assms raw c d1 d2 d3 d3' by (auto simp: Local_SaveBytes_def Let_def split: option.splits if_splits)
    show "info_Path info = c" "info_Size info = word_of_int (int (length bs))"
      "Checksum info = EncodeToString (sha256 e bs)" "ctx = None"
      using assms raw c d1 d2 d3 by (auto simp: Local_SaveBytes_def Let_def split: option.splits if_splits)
    show "max_bytes disk options \<le>s 0 \<or> int (length bs) \<le> sint (max_bytes disk options)"
      using assms by (auto simp: Local_SaveBytes_def Let_def word_sle_eq split: if_splits)
  qed
qed

text \<open>What a successful save stores, and that it leaves every other file alone.\<close>

lemma SaveBytes_stored:
  assumes "Local_SaveBytes e disk ctx bs ct options d = (Inr info, d')"
  shows "resolve d' (target_key disk (info_Path info)) = Inr (File bs)"
    and "resolve d k = Inr n \<Longrightarrow> k \<noteq> target_key disk (info_Path info) \<Longrightarrow> resolve d' k = Inr n"
proof -
  obtain c d1 where s:
    "os_MkdirAll e d (parent (target_key disk c)) = (d1, None)"
    "os_OpenFile e d1 (target_key disk c) (Overwrite options) = (AList.update (target_key disk c) (File []) d1, None)"
    "d' = AList.update (target_key disk c) (File bs) d1" "info_Path info = c"
    using assms by (rule SaveBytes_ok) blast
  let ?k = "target_key disk c"
  have o: "resolve d1 (parent ?k) = Inr Dir" "node_at d1 ?k \<noteq> Some Dir" "snd ?k \<noteq> []"
    using OpenFile_ok [OF s(2)] by blast+
  show "resolve d' (target_key disk (info_Path info)) = Inr (File bs)"
    unfolding s(3,4) by (rule resolve_written [OF o(1,3)])
  assume k: "resolve d k = Inr n" "k \<noteq> target_key disk (info_Path info)"
  then have "resolve d1 k = Inr n" using MkdirAll_extends [OF s(1)] resolve_extends by blast
  moreover have "\<forall>k n. node_at d1 k = Some n \<and> k \<noteq> ?k \<longrightarrow> node_at d' k = Some n"
    by (simp add: s(3) node_at_update)
  ultimately show "resolve d' k = Inr n"
    using k(2) s(4) o(2) resolve_mono [of d1 ?k d' k n] by simp
qed

text \<open>Without \<open>Overwrite\<close> no file that exists changes, whatever the call ends with.\<close>

lemma remove_new:
  assumes "node_at d k = None" "os_Remove e (AList.update k n d) k = (d', r)"
  shows "\<forall>k' m. node_at d k' = Some m \<longrightarrow> node_at d' k' = Some m"
  using assms by (auto simp: os_Remove_def node_at_update node_at_delete
      split: option.splits sum.splits node.splits if_splits)

lemma SaveBytes_keeps:
  assumes "\<not> Overwrite options"
  shows "extends d (snd (Local_SaveBytes e disk ctx bs ct options d))"
proof (cases "sint (max_bytes disk options) > 0 \<and> int (length bs) > sint (max_bytes disk options)")
  case True
  then show ?thesis by (simp add: Local_SaveBytes_def Let_def)
next
  case small: False
  show ?thesis
  proof (cases "object_path e options")
    case (Inl err)
    with small show ?thesis by (simp add: Local_SaveBytes_def Let_def)
  next
    case raw: (Inr raw)
    show ?thesis
    proof (cases "cleanObjectPath raw")
      case (Inl err)
      with small raw show ?thesis by (simp add: Local_SaveBytes_def Let_def)
    next
      case c: (Inr c)
      let ?k = "target_key disk c"
      obtain d1 r1 where m: "os_MkdirAll e d (parent ?k) = (d1, r1)" by fastforce
      then have e1: "extends d d1" by (rule MkdirAll_extends)
      obtain d2 r2 where o: "os_OpenFile e d1 ?k (Overwrite options) = (d2, r2)" by fastforce
      show ?thesis
      proof (cases "r1 = None \<and> r2 = None")
        case False
        moreover have "r2 \<noteq> None \<Longrightarrow> d2 = d1" using o OpenFile_fail [of e d1 ?k _ d2] by auto
        ultimately show ?thesis
          using small raw c m o e1
          by (auto simp: Local_SaveBytes_def Let_def split: option.splits)
      next
        case True
        with o have "os_OpenFile e d1 ?k (Overwrite options) = (d2, None)" by simp
        from OpenFile_ok [OF this] assms
        have d2: "d2 = AList.update ?k (File []) d1" and new: "node_at d1 ?k = None" by simp_all
        obtain d3 r3 where w: "os_Write e d2 ?k bs = (d3, r3)" by fastforce
        then obtain b where d3: "d3 = AList.update ?k (File b) d1"
          by (auto simp: os_Write_def d2 update_twice split: option.splits)
        have "extends d1 d3" unfolding d3 by (rule extends_update [OF new])
        moreover have "extends d1 (fst (os_Remove e d3 ?k))"
          using remove_new [OF new, of e "File b"] unfolding d3 extends_def
          by (metis prod.collapse)
        ultimately show ?thesis
          using small raw c m o w True e1
          by (cases r3; cases ctx) (auto simp: Local_SaveBytes_def Let_def intro: extends_trans)
      qed
    qed
  qed
qed

text \<open>An upload that is accepted is stored in full: the limit never cuts it short.\<close>

lemma ReadAll_Limit_full:
  assumes "ReadAll_Limit f (m + 1) = Inr bs" "sint m > 0" "m \<noteq> 2 ^ 63 - 1" "int (length bs) \<le> sint m"
  shows "bs = fh_data f \<and> fh_error f = None"
proof -
  have "sint m \<noteq> 2 ^ 63 - 1"
  proof
    assume "sint m = 2 ^ 63 - 1"
    then have "word_of_int (sint m) = (2 ^ 63 - 1 :: int64)" by simp
    with assms(3) show False by simp
  qed
  with sint_int64_bounds(2) [of m] have "sint m + 1 < 2 ^ 63" by linarith
  with assms(2) have n: "sint (m + 1) = sint m + 1"
    using sint_add_int64 [of m 1] by simp
  with assms show ?thesis
    by (auto simp: ReadAll_Limit_def ReadAll_def min_def split: if_splits option.splits)
qed

lemma SaveUpload_full:
  assumes "Local_SaveUpload e disk ctx (Some f) options d = (Inr info, d')"
    and "max_bytes disk options \<noteq> 2 ^ 63 - 1"
  obtains options' where
    "Local_SaveBytes e disk ctx (fh_data f) (fh_type f) options' d = (Inr info, d')"
    "max_bytes disk options' = max_bytes disk options"
proof -
  let ?m = "max_bytes disk options"
  let ?o = "if OriginalName options = [] then options\<lparr> OriginalName := fh_Filename f \<rparr> else options"
  obtain bs where bs: "(if sint ?m > 0 then ReadAll_Limit f (?m + 1) else ReadAll f) = Inr bs"
      "\<not> (sint ?m > 0 \<and> int (length bs) > sint ?m)"
      "Local_SaveBytes e disk ctx bs (fh_type f) ?o d = (Inr info, d')"
    using assms(1) by (auto simp: Local_SaveUpload_def Let_def split: option.splits sum.splits if_splits)
  have "bs = fh_data f \<and> fh_error f = None"
  proof (cases "sint ?m > 0")
    case True
    with bs assms(2) show ?thesis by (intro ReadAll_Limit_full [of f ?m]) auto
  next
    case False
    with bs(1) show ?thesis by (auto simp: ReadAll_def split: option.splits)
  qed
  moreover have "max_bytes disk ?o = ?m" by (simp add: max_bytes_def)
  ultimately show ?thesis using bs(3) that by simp
qed

section \<open>Below the root directory\<close>

lemma target_key_below:
  assumes "rootDir disk \<noteq> []" "cleanObjectPath v = Inr c"
  obtains cs where "target_key disk c = (rooted (rootDir disk), names_of (rootDir disk) @ cs)" "list_all ordinary cs"
proof -
  obtain r cs where c: "c = render r cs" "list_all ordinary cs" "r \<or> cs \<noteq> []"
    by (rule cleanObjectPath_shape [OF assms(2)])
  let ?p = "render (rooted (rootDir disk)) (names_of (rootDir disk) @ cs)"
  have p: "PathJoin (rootDir disk) c = ?p"
    unfolding c(1) by (rule PathJoin_below [OF assms(1) c(2,3)])
  show ?thesis
  proof (rule that [OF _ c(2)])
    show "target_key disk c = (rooted (rootDir disk), names_of (rootDir disk) @ cs)"
      unfolding target_key_def p key_of_def
      using clean_shape_append [OF clean_shape_names_of c(2)] by (simp add: rooted_render names_of_render)
  qed
qed

text \<open>
  The nodes an operation may touch: those at or below a root. Saving also makes missing
  directories on the way to it.
\<close>

definition below :: "path_key \<Rightarrow> path_key \<Rightarrow> bool" where
  "below k root \<longleftrightarrow> (\<exists>cs. k = (fst root, snd root @ cs))"

lemma target_below:
  "rootDir disk \<noteq> [] \<Longrightarrow> cleanObjectPath v = Inr c \<Longrightarrow> below (target_key disk c) (key_of (rootDir disk))"
  by (rule target_key_below [of disk v c]) (auto simp: below_def key_of_def)

lemma MkdirAll_new:
  assumes "os_MkdirAll e d k = (d', r)" "node_at d' k' \<noteq> node_at d k'"
  shows "node_at d k' = None \<and> node_at d' k' = Some Dir \<and> (\<exists>us vs. snd k = us @ vs \<and> k' = (fst k, us))"
proof (cases "fault e (MkdirAll k)")
  case None
  with assms(1) have "d' = fst (mkdirs d (fst k) [] (snd k))" by (simp add: os_MkdirAll_def)
  with mkdirs_new [of d "fst k" "[]" "snd k" k'] assms(2) show ?thesis by simp
next
  case (Some err)
  with assms show ?thesis by (simp add: os_MkdirAll_def)
qed

lemma Remove_effect:
  "os_Remove e d k = (d', r) \<Longrightarrow> d' = d \<or> d' = AList.delete k d"
  by (auto simp: os_Remove_def split: option.splits sum.splits node.splits if_splits)

lemma Write_effect:
  "os_Write e d k bs = (d', r) \<Longrightarrow> \<exists>b. d' = AList.update k (File b) d"
  by (auto simp: os_Write_def split: option.splits)

lemma OpenFile_effect:
  "os_OpenFile e d k t = (d', r) \<Longrightarrow> d' = d \<or> d' = AList.update k (File []) d"
  by (cases r) (auto dest: OpenFile_ok(1) OpenFile_fail)

text \<open>A save changes its target, and makes directories on the way to it; nothing else.\<close>

lemma SaveBytes_touches:
  assumes "Local_SaveBytes e disk ctx bs ct options d = (r, d')" "node_at d' k \<noteq> node_at d k"
  shows "\<exists>raw c. cleanObjectPath raw = Inr c \<and>
    (k = target_key disk c \<or>
     node_at d k = None \<and> node_at d' k = Some Dir \<and> (\<exists>vs. snd (target_key disk c) = snd k @ vs \<and> fst (target_key disk c) = fst k))"
proof -
  have run: "\<not> (sint (max_bytes disk options) > 0 \<and> int (length bs) > sint (max_bytes disk options))"
    using assms by (auto simp: Local_SaveBytes_def Let_def)
  then obtain raw where raw: "object_path e options = Inr raw"
    using assms by (cases "object_path e options") (auto simp: Local_SaveBytes_def Let_def)
  with run obtain c where c: "cleanObjectPath raw = Inr c"
    using assms by (cases "cleanObjectPath raw") (auto simp: Local_SaveBytes_def Let_def)
  let ?k = "target_key disk c"
  obtain d1 r1 where m: "os_MkdirAll e d (parent ?k) = (d1, r1)" by fastforce
  obtain d2 r2 where o: "os_OpenFile e d1 ?k (Overwrite options) = (d2, r2)" by fastforce
  obtain d3 r3 where w: "os_Write e d2 ?k bs = (d3, r3)" by fastforce
  obtain d4 r4 where rm: "os_Remove e d3 ?k = (d4, r4)" by fastforce
  have "d' \<in> {d1, d2, d3, d4}"
    using assms(1) run raw c m o w rm
    by (cases r1; cases r2; cases r3; cases ctx) (auto simp: Local_SaveBytes_def Let_def)
  moreover have "\<forall>k'. k' \<noteq> ?k \<longrightarrow> node_at d2 k' = node_at d1 k'"
    using OpenFile_effect [OF o] by (auto simp: node_at_update)
  moreover from this have "\<forall>k'. k' \<noteq> ?k \<longrightarrow> node_at d3 k' = node_at d1 k'"
    using Write_effect [OF w] by (auto simp: node_at_update)
  moreover from this have "\<forall>k'. k' \<noteq> ?k \<longrightarrow> node_at d4 k' = node_at d1 k'"
    using Remove_effect [OF rm] by (auto simp: node_at_delete)
  ultimately have at: "k \<noteq> ?k \<longrightarrow> node_at d' k = node_at d1 k" by (cases k) auto
  show ?thesis
  proof (intro exI conjI)
    show "cleanObjectPath raw = Inr c" by (rule c)
    show "k = ?k \<or> node_at d k = None \<and> node_at d' k = Some Dir \<and> (\<exists>vs. snd ?k = snd k @ vs \<and> fst ?k = fst k)"
    proof (cases "k = ?k")
      case False
      with at assms(2) have "node_at d1 k \<noteq> node_at d k" by simp
      from MkdirAll_new [OF m this] obtain us vs
        where *: "node_at d1 k = Some Dir" "butlast (snd ?k) = us @ vs" "k = (fst ?k, us)" "node_at d k = None"
        by (auto simp: parent_def)
      have "\<exists>vs. snd ?k = us @ vs"
        using *(2) by (metis append_assoc append_butlast_last_id butlast.simps(1))
      with * at False show ?thesis by auto
    qed simp
  qed
qed

lemma Delete_touches:
  assumes "Local_Delete e disk p d = (r, d')" "node_at d' k \<noteq> node_at d k"
  shows "\<exists>c. cleanObjectPath p = Inr c \<and> k = target_key disk c"
proof (cases "cleanObjectPath p")
  case (Inl err)
  with assms show ?thesis by (simp add: Local_Delete_def)
next
  case (Inr c)
  obtain d1 r1 where "os_Remove e d (target_key disk c) = (d1, r1)" by fastforce
  with Inr assms(1) have "d' = d \<or> d' = AList.delete (target_key disk c) d"
    using Remove_effect by (auto simp: Local_Delete_def split: option.splits)
  with assms(2) Inr show ?thesis by (auto simp: node_at_delete split: if_splits)
qed

section \<open>An object store\<close>

text \<open>
  What a caller of a disk relies on: \<open>loc\<close> is the place a path names, or \<^term>\<open>None\<close> for a
  path the store does not accept.
\<close>

locale object_store =
  fixes put :: "'p \<Rightarrow> 'v \<Rightarrow> 's \<Rightarrow> gerr option \<times> 's"
    and get :: "'p \<Rightarrow> 's \<Rightarrow> gerr + 'v"
    and del :: "'p \<Rightarrow> 's \<Rightarrow> gerr option \<times> 's"
    and ex :: "'p \<Rightarrow> 's \<Rightarrow> bool \<times> gerr option"
    and loc :: "'p \<Rightarrow> 'l option"
  assumes put_get: "loc p = Some l \<Longrightarrow> loc q = Some l \<Longrightarrow> put p v s = (None, s') \<Longrightarrow> get q s' = Inr v"
    and put_frame: "loc p = Some l \<Longrightarrow> loc q \<noteq> Some l \<Longrightarrow> put p v s = (None, s') \<Longrightarrow>
                    get q s = Inr w \<Longrightarrow> get q s' = Inr w"
    and get_ex: "loc q = Some l \<Longrightarrow> get q s = Inr w \<Longrightarrow> ex q s = (True, None)"
    and del_ex: "loc p = Some l \<Longrightarrow> loc q = Some l \<Longrightarrow> get p s = Inr w \<Longrightarrow> del p s = (None, s') \<Longrightarrow>
                 ex q s' = (False, None)"
    and del_frame: "loc p = Some l \<Longrightarrow> loc q \<noteq> Some l \<Longrightarrow> get p s = Inr v \<Longrightarrow> del p s = (None, s') \<Longrightarrow>
                    get q s = Inr w \<Longrightarrow> get q s' = Inr w"
begin

text \<open>Storing a list of objects, stopping at the first error.\<close>

primrec put_all :: "('p \<times> 'v) list \<Rightarrow> 's \<Rightarrow> gerr option \<times> 's" where
  "put_all [] s = (None, s)"
| "put_all (x # xs) s =
     (case put (fst x) (snd x) s of (Some err, s) \<Rightarrow> (Some err, s) | (None, s) \<Rightarrow> put_all xs s)"

lemma put_all_frame:
  "put_all xs s = (None, s') \<Longrightarrow> \<forall>x \<in> set xs. loc (fst x) \<noteq> None \<and> loc (fst x) \<noteq> loc q \<Longrightarrow>
   get q s = Inr w \<Longrightarrow> get q s' = Inr w"
proof (induction xs arbitrary: s)
  case (Cons x xs)
  obtain s1 where p: "put (fst x) (snd x) s = (None, s1)" "put_all xs s1 = (None, s')"
    using Cons.prems(1) by (auto split: prod.splits option.splits)
  obtain l where l: "loc (fst x) = Some l" "loc q \<noteq> Some l" using Cons.prems(2) by auto
  have "get q s1 = Inr w" by (rule put_frame [OF l p(1) Cons.prems(3)])
  with Cons.IH [OF p(2)] Cons.prems(2) show ?case by simp
qed simp

lemma put_all_get:
  "put_all xs s = (None, s') \<Longrightarrow> distinct (map (\<lambda>x. loc (fst x)) xs) \<Longrightarrow>
   \<forall>x \<in> set xs. loc (fst x) \<noteq> None \<Longrightarrow> (p, v) \<in> set xs \<Longrightarrow> get p s' = Inr v"
proof (induction xs arbitrary: s)
  case (Cons x xs)
  obtain s1 where p: "put (fst x) (snd x) s = (None, s1)" "put_all xs s1 = (None, s')"
    using Cons.prems(1) by (auto split: prod.splits option.splits)
  show ?case
  proof (cases "x = (p, v)")
    case True
    with Cons.prems(3) obtain l where l: "loc p = Some l" by auto
    have "get p s1 = Inr v" using put_get [OF l l] p(1) True by simp
    moreover have "\<forall>y \<in> set xs. loc (fst y) \<noteq> None \<and> loc (fst y) \<noteq> loc p"
      using Cons.prems(2,3) True by force
    ultimately show ?thesis using put_all_frame [OF p(2)] by blast
  next
    case False
    with Cons.prems Cons.IH [OF p(2)] show ?thesis by simp
  qed
qed simp

lemma put_delete:
  assumes "loc p = Some l" "loc q = Some l" "put p v s = (None, s1)" "del p s1 = (None, s2)"
  shows "ex q s2 = (False, None)"
  by (rule del_ex [OF assms(1,2) put_get [OF assms(1,1,3)] assms(4)])

end

text \<open>A local disk whose file system calls succeed is one, for paths that are not empty.\<close>

definition no_faults :: "os_env \<Rightarrow> os_env" where
  "no_faults e = e\<lparr> fault := (\<lambda>_. None) \<rparr>"

lemma fault_no_faults [simp]: "fault (no_faults e) c = None"
  by (simp add: no_faults_def)

definition local_loc :: "LocalDisk \<Rightarrow> string \<Rightarrow> path_key option" where
  "local_loc disk p =
     (if p = [] then None
      else case cleanObjectPath p of Inl _ \<Rightarrow> None | Inr c \<Rightarrow> Some (target_key disk c))"

lemma local_loc_Some:
  "local_loc disk p = Some l \<longleftrightarrow> p \<noteq> [] \<and> (\<exists>c. cleanObjectPath p = Inr c \<and> l = target_key disk c)"
  by (auto simp: local_loc_def split: sum.splits)

lemma Get_resolve:
  "Local_Get (no_faults e) disk None p d = Inr bs \<longleftrightarrow>
   (\<exists>c. cleanObjectPath p = Inr c \<and> resolve d (target_key disk c) = Inr (File bs))"
  by (auto simp: Local_Get_def os_ReadFile_def split: sum.splits node.splits)

lemma Put_ok:
  assumes "p \<noteq> []" "cleanObjectPath p = Inr c" "Local_Put e disk ctx p bs d = (None, d')"
  obtains info where
    "Local_SaveBytes e disk ctx bs [] (zero_options\<lparr> Filename := p, Overwrite := True \<rparr>) d = (Inr info, d')"
    "info_Path info = c"
proof -
  let ?o = "zero_options\<lparr> Filename := p, Overwrite := True \<rparr>"
  obtain r where "Local_SaveBytes e disk ctx bs [] ?o d = (r, d')" "result_error r = None"
    using assms(3) by (auto simp: Local_Put_def split: prod.splits)
  then obtain info where i: "Local_SaveBytes e disk ctx bs [] ?o d = (Inr info, d')"
    by (cases r) auto
  moreover from i obtain raw where "object_path e ?o = Inr raw" "cleanObjectPath raw = Inr (info_Path info)"
    by (rule SaveBytes_ok) auto
  with assms(1,2) have "info_Path info = c"
    by (simp add: object_path_def zero_options_def Let_def)
  ultimately show ?thesis by (rule that)
qed

lemma Delete_file:
  assumes "cleanObjectPath p = Inr c" "resolve d (target_key disk c) = Inr (File bs)"
  shows "Local_Delete (no_faults e) disk p d = (None, AList.delete (target_key disk c) d)"
  using assms by (simp add: Local_Delete_def os_Remove_def)

lemma resolve_deleted:
  assumes "resolve d k = Inr (File bs)" "snd k \<noteq> []"
  shows "resolve (AList.delete k d) k = Inl ENOENT"
    and "resolve d k' = Inr n \<Longrightarrow> k' \<noteq> k \<Longrightarrow> resolve (AList.delete k d) k' = Inr n"
proof -
  have f: "node_at d k \<noteq> Some Dir" using resolve_node [OF assms(1)] by simp
  have keep: "\<forall>k'' n. node_at d k'' = Some n \<and> k'' \<noteq> k \<longrightarrow> node_at (AList.delete k d) k'' = Some n"
    by (simp add: node_at_delete)
  note mono = resolve_mono [OF keep f]
  show "resolve d k' = Inr n \<Longrightarrow> k' \<noteq> k \<Longrightarrow> resolve (AList.delete k d) k' = Inr n" by (rule mono)
  have "resolve d (parent k) = Inr Dir"
    using assms by (simp add: resolve_last split: sum.splits node.splits)
  then have "resolve (AList.delete k d) (parent k) = Inr Dir"
    by (rule mono) (use assms(2) in \<open>cases k; cases "snd k" rule: rev_cases; auto simp: parent_def\<close>)
  then show "resolve (AList.delete k d) k = Inl ENOENT"
    using assms(2) by (simp add: resolve_last node_at_delete)
qed

lemma file_named: "resolve d k = Inr (File bs) \<Longrightarrow> snd k \<noteq> []"
  by (auto simp: resolve_def)

lemma cleanObjectPath_empty: "cleanObjectPath [] = Inl (Sentinel ErrInvalidPath)"
  by (simp add: cleanObjectPath_def ReplaceChar_def TrimPrefix_def Clean_def names_of_def
      clean_names_def rooted_def render_def)

lemma Get_loc:
  "Local_Get (no_faults e) disk None p d = Inr bs \<longleftrightarrow>
   (\<exists>l. local_loc disk p = Some l \<and> resolve d l = Inr (File bs))"
  unfolding Get_resolve local_loc_Some using cleanObjectPath_empty by fastforce

lemma Put_loc:
  assumes "local_loc disk p = Some l" "Local_Put e disk ctx p v d = (None, d')"
  shows "resolve d' l = Inr (File v)"
    and "resolve d k = Inr n \<Longrightarrow> k \<noteq> l \<Longrightarrow> resolve d' k = Inr n"
proof -
  obtain c where c: "p \<noteq> []" "cleanObjectPath p = Inr c" "l = target_key disk c"
    using assms(1) by (auto simp: local_loc_Some)
  obtain info where i: "info_Path info = c"
    "Local_SaveBytes e disk ctx v [] (zero_options\<lparr> Filename := p, Overwrite := True \<rparr>) d = (Inr info, d')"
    using Put_ok [OF c(1,2) assms(2)] by blast
  show "resolve d' l = Inr (File v)" using SaveBytes_stored(1) [OF i(2)] i(1) c(3) by simp
  show "resolve d k = Inr n \<Longrightarrow> k \<noteq> l \<Longrightarrow> resolve d' k = Inr n"
    using SaveBytes_stored(2) [OF i(2)] i(1) c(3) by simp
qed

lemma Exists_loc:
  assumes "local_loc disk p = Some l"
  shows "Local_Exists (no_faults e) disk p d =
    (case resolve d l of Inr _ \<Rightarrow> (True, None)
     | Inl err \<Rightarrow> if errors_Is err ErrNotExist then (False, None) else (False, Some err))"
proof -
  obtain c where "cleanObjectPath p = Inr c" "l = target_key disk c"
    using assms by (auto simp: local_loc_Some)
  then show ?thesis by (simp add: Local_Exists_def os_Stat_def)
qed

lemma Delete_loc:
  assumes "local_loc disk p = Some l" "resolve d l = Inr (File bs)"
  shows "Local_Delete (no_faults e) disk p d = (None, AList.delete l d)"
proof -
  obtain c where "cleanObjectPath p = Inr c" "l = target_key disk c"
    using assms(1) by (auto simp: local_loc_Some)
  with Delete_file assms(2) show ?thesis by simp
qed

interpretation local_store: object_store
  "\<lambda>p. Local_Put (no_faults e) disk None p" "Local_Get (no_faults e) disk None"
  "Local_Delete (no_faults e) disk" "Local_Exists (no_faults e) disk" "local_loc disk"
  for e :: os_env and disk :: LocalDisk
proof
  fix p q :: string and l :: path_key and v w :: bytes and s s' :: fs
  assume lp: "local_loc disk p = Some l"
  show "local_loc disk q = Some l \<Longrightarrow> Local_Put (no_faults e) disk None p v s = (None, s') \<Longrightarrow>
    Local_Get (no_faults e) disk None q s' = Inr v"
    using Put_loc(1) [OF lp] by (auto simp: Get_loc)
  show "local_loc disk q \<noteq> Some l \<Longrightarrow> Local_Put (no_faults e) disk None p v s = (None, s') \<Longrightarrow>
    Local_Get (no_faults e) disk None q s = Inr w \<Longrightarrow> Local_Get (no_faults e) disk None q s' = Inr w"
    using Put_loc(2) [OF lp] by (auto simp: Get_loc)
next
  fix q :: string and l :: path_key and w :: bytes and s :: fs
  assume "local_loc disk q = Some l" "Local_Get (no_faults e) disk None q s = Inr w"
  then show "Local_Exists (no_faults e) disk q s = (True, None)"
    by (auto simp: Get_loc Exists_loc)
next
  fix p q :: string and l :: path_key and v w :: bytes and s s' :: fs
  assume lp: "local_loc disk p = Some l" and g: "Local_Get (no_faults e) disk None p s = Inr v"
    and d: "Local_Delete (no_faults e) disk p s = (None, s')"
  from lp g have r: "resolve s l = Inr (File v)" by (simp add: Get_loc)
  from Delete_loc [OF lp r] d have s': "s' = AList.delete l s" by simp
  note gone = resolve_deleted [OF r file_named [OF r]]
  show "local_loc disk q = Some l \<Longrightarrow> Local_Exists (no_faults e) disk q s' = (False, None)"
    using gone(1) by (simp add: Exists_loc s' ENOENT_def)
  show "local_loc disk q \<noteq> Some l \<Longrightarrow> Local_Get (no_faults e) disk None q s = Inr w \<Longrightarrow>
    Local_Get (no_faults e) disk None q s' = Inr w"
    using gone(2) by (auto simp: Get_loc s')
qed

section \<open>Properties\<close>

text \<open>An environment without faults, and a disk, for the instances below.\<close>

definition sample_env :: os_env where
  "sample_env = \<lparr>fault = \<lambda>_. None, written = 0, clock = 0, zone = \<lambda>_. 0, rand_read = Inr ''abcdefghijkl'',
     sha256 = \<lambda>bs. bs, detect = \<lambda>_. ''text/plain''\<rparr>"

definition sample_disk :: "string \<Rightarrow> LocalDisk" where
  "sample_disk root = \<lparr>rootDir = root, publicBaseURL = [], maxUploadSize = 0, dirMode = 493, fileMode = 420\<rparr>"

lemma no_faults_sample: "no_faults sample_env = sample_env"
  by (simp add: no_faults_def sample_env_def)

lemma sample_disk_simps [simp]: "rootDir (sample_disk r) = r" "maxUploadSize (sample_disk r) = 0"
  by (simp_all add: sample_disk_def)

lemma SaveUpload_state:
  "\<exists>bs o'. snd (Local_SaveUpload e disk ctx f options d) \<in> {d, snd (Local_SaveBytes e disk ctx bs (fh_type (the f)) o' d)}"
  by (auto simp: Local_SaveUpload_def Let_def split: option.splits sum.splits)

lemma Put_state:
  "snd (Local_Put e disk ctx p bs d)
     = snd (Local_SaveBytes e disk ctx bs [] (zero_options\<lparr> Filename := p, Overwrite := True \<rparr>) d)"
  by (simp add: Local_Put_def split: prod.splits)

lemma SaveBytes_below:
  assumes "rootDir disk \<noteq> []" "node_at (snd (Local_SaveBytes e disk ctx bs ct options d)) k \<noteq> node_at d k"
  shows "below k (key_of (rootDir disk)) \<or>
    (node_at d k = None \<and> node_at (snd (Local_SaveBytes e disk ctx bs ct options d)) k = Some Dir \<and>
     below (key_of (rootDir disk)) k)"
proof -
  let ?d' = "snd (Local_SaveBytes e disk ctx bs ct options d)"
  obtain raw c where c: "cleanObjectPath raw = Inr c"
    and t: "k = target_key disk c \<or> node_at d k = None \<and> node_at ?d' k = Some Dir \<and>
      (\<exists>vs. snd (target_key disk c) = snd k @ vs \<and> fst (target_key disk c) = fst k)"
    using SaveBytes_touches [of e disk ctx bs ct options d _ ?d' k] assms(2) by (metis prod.collapse)
  have b: "below (target_key disk c) (key_of (rootDir disk))" by (rule target_below [OF assms(1) c])
  from t show ?thesis
  proof
    assume "k = target_key disk c"
    with b show ?thesis by simp
  next
    assume n: "node_at d k = None \<and> node_at ?d' k = Some Dir \<and>
      (\<exists>vs. snd (target_key disk c) = snd k @ vs \<and> fst (target_key disk c) = fst k)"
    then obtain vs cs where "snd (key_of (rootDir disk)) @ cs = snd k @ vs" "fst k = fst (key_of (rootDir disk))"
      using b by (auto simp: below_def)
    then have "below k (key_of (rootDir disk)) \<or> below (key_of (rootDir disk)) k"
      by (cases k; cases "key_of (rootDir disk)") (auto simp: below_def append_eq_append_conv2)
    with n show ?thesis by blast
  qed
qed

text \<open>
  C15: On a disk with a root directory, saving, uploading, putting and deleting change nothing
  outside that directory, whatever path the caller gives and whatever fails on the way: what
  differs afterwards lies at or below the root, or is a new directory on the way to it.
\<close>

theorem disk_writes_stay_below_root:
  assumes "rootDir disk \<noteq> []"
    and "d' \<in> {snd (Local_SaveBytes e disk ctx bs ct options d), snd (Local_SaveUpload e disk ctx f options d),
           snd (Local_Put e disk ctx p bs d), snd (Local_Delete e disk p d)}"
    and "node_at d' k \<noteq> node_at d k"
  shows "below k (key_of (rootDir disk)) \<or>
    (node_at d k = None \<and> node_at d' k = Some Dir \<and> below (key_of (rootDir disk)) k)"
proof -
  consider (save) bs' ct' o' where "d' = snd (Local_SaveBytes e disk ctx bs' ct' o' d)"
    | (del) "d' = snd (Local_Delete e disk p d)"
    using assms(2,3) SaveUpload_state [of e disk ctx f options d] Put_state [of e disk ctx p bs d] by auto
  then show ?thesis
  proof cases
    case save
    with SaveBytes_below [OF assms(1)] assms(3) show ?thesis by simp
  next
    case del
    with assms(3) Delete_touches [of e disk p d _ d' k] obtain c where
      "cleanObjectPath p = Inr c" "k = target_key disk c" by (metis prod.collapse)
    with target_below [OF assms(1)] show ?thesis by blast
  qed
qed

theorem disk_writes_stay_below_root_witness:
  "snd (Local_Put sample_env (sample_disk ''data'') None ''/a/../b'' ''x'' [])
     = [((False, [''data'']), Dir), ((False, [''data'', ''b'']), File ''x'')] \<and>
   below (False, [''data'', ''b'']) (key_of ''data'')"
proof -
  have p: "snd (Local_Put sample_env (sample_disk ''data'') None ''/a/../b'' ''x'' [])
     = [((False, [''data'']), Dir), ((False, [''data'', ''b'']), File ''x'')]"
    by code_simp
  let ?d' = "[((False, [''data'']), Dir), ((False, [''data'', ''b'']), File ''x'')]"
  have m: "?d' \<in> {snd (Local_SaveBytes sample_env (sample_disk ''data'') None ''x'' [] zero_options []),
      snd (Local_SaveUpload sample_env (sample_disk ''data'') None None zero_options []),
      snd (Local_Put sample_env (sample_disk ''data'') None ''/a/../b'' ''x'' []),
      snd (Local_Delete sample_env (sample_disk ''data'') ''/a/../b'' [])}"
    unfolding p by simp
  have "below (False, [''data'', ''b'']) (key_of (rootDir (sample_disk ''data''))) \<or>
    (node_at [] (False, [''data'', ''b'']) = None \<and> node_at ?d' (False, [''data'', ''b'']) = Some Dir \<and>
     below (key_of (rootDir (sample_disk ''data''))) (False, [''data'', ''b'']))"
    by (rule disk_writes_stay_below_root [OF _ m]) (simp_all add: node_at_def)
  with p show ?thesis by (simp add: node_at_def)
qed

text \<open>
  C21: Without \<open>Overwrite\<close> a save never changes or removes anything that exists, whatever the call
  ends with: success, an error of any system call, or a cancelled context.
\<close>

theorem save_without_overwrite_keeps:
  assumes "\<not> Overwrite options" "resolve d k = Inr n"
  shows "resolve (snd (Local_SaveBytes e disk ctx bs ct options d)) k = Inr n"
  using SaveBytes_keeps [OF assms(1)] assms(2) by (rule resolve_extends)

theorem save_without_overwrite_keeps_witness:
  "resolve (snd (Local_SaveBytes sample_env (sample_disk ''data'') (Some (Sentinel ErrCanceled)) ''new'' []
     (zero_options\<lparr> Filename := ''b'' \<rparr>) [((False, [''data'']), Dir), ((False, [''data'', ''b'']), File ''old'')]))
     (False, [''data'', ''b'']) = Inr (File ''old'')"
  by (rule save_without_overwrite_keeps) (simp_all add: zero_options_def resolve_def node_at_def)

text \<open>
  With \<open>Overwrite\<close>, a save that is cancelled after the write has removed the object that was
  there before: the old content is neither kept nor replaced.
\<close>

theorem cancelled_overwrite_deletes:
  assumes "Filename options = p" "p \<noteq> []" "opt_Dir options = []" "Overwrite options"
    and "cleanObjectPath p = Inr c" "resolve d (target_key disk c) = Inr (File old)"
    and "\<not> (sint (max_bytes disk options) > 0 \<and> int (length bs) > sint (max_bytes disk options))"
    and "os_MkdirAll (no_faults e) d (parent (target_key disk c)) = (d, None)"
  shows "\<exists>d'. Local_SaveBytes (no_faults e) disk (Some err) bs ct options d = (Inl err, d') \<and>
    resolve d' (target_key disk c) = Inl ENOENT"
proof -
  let ?k = "target_key disk c" and ?e = "no_faults e"
  have k: "snd ?k \<noteq> []" by (rule file_named [OF assms(6)])
  have par: "resolve d (parent ?k) = Inr Dir"
    using assms(6) k by (simp add: resolve_last split: sum.splits node.splits)
  have at: "node_at d ?k = Some (File old)" by (rule resolve_node [OF assms(6)])
  let ?d = "AList.update ?k (File bs) d"
  have w: "resolve ?d ?k = Inr (File bs)" by (rule resolve_written [OF par k])
  have run: "Local_SaveBytes ?e disk (Some err) bs ct options d = (Inl err, fst (os_Remove ?e ?d ?k))"
    using assms(1-5,7,8) par at
    by (auto simp: Local_SaveBytes_def object_path_def Let_def os_OpenFile_def os_Write_def update_twice)
  have "fst (os_Remove ?e ?d ?k) = AList.delete ?k ?d" using w by (simp add: os_Remove_def)
  with run resolve_deleted(1) [OF w k] show ?thesis by simp
qed

theorem cancelled_overwrite_deletes_witness:
  "\<exists>d'. Local_SaveBytes (no_faults sample_env) (sample_disk ''data'') (Some (Sentinel ErrCanceled)) ''new'' []
     (zero_options\<lparr> Filename := ''b'', Overwrite := True \<rparr>)
     [((False, [''data'']), Dir), ((False, [''data'', ''b'']), File ''old'')] = (Inl (Sentinel ErrCanceled), d') \<and>
    resolve d' (target_key (sample_disk ''data'') ''b'') = Inl ENOENT"
proof -
  have k: "target_key (sample_disk ''data'') ''b'' = (False, [''data'', ''b''])" by code_simp
  have c: "cleanObjectPath ''b'' = Inr ''b''" by code_simp
  have m: "os_MkdirAll (no_faults sample_env) [((False, [''data'']), Dir), ((False, [''data'', ''b'']), File ''old'')]
      (parent (False, [''data'', ''b''])) = ([((False, [''data'']), Dir), ((False, [''data'', ''b'']), File ''old'')], None)"
    by code_simp
  show ?thesis
    by (rule cancelled_overwrite_deletes [OF _ _ _ _ c])
      (simp_all add: k m zero_options_def max_bytes_def resolve_def node_at_def)
qed

text \<open>
  C22: An upload that succeeds has stored the whole file, not a prefix of it, whatever size its
  header claims, and within the limit in force, as long as that limit is below the largest int64.
\<close>

theorem upload_stores_whole_file:
  assumes "Local_SaveUpload e disk ctx (Some f) options d = (Inr info, d')"
    and "max_bytes disk options \<noteq> 2 ^ 63 - 1"
  shows "resolve d' (target_key disk (info_Path info)) = Inr (File (fh_data f)) \<and>
    info_Size info = word_of_int (int (length (fh_data f))) \<and>
    (sint (max_bytes disk options) > 0 \<longrightarrow> int (length (fh_data f)) \<le> sint (max_bytes disk options))"
proof -
  obtain o' where o': "Local_SaveBytes e disk ctx (fh_data f) (fh_type f) o' d = (Inr info, d')"
    "max_bytes disk o' = max_bytes disk options"
    by (rule SaveUpload_full [OF assms])
  from o'(1) have "max_bytes disk o' \<le>s 0 \<or> int (length (fh_data f)) \<le> sint (max_bytes disk o')"
    "info_Size info = word_of_int (int (length (fh_data f)))"
    by (auto elim: SaveBytes_ok)
  with SaveBytes_stored(1) [OF o'(1)] o'(2) show ?thesis by (auto simp: word_sle_eq)
qed

definition sample_file :: "bytes \<Rightarrow> int64 \<Rightarrow> FileHeader" where
  "sample_file bs claimed = \<lparr>fh_Size = claimed, fh_open = None, fh_data = bs, fh_error = None,
     fh_type = ''text/plain'', fh_Filename = ''a.txt''\<rparr>"

theorem upload_stores_whole_file_witness:
  "\<exists>info d'. Local_SaveUpload sample_env (sample_disk ''data'') None (Some (sample_file ''hello'' 1))
      (zero_options\<lparr> Filename := ''b'', MaxBytes := 5 \<rparr>) [] = (Inr info, d') \<and>
    resolve d' (target_key (sample_disk ''data'') (info_Path info)) = Inr (File ''hello'')"
proof -
  let ?r = "Local_SaveUpload sample_env (sample_disk ''data'') None (Some (sample_file ''hello'' 1))
      (zero_options\<lparr> Filename := ''b'', MaxBytes := 5 \<rparr>) []"
  have "case fst ?r of Inr _ \<Rightarrow> True | Inl _ \<Rightarrow> False" by code_simp
  then obtain info d' where r: "?r = (Inr info, d')" by (cases ?r) (auto split: sum.splits)
  from upload_stores_whole_file [OF r] r show ?thesis
    by (simp add: max_bytes_def zero_options_def sample_file_def)
qed

text \<open>
  With the largest int64 as the limit, one more than the limit wraps to a negative number, so
  nothing is read: an upload whose save succeeds has stored an empty object, whatever the file holds.
\<close>

theorem upload_limit_overflow:
  assumes "Local_SaveUpload e disk ctx (Some f) options d = (Inr info, d')"
    and "MaxBytes options = 2 ^ 63 - 1"
  shows "resolve d' (target_key disk (info_Path info)) = Inr (File []) \<and> info_Size info = 0"
proof -
  have m: "max_bytes disk options = 2 ^ 63 - 1" using assms(2) by (simp add: max_bytes_def)
  have "ReadAll_Limit f (2 ^ 63 - 1 + 1) = Inr []" by (simp add: ReadAll_Limit_def)
  with assms(1) m obtain o' where o': "Local_SaveBytes e disk ctx [] (fh_type f) o' d = (Inr info, d')"
    by (auto simp: Local_SaveUpload_def Let_def split: option.splits sum.splits if_splits)
  then have "info_Size info = word_of_int (int (length ([] :: bytes)))" by (auto elim: SaveBytes_ok)
  with SaveBytes_stored(1) [OF o'] show ?thesis by simp
qed

theorem upload_limit_overflow_witness:
  "\<exists>info d'. Local_SaveUpload sample_env (sample_disk ''data'') None (Some (sample_file ''hello'' 5))
      (zero_options\<lparr> Filename := ''b'', MaxBytes := 2 ^ 63 - 1 \<rparr>) [] = (Inr info, d') \<and>
    resolve d' (target_key (sample_disk ''data'') (info_Path info)) = Inr (File [])"
proof -
  let ?r = "Local_SaveUpload sample_env (sample_disk ''data'') None (Some (sample_file ''hello'' 5))
      (zero_options\<lparr> Filename := ''b'', MaxBytes := 2 ^ 63 - 1 \<rparr>) []"
  have "case fst ?r of Inr _ \<Rightarrow> True | Inl _ \<Rightarrow> False" by code_simp
  then obtain info d' where r: "?r = (Inr info, d')" by (cases ?r) (auto split: sum.splits)
  from upload_limit_overflow [OF r] r show ?thesis by (simp add: zero_options_def)
qed

text \<open>Puts one after the other, up to the first that fails.\<close>

primrec PutAll :: "os_env \<Rightarrow> LocalDisk \<Rightarrow> (string \<times> bytes) list \<Rightarrow> fs \<Rightarrow> gerr option \<times> fs" where
  "PutAll e disk [] d = (None, d)"
| "PutAll e disk (x # xs) d =
     (case Local_Put e disk None (fst x) (snd x) d of
        (Some err, d) \<Rightarrow> (Some err, d) | (None, d) \<Rightarrow> PutAll e disk xs d)"

lemma PutAll_put_all: "PutAll (no_faults e) disk xs d = local_store.put_all e disk xs d"
  by (induction xs arbitrary: d) (auto split: prod.splits option.splits)

text \<open>
  C27: Objects put at different places of a disk do not disturb each other: after a list of puts
  that all succeed, each path returns the bytes put under it.
\<close>

theorem puts_are_independent:
  assumes "PutAll (no_faults e) disk xs d = (None, d')"
    and "distinct (map (\<lambda>x. local_loc disk (fst x)) xs)" "\<forall>x \<in> set xs. local_loc disk (fst x) \<noteq> None"
    and "(p, bs) \<in> set xs"
  shows "Local_Get (no_faults e) disk None p d' = Inr bs"
  using local_store.put_all_get assms by (simp add: PutAll_put_all)

theorem puts_are_independent_witness:
  "\<exists>d'. PutAll (no_faults sample_env) (sample_disk ''data'') [(''a/x'', ''1''), (''/a/y'', ''2'')] [] = (None, d') \<and>
     Local_Get (no_faults sample_env) (sample_disk ''data'') None ''a/x'' d' = Inr ''1''"
proof -
  let ?xs = "[(''a/x'', ''1''), (''/a/y'', ''2'')]"
  let ?r = "PutAll (no_faults sample_env) (sample_disk ''data'') ?xs []"
  have "fst ?r = None" by code_simp
  then obtain d' where r: "?r = (None, d')" by (cases ?r) auto
  have l: "local_loc (sample_disk ''data'') ''a/x'' = Some (False, [''data'', ''a'', ''x''])"
    "local_loc (sample_disk ''data'') ''/a/y'' = Some (False, [''data'', ''a'', ''y''])"
    by code_simp+
  have "Local_Get (no_faults sample_env) (sample_disk ''data'') None ''a/x'' d' = Inr ''1''"
    by (rule puts_are_independent [OF r]) (simp_all add: l del: not_None_eq)
  with r show ?thesis by blast
qed

end
