(* ===== verification/Storage_Manager.thy ===== *)
theory Storage_Manager
  imports Storage_Local
begin

text \<open>
  The disk interface and its manager: \<open>storage/storage.go\<close>, \<open>storage/external.go\<close> and the
  default build's \<open>storage/upyun_disabled.go\<close>. A disk is one of the three kinds
  \<open>NewManager\<close> makes, and a call on the interface dispatches on the kind. The state the
  operations share is the file system of the local disks.
\<close>

section \<open>Disks\<close>

abbreviation unsupported :: gerr where
  "unsupported \<equiv> Sentinel ErrUnsupported"

text \<open>
  The external disk only makes URLs: absolute URLs are kept, others are put behind the
  public base URL. Every other operation is refused.
\<close>

record ExternalDisk =
  ext_publicBaseURL :: string

definition NewExternalDisk :: "DiskConfig \<Rightarrow> ExternalDisk" where
  "NewExternalDisk cfg = \<lparr>ext_publicBaseURL = PublicBaseURL cfg\<rparr>"

definition External_Get ::
  "ExternalDisk \<Rightarrow> gerr option \<Rightarrow> string \<Rightarrow> fs \<Rightarrow> gerr + bytes" where
  "External_Get disk ctx p d = Inl unsupported"

definition External_Put ::
  "ExternalDisk \<Rightarrow> gerr option \<Rightarrow> string \<Rightarrow> bytes \<Rightarrow> fs \<Rightarrow> gerr option \<times> fs" where
  "External_Put disk ctx p bs d = (Some unsupported, d)"

definition External_SaveUpload ::
  "ExternalDisk \<Rightarrow> gerr option \<Rightarrow> FileHeader option \<Rightarrow> SaveOptions \<Rightarrow> fs \<Rightarrow> (gerr + ObjectInfo) \<times> fs" where
  "External_SaveUpload disk ctx f options d = (Inl unsupported, d)"

definition External_SaveBytes ::
  "ExternalDisk \<Rightarrow> gerr option \<Rightarrow> bytes \<Rightarrow> string \<Rightarrow> SaveOptions \<Rightarrow> fs \<Rightarrow> (gerr + ObjectInfo) \<times> fs" where
  "External_SaveBytes disk ctx bs ct options d = (Inl unsupported, d)"

definition External_Delete ::
  "ExternalDisk \<Rightarrow> string \<Rightarrow> fs \<Rightarrow> gerr option \<times> fs" where
  "External_Delete disk p d = (Some unsupported, d)"

definition External_Exists ::
  "ExternalDisk \<Rightarrow> string \<Rightarrow> fs \<Rightarrow> bool \<times> gerr option" where
  "External_Exists disk p d = (False, Some unsupported)"

definition External_OpenPath :: "ExternalDisk \<Rightarrow> string \<Rightarrow> gerr + string" where
  "External_OpenPath disk p = Inl unsupported"

definition External_URL :: "ExternalDisk \<Rightarrow> string \<Rightarrow> URLOption list \<Rightarrow> string" where
  "External_URL disk objectPath opts =
     (let value = TrimSpace objectPath;
          lower = ToLower value
      in if value = [] then []
         else if HasPrefix lower ''http://'' \<or> HasPrefix lower ''https://'' \<or> HasPrefix value ''//''
         then appendURLOptions value opts
         else if ext_publicBaseURL disk = [] then appendURLOptions value opts
         else publicURL (ext_publicBaseURL disk) value opts)"

text \<open>The UpYun disk of the build without the tag \<open>upyun\<close> also makes URLs only.\<close>

record UpYunStub =
  upy_publicBaseURL :: string

definition NewUpYunStub :: "DiskConfig \<Rightarrow> int64 \<Rightarrow> UpYunStub" where
  "NewUpYunStub cfg mx = \<lparr>upy_publicBaseURL = PublicBaseURL cfg\<rparr>"

definition UpYunStub_Get ::
  "UpYunStub \<Rightarrow> gerr option \<Rightarrow> string \<Rightarrow> fs \<Rightarrow> gerr + bytes" where
  "UpYunStub_Get disk ctx p d = Inl unsupported"

definition UpYunStub_Put ::
  "UpYunStub \<Rightarrow> gerr option \<Rightarrow> string \<Rightarrow> bytes \<Rightarrow> fs \<Rightarrow> gerr option \<times> fs" where
  "UpYunStub_Put disk ctx p bs d = (Some unsupported, d)"

definition UpYunStub_SaveUpload ::
  "UpYunStub \<Rightarrow> gerr option \<Rightarrow> FileHeader option \<Rightarrow> SaveOptions \<Rightarrow> fs \<Rightarrow> (gerr + ObjectInfo) \<times> fs" where
  "UpYunStub_SaveUpload disk ctx f options d = (Inl unsupported, d)"

definition UpYunStub_SaveBytes ::
  "UpYunStub \<Rightarrow> gerr option \<Rightarrow> bytes \<Rightarrow> string \<Rightarrow> SaveOptions \<Rightarrow> fs \<Rightarrow> (gerr + ObjectInfo) \<times> fs" where
  "UpYunStub_SaveBytes disk ctx bs ct options d = (Inl unsupported, d)"

definition UpYunStub_Delete ::
  "UpYunStub \<Rightarrow> string \<Rightarrow> fs \<Rightarrow> gerr option \<times> fs" where
  "UpYunStub_Delete disk p d = (Some unsupported, d)"

definition UpYunStub_Exists ::
  "UpYunStub \<Rightarrow> string \<Rightarrow> fs \<Rightarrow> bool \<times> gerr option" where
  "UpYunStub_Exists disk p d = (False, Some unsupported)"

definition UpYunStub_OpenPath :: "UpYunStub \<Rightarrow> string \<Rightarrow> gerr + string" where
  "UpYunStub_OpenPath disk p = Inl unsupported"

definition UpYunStub_URL :: "UpYunStub \<Rightarrow> string \<Rightarrow> URLOption list \<Rightarrow> string" where
  "UpYunStub_URL disk objectPath opts = publicURL (upy_publicBaseURL disk) objectPath opts"

text \<open>A disk is one of the three; the operations of the interface dispatch on its kind.\<close>

datatype Disk =
    LocalD LocalDisk
  | ExternalD ExternalDisk
  | UpYunD UpYunStub

definition Disk_Get ::
  "os_env \<Rightarrow> Disk \<Rightarrow> gerr option \<Rightarrow> string \<Rightarrow> fs \<Rightarrow> gerr + bytes" where
  "Disk_Get e disk ctx p d =
     (case disk of LocalD l \<Rightarrow> Local_Get e l ctx p d
      | ExternalD x \<Rightarrow> External_Get x ctx p d
      | UpYunD u \<Rightarrow> UpYunStub_Get u ctx p d)"

definition Disk_Put ::
  "os_env \<Rightarrow> Disk \<Rightarrow> gerr option \<Rightarrow> string \<Rightarrow> bytes \<Rightarrow> fs \<Rightarrow> gerr option \<times> fs" where
  "Disk_Put e disk ctx p bs d =
     (case disk of LocalD l \<Rightarrow> Local_Put e l ctx p bs d
      | ExternalD x \<Rightarrow> External_Put x ctx p bs d
      | UpYunD u \<Rightarrow> UpYunStub_Put u ctx p bs d)"

definition Disk_SaveUpload ::
  "os_env \<Rightarrow> Disk \<Rightarrow> gerr option \<Rightarrow> FileHeader option \<Rightarrow> SaveOptions \<Rightarrow> fs \<Rightarrow> (gerr + ObjectInfo) \<times> fs" where
  "Disk_SaveUpload e disk ctx f options d =
     (case disk of LocalD l \<Rightarrow> Local_SaveUpload e l ctx f options d
      | ExternalD x \<Rightarrow> External_SaveUpload x ctx f options d
      | UpYunD u \<Rightarrow> UpYunStub_SaveUpload u ctx f options d)"

definition Disk_SaveBytes ::
  "os_env \<Rightarrow> Disk \<Rightarrow> gerr option \<Rightarrow> bytes \<Rightarrow> string \<Rightarrow> SaveOptions \<Rightarrow> fs \<Rightarrow> (gerr + ObjectInfo) \<times> fs" where
  "Disk_SaveBytes e disk ctx bs ct options d =
     (case disk of LocalD l \<Rightarrow> Local_SaveBytes e l ctx bs ct options d
      | ExternalD x \<Rightarrow> External_SaveBytes x ctx bs ct options d
      | UpYunD u \<Rightarrow> UpYunStub_SaveBytes u ctx bs ct options d)"

definition Disk_Delete ::
  "os_env \<Rightarrow> Disk \<Rightarrow> string \<Rightarrow> fs \<Rightarrow> gerr option \<times> fs" where
  "Disk_Delete e disk p d =
     (case disk of LocalD l \<Rightarrow> Local_Delete e l p d
      | ExternalD x \<Rightarrow> External_Delete x p d
      | UpYunD u \<Rightarrow> UpYunStub_Delete u p d)"

definition Disk_Exists ::
  "os_env \<Rightarrow> Disk \<Rightarrow> string \<Rightarrow> fs \<Rightarrow> bool \<times> gerr option" where
  "Disk_Exists e disk p d =
     (case disk of LocalD l \<Rightarrow> Local_Exists e l p d
      | ExternalD x \<Rightarrow> External_Exists x p d
      | UpYunD u \<Rightarrow> UpYunStub_Exists u p d)"

definition Disk_OpenPath :: "Disk \<Rightarrow> string \<Rightarrow> gerr + string" where
  "Disk_OpenPath disk p =
     (case disk of LocalD l \<Rightarrow> Local_OpenPath l p
      | ExternalD x \<Rightarrow> External_OpenPath x p
      | UpYunD u \<Rightarrow> UpYunStub_OpenPath u p)"

definition Disk_URL :: "Disk \<Rightarrow> string \<Rightarrow> URLOption list \<Rightarrow> string" where
  "Disk_URL disk p opts =
     (case disk of LocalD l \<Rightarrow> Local_URL l p opts
      | ExternalD x \<Rightarrow> External_URL x p opts
      | UpYunD u \<Rightarrow> UpYunStub_URL u p opts)"

lemmas refused_defs =
  External_Get_def External_Put_def External_SaveUpload_def External_SaveBytes_def External_Delete_def
  External_Exists_def External_OpenPath_def
  UpYunStub_Get_def UpYunStub_Put_def UpYunStub_SaveUpload_def UpYunStub_SaveBytes_def UpYunStub_Delete_def
  UpYunStub_Exists_def UpYunStub_OpenPath_def

section \<open>The manager\<close>

text \<open>
  The disks of a configuration are a Go map: the list holds its entries, each name once, in
  some order. A nil \<open>*Manager\<close> is \<^term>\<open>None\<close>.
\<close>

record StorageConfig =
  DefaultDisk :: string
  MaxUploadSize :: int64
  Disks :: "(string \<times> DiskConfig) list"

record StorageManager =
  disks :: "(string \<times> Disk) list"
  defaultDisk :: string

definition makeDisk :: "DiskConfig \<Rightarrow> int64 \<Rightarrow> Disk" where
  "makeDisk cfg mx =
     (let b = ToLower (TrimSpace (Backend cfg))
      in if b = ''upyun'' then UpYunD (NewUpYunStub cfg mx)
         else if b = ''external'' then ExternalD (NewExternalDisk cfg)
         else LocalD (NewLocalDisk cfg mx))"

definition builtin_disk :: DiskConfig where
  "builtin_disk = \<lparr> Backend = [], RootDir = ''./storage'', PublicBaseURL = ''/storage/'',
                     LocalOpts = \<lparr> CreateDirMode = 0, FileMode = 0 \<rparr> \<rparr>"

definition NewStorageManager :: "StorageConfig \<Rightarrow> StorageManager" where
  "NewStorageManager cfg =
     (let ds = map (\<lambda>(name, c). (name, makeDisk c (MaxUploadSize cfg))) (Disks cfg);
          dflt = (if DefaultDisk cfg = [] then
                    (if map_of ds ''default'' \<noteq> None then ''default''
                     else if length ds = 1 then fst (ds ! 0) else [])
                  else DefaultDisk cfg)
      in if ds = [] then
           \<lparr> disks = [(''default'', LocalD (NewLocalDisk builtin_disk (MaxUploadSize cfg)))],
             defaultDisk = ''default'' \<rparr>
         else \<lparr> disks = ds, defaultDisk = dflt \<rparr>)"

definition disk_name :: "StorageManager \<Rightarrow> string \<Rightarrow> string" where
  "disk_name m name = (if name = [] then defaultDisk m else name)"

definition Manager_Disk :: "StorageManager option \<Rightarrow> string \<Rightarrow> Disk option" where
  "Manager_Disk mo name =
     (case mo of None \<Rightarrow> None | Some m \<Rightarrow> map_of (disks m) (disk_name m name))"

abbreviation diskNotFound :: gerr where
  "diskNotFound \<equiv> Sentinel ErrDiskNotFound"

definition Storage_SaveUpload ::
  "os_env \<Rightarrow> StorageManager option \<Rightarrow> gerr option \<Rightarrow> FileHeader option \<Rightarrow> SaveOptions \<Rightarrow> fs \<Rightarrow>
   (gerr + ObjectInfo) \<times> fs" where
  "Storage_SaveUpload e mo ctx f options d =
     (case mo of
        None \<Rightarrow> (Inl diskNotFound, d)
      | Some m \<Rightarrow>
          let diskName = disk_name m (opt_Disk options)
          in (case Manager_Disk mo diskName of
                None \<Rightarrow> (Inl diskNotFound, d)
              | Some disk \<Rightarrow>
                  (case Disk_SaveUpload e disk ctx f options d of
                     (Inl err, d) \<Rightarrow> (Inl err, d)
                   | (Inr info, d) \<Rightarrow> (Inr (info\<lparr> info_Disk := diskName \<rparr>), d))))"

definition Storage_SaveBytes ::
  "os_env \<Rightarrow> StorageManager option \<Rightarrow> gerr option \<Rightarrow> bytes \<Rightarrow> string \<Rightarrow> SaveOptions \<Rightarrow> fs \<Rightarrow>
   (gerr + ObjectInfo) \<times> fs" where
  "Storage_SaveBytes e mo ctx bs ct options d =
     (case mo of
        None \<Rightarrow> (Inl diskNotFound, d)
      | Some m \<Rightarrow>
          let diskName = disk_name m (opt_Disk options)
          in (case Manager_Disk mo diskName of
                None \<Rightarrow> (Inl diskNotFound, d)
              | Some disk \<Rightarrow>
                  (case Disk_SaveBytes e disk ctx bs ct options d of
                     (Inl err, d) \<Rightarrow> (Inl err, d)
                   | (Inr info, d) \<Rightarrow> (Inr (info\<lparr> info_Disk := diskName \<rparr>), d))))"

definition Storage_Get :: "os_env \<Rightarrow> StorageManager option \<Rightarrow> gerr option \<Rightarrow> string \<Rightarrow> string \<Rightarrow> fs \<Rightarrow> gerr + bytes" where
  "Storage_Get e mo ctx name p d =
     (case Manager_Disk mo name of None \<Rightarrow> Inl diskNotFound | Some disk \<Rightarrow> Disk_Get e disk ctx p d)"

definition Storage_Put ::
  "os_env \<Rightarrow> StorageManager option \<Rightarrow> gerr option \<Rightarrow> string \<Rightarrow> string \<Rightarrow> bytes \<Rightarrow> fs \<Rightarrow> gerr option \<times> fs" where
  "Storage_Put e mo ctx name p bs d =
     (case Manager_Disk mo name of
        None \<Rightarrow> (Some diskNotFound, d) | Some disk \<Rightarrow> Disk_Put e disk ctx p bs d)"

definition Storage_Delete :: "os_env \<Rightarrow> StorageManager option \<Rightarrow> string \<Rightarrow> string \<Rightarrow> fs \<Rightarrow> gerr option \<times> fs" where
  "Storage_Delete e mo name p d =
     (case Manager_Disk mo name of
        None \<Rightarrow> (Some diskNotFound, d) | Some disk \<Rightarrow> Disk_Delete e disk p d)"

definition Storage_Exists :: "os_env \<Rightarrow> StorageManager option \<Rightarrow> string \<Rightarrow> string \<Rightarrow> fs \<Rightarrow> bool \<times> gerr option" where
  "Storage_Exists e mo name p d =
     (case Manager_Disk mo name of
        None \<Rightarrow> (False, Some diskNotFound) | Some disk \<Rightarrow> Disk_Exists e disk p d)"

definition Storage_URL :: "StorageManager option \<Rightarrow> string \<Rightarrow> string \<Rightarrow> URLOption list \<Rightarrow> string" where
  "Storage_URL mo name p opts =
     (case Manager_Disk mo name of None \<Rightarrow> [] | Some disk \<Rightarrow> Disk_URL disk p opts)"

definition Storage_OpenPath :: "StorageManager option \<Rightarrow> string \<Rightarrow> string \<Rightarrow> gerr + string" where
  "Storage_OpenPath mo name p =
     (case Manager_Disk mo name of None \<Rightarrow> Inl diskNotFound | Some disk \<Rightarrow> Disk_OpenPath disk p)"

text \<open>A public path names its disk first; when no disk has that name, it is one of the default disk.\<close>

definition OpenPublicPath :: "StorageManager option \<Rightarrow> string \<Rightarrow> gerr + string" where
  "OpenPublicPath mo publicPath =
     (if mo = None then Inl diskNotFound
      else (case cleanObjectPath publicPath of
        Inl err \<Rightarrow> Inl err
      | Inr cleaned \<Rightarrow>
          let direct = (case splitDiskPath cleaned of
                          None \<Rightarrow> None
                        | Some (diskName, objectPath) \<Rightarrow>
                            (case Manager_Disk mo diskName of
                               None \<Rightarrow> None
                             | Some disk \<Rightarrow> Some (Disk_OpenPath disk objectPath)))
          in (case direct of
                Some r \<Rightarrow> r
              | None \<Rightarrow>
                  (case Manager_Disk mo [] of
                     None \<Rightarrow> Inl diskNotFound
                   | Some disk \<Rightarrow> Disk_OpenPath disk cleaned))))"

section \<open>Lookup\<close>

lemma Manager_Disk_name [simp]: "Manager_Disk (Some m) (disk_name m name) = Manager_Disk (Some m) name"
  by (auto simp: Manager_Disk_def disk_name_def)

lemma NewStorageManager_disks:
  assumes "Disks cfg \<noteq> []"
  shows "map_of (disks (NewStorageManager cfg)) name
       = map_option (\<lambda>c. makeDisk c (MaxUploadSize cfg)) (map_of (Disks cfg) name)"
proof -
  have "map_of (map (\<lambda>(n, c). (n, makeDisk c (MaxUploadSize cfg))) xs) name
      = map_option (\<lambda>c. makeDisk c (MaxUploadSize cfg)) (map_of xs name)" for xs
    by (induction xs) auto
  with assms show ?thesis by (simp add: NewStorageManager_def Let_def)
qed

lemma NewStorageManager_default:
  "DefaultDisk cfg = [] \<Longrightarrow> Disks cfg = [] \<or> length (Disks cfg) = 1 \<or> map_of (Disks cfg) ''default'' \<noteq> None \<Longrightarrow>
   \<exists>disk. Manager_Disk (Some (NewStorageManager cfg)) [] = Some disk"
proof (cases "Disks cfg = []")
  case True
  then show ?thesis by (simp add: NewStorageManager_def Manager_Disk_def disk_name_def)
next
  case False
  assume d: "DefaultDisk cfg = []" "Disks cfg = [] \<or> length (Disks cfg) = 1 \<or> map_of (Disks cfg) ''default'' \<noteq> None"
  let ?ds = "map (\<lambda>(name, c). (name, makeDisk c (MaxUploadSize cfg))) (Disks cfg)"
  let ?m = "NewStorageManager cfg"
  have ds: "disks ?m = ?ds" using False by (simp add: NewStorageManager_def Let_def)
  show ?thesis
  proof (cases "map_of ?ds ''default''")
    case (Some disk)
    then have "defaultDisk ?m = ''default''"
      using False d(1) by (simp add: NewStorageManager_def Let_def)
    with Some ds show ?thesis by (simp add: Manager_Disk_def disk_name_def)
  next
    case None
    with NewStorageManager_disks [OF False, of "''default''"] ds d(2) False
    have one: "length (Disks cfg) = 1" by auto
    then obtain n c where "Disks cfg = [(n, c)]" by (cases "Disks cfg") auto
    with d(1) show ?thesis
      by (auto simp: NewStorageManager_def Manager_Disk_def disk_name_def Let_def)
  qed
qed

section \<open>What a save reports can be fetched\<close>

lemma target_again:
  assumes "cleanObjectPath v = Inr p" "p \<noteq> ''/''" "rootDir disk \<noteq> []"
  obtains p' where "cleanObjectPath p = Inr p'" "target_key disk p' = target_key disk p"
proof -
  obtain r cs where p: "p = render r cs" "list_all ordinary cs" "cs \<noteq> []" "cleanObjectPath p = Inr (render False cs)"
    by (rule cleanObjectPath_again [OF assms(1,2)])
  have "PathJoin (rootDir disk) (render False cs) = PathJoin (rootDir disk) (render r cs)"
    using PathJoin_below [OF assms(3) p(2)] p(3) by simp
  with p(1,4) that show ?thesis by (simp add: target_key_def)
qed

lemma SaveBytes_get:
  assumes "Local_SaveBytes e disk ctx bs ct options d = (Inr info, d')"
    and "rootDir disk \<noteq> []" "info_Path info \<noteq> ''/''"
  shows "Local_Get (no_faults e) disk None (info_Path info) d' = Inr bs"
proof -
  obtain raw where "cleanObjectPath raw = Inr (info_Path info)"
    using assms(1) by (rule SaveBytes_ok) auto
  then obtain p' where "cleanObjectPath (info_Path info) = Inr p'"
      "target_key disk p' = target_key disk (info_Path info)"
    using target_again [OF _ assms(3,2)] by blast
  with SaveBytes_stored(1) [OF assms(1)] show ?thesis by (auto simp: Get_resolve)
qed

lemma Storage_SaveBytes_ok:
  assumes "Storage_SaveBytes e (Some m) ctx bs ct options d = (Inr info, d')"
  obtains disk info' where "Manager_Disk (Some m) (info_Disk info) = Some (LocalD disk)"
    "Local_SaveBytes e disk ctx bs ct options d = (Inr info', d')" "info_Path info' = info_Path info"
  using assms
  by (auto simp: Storage_SaveBytes_def Disk_SaveBytes_def refused_defs Let_def
      split: option.splits sum.splits prod.splits Disk.splits)

lemma Storage_SaveUpload_ok:
  assumes "Storage_SaveUpload e (Some m) ctx (Some f) options d = (Inr info, d')"
  obtains disk info' where "Manager_Disk (Some m) (info_Disk info) = Some (LocalD disk)"
    "Local_SaveUpload e disk ctx (Some f) options d = (Inr info', d')" "info_Path info' = info_Path info"
  using assms
  by (auto simp: Storage_SaveUpload_def Disk_SaveUpload_def refused_defs Let_def
      split: option.splits sum.splits prod.splits Disk.splits)

section \<open>Properties\<close>

text \<open>
  What \<open>SaveUpload\<close> reports is enough to fetch the file again: reading the reported path on
  the reported disk returns the bytes of the upload. (The disk has a root directory, the limit is
  below the largest int64, and the object is not the root directory itself.)
\<close>

theorem upload_then_get:
  assumes "Storage_SaveUpload e (Some m) ctx (Some f) options d = (Inr info, d')"
    and "\<forall>name disk. Manager_Disk (Some m) name = Some (LocalD disk) \<longrightarrow>
           rootDir disk \<noteq> [] \<and> max_bytes disk options \<noteq> 2 ^ 63 - 1"
    and "info_Path info \<noteq> ''/''"
  shows "Storage_Get (no_faults e) (Some m) None (info_Disk info) (info_Path info) d' = Inr (fh_data f)"
proof -
  obtain disk info' where s: "Manager_Disk (Some m) (info_Disk info) = Some (LocalD disk)"
    "Local_SaveUpload e disk ctx (Some f) options d = (Inr info', d')" "info_Path info' = info_Path info"
    by (rule Storage_SaveUpload_ok [OF assms(1)])
  from assms(2) s(1) have d: "rootDir disk \<noteq> []" "max_bytes disk options \<noteq> 2 ^ 63 - 1" by blast+
  obtain o' where o': "Local_SaveBytes e disk ctx (fh_data f) (fh_type f) o' d = (Inr info', d')"
    by (rule SaveUpload_full [OF s(2) d(2)])
  from SaveBytes_get [OF o' d(1)] assms(3) s(3)
  have "Local_Get (no_faults e) disk None (info_Path info) d' = Inr (fh_data f)" by simp
  with s(1) show ?thesis by (simp add: Storage_Get_def Disk_Get_def)
qed

definition sample_manager :: StorageManager where
  "sample_manager = \<lparr>disks = [(''files'', LocalD (sample_disk ''data''))], defaultDisk = ''files''\<rparr>"

theorem upload_then_get_witness:
  "\<exists>info d'. Storage_SaveUpload sample_env (Some sample_manager) None (Some (sample_file ''hello'' 5)) zero_options []
       = (Inr info, d') \<and>
     Storage_Get (no_faults sample_env) (Some sample_manager) None (info_Disk info) (info_Path info) d' = Inr ''hello''"
proof -
  let ?r = "Storage_SaveUpload sample_env (Some sample_manager) None (Some (sample_file ''hello'' 5)) zero_options []"
  have c: "case fst ?r of Inr info \<Rightarrow> info_Path info \<noteq> ''/'' | Inl _ \<Rightarrow> False" by code_simp
  then obtain info d' where r: "?r = (Inr info, d')" by (cases ?r) (auto split: sum.splits)
  have "Storage_Get (no_faults sample_env) (Some sample_manager) None (info_Disk info) (info_Path info) d'
      = Inr (fh_data (sample_file ''hello'' 5))"
  proof (rule upload_then_get [OF r])
    show "info_Path info \<noteq> ''/''" using c r by simp
  qed (auto simp: sample_manager_def Manager_Disk_def max_bytes_def zero_options_def split: if_splits)
  with r show ?thesis by (auto simp: sample_file_def)
qed

text \<open>
  An operation on a disk the manager does not have answers \<open>ErrDiskNotFound\<close> (no URL at all
  for \<open>URL\<close>) and changes nothing; so does every operation on a nil manager.
\<close>

theorem unknown_disk_refused:
  assumes "Manager_Disk mo name = None"
  shows "Storage_Get e mo ctx name p d = Inl diskNotFound \<and>
    Storage_Put e mo ctx name p bs d = (Some diskNotFound, d) \<and>
    Storage_Delete e mo name p d = (Some diskNotFound, d) \<and>
    Storage_Exists e mo name p d = (False, Some diskNotFound) \<and>
    Storage_OpenPath mo name p = Inl diskNotFound \<and> Storage_URL mo name p opts = [] \<and>
    Storage_SaveUpload e mo ctx f (options\<lparr> opt_Disk := name \<rparr>) d = (Inl diskNotFound, d) \<and>
    Storage_SaveBytes e mo ctx bs ct (options\<lparr> opt_Disk := name \<rparr>) d = (Inl diskNotFound, d)"
  using assms
  by (cases mo) (simp_all add: Storage_Get_def Storage_Put_def Storage_Delete_def Storage_Exists_def
      Storage_OpenPath_def Storage_URL_def Storage_SaveUpload_def Storage_SaveBytes_def Let_def)

theorem unknown_disk_refused_witness:
  "Storage_Put sample_env (Some sample_manager) None ''other'' ''x'' ''1'' [] = (Some diskNotFound, [])"
  using unknown_disk_refused [of "Some sample_manager" "''other''"]
  by (simp add: sample_manager_def Manager_Disk_def disk_name_def)

text \<open>
  When every disk is a local one with a root directory, the file a public path opens lies at
  or below the root directory of one of the manager's disks.
\<close>

theorem public_path_below_root:
  assumes "OpenPublicPath (Some m) v = Inr p"
    and "\<forall>name disk. Manager_Disk (Some m) name = Some disk \<longrightarrow> (\<exists>l. disk = LocalD l \<and> rootDir l \<noteq> [])"
  shows "\<exists>name l. Manager_Disk (Some m) name = Some (LocalD l) \<and> below (key_of p) (key_of (rootDir l))"
proof -
  obtain name l q where *: "Manager_Disk (Some m) name = Some (LocalD l)" "Local_OpenPath l q = Inr p" "rootDir l \<noteq> []"
    using assms
    by (fastforce simp: OpenPublicPath_def Let_def Disk_OpenPath_def split: sum.splits option.splits prod.splits)
  from *(2) obtain c where "cleanObjectPath q = Inr c" "p = PathJoin (rootDir l) c"
    by (auto simp: Local_OpenPath_def split: sum.splits)
  with target_below [OF *(3), of q c] *(1) show ?thesis by (auto simp: target_key_def)
qed

theorem public_path_below_root_witness:
  "OpenPublicPath (Some sample_manager) ''/files/../files/a.txt'' = Inr ''data/a.txt'' \<and>
   (\<exists>name l. Manager_Disk (Some sample_manager) name = Some (LocalD l) \<and> below (key_of ''data/a.txt'') (key_of (rootDir l)))"
proof -
  have r: "OpenPublicPath (Some sample_manager) ''/files/../files/a.txt'' = Inr ''data/a.txt''" by code_simp
  have "\<exists>name l. Manager_Disk (Some sample_manager) name = Some (LocalD l) \<and> below (key_of ''data/a.txt'') (key_of (rootDir l))"
    by (rule public_path_below_root [OF r]) (auto simp: sample_manager_def Manager_Disk_def split: if_splits)
  with r show ?thesis by blast
qed

end
