(* ===== verification/Storage_UpYun.thy ===== *)
theory Storage_UpYun
  imports Storage_Local
begin

text \<open>
  The cloud disk of builds with the \<open>upyun\<close> tag: \<open>storage/upyun.go\<close>. The client of the
  UpYun SDK is a parameter: its four calls on the remote state, its test for a missing object,
  and the text of its errors. Object paths go to the client with exactly one leading slash.
\<close>

record 's upyun_client =
  cl_Get :: "string \<Rightarrow> 's \<Rightarrow> gerr + bytes"
  cl_Put :: "string \<Rightarrow> bytes \<Rightarrow> (string \<times> string) list \<Rightarrow> 's \<Rightarrow> gerr option \<times> 's"
  cl_Delete :: "string \<Rightarrow> 's \<Rightarrow> gerr option \<times> 's"
  cl_GetInfo :: "string \<Rightarrow> 's \<Rightarrow> gerr option"
  IsNotExist :: "gerr \<Rightarrow> bool"
  ErrorText :: "gerr \<Rightarrow> string"

record UpYunDisk =
  up_publicBaseURL :: string
  up_maxUploadSize :: int64

definition NewUpYunDisk :: "DiskConfig \<Rightarrow> int64 \<Rightarrow> UpYunDisk" where
  "NewUpYunDisk cfg mx = \<lparr> up_publicBaseURL = PublicBaseURL cfg, up_maxUploadSize = mx \<rparr>"

definition remote_path :: "string \<Rightarrow> string" where
  "remote_path cleaned = ''/'' @ TrimPrefix cleaned ''/''"

definition UpYun_URL :: "UpYunDisk \<Rightarrow> string \<Rightarrow> URLOption list \<Rightarrow> string" where
  "UpYun_URL disk p opts = publicURL (up_publicBaseURL disk) p opts"

definition UpYun_OpenPath :: "UpYunDisk \<Rightarrow> string \<Rightarrow> gerr + string" where
  "UpYun_OpenPath disk p = Inl (Sentinel ErrUnsupported)"

definition UpYun_Get :: "'s upyun_client \<Rightarrow> gerr option \<Rightarrow> string \<Rightarrow> 's \<Rightarrow> gerr + bytes" where
  "UpYun_Get C ctx objectPath s =
     (case cleanObjectPath objectPath of
        Inl err \<Rightarrow> Inl err
      | Inr cleaned \<Rightarrow>
          (case ctx of Some err \<Rightarrow> Inl err | None \<Rightarrow> cl_Get C (remote_path cleaned) s))"

definition UpYun_Delete :: "'s upyun_client \<Rightarrow> gerr option \<Rightarrow> string \<Rightarrow> 's \<Rightarrow> gerr option \<times> 's" where
  "UpYun_Delete C ctx objectPath s =
     (case cleanObjectPath objectPath of
        Inl err \<Rightarrow> (Some err, s)
      | Inr cleaned \<Rightarrow>
          (case ctx of
             Some err \<Rightarrow> (Some err, s)
           | None \<Rightarrow>
               (case cl_Delete C (remote_path cleaned) s of
                  (None, s) \<Rightarrow> (None, s)
                | (Some err, s) \<Rightarrow> (if IsNotExist C err then None else Some err, s))))"

definition contains :: "string \<Rightarrow> string \<Rightarrow> bool" where
  "contains s sub \<longleftrightarrow> Cut s sub \<noteq> None"

definition UpYun_Exists :: "'s upyun_client \<Rightarrow> gerr option \<Rightarrow> string \<Rightarrow> 's \<Rightarrow> bool \<times> gerr option" where
  "UpYun_Exists C ctx objectPath s =
     (case cleanObjectPath objectPath of
        Inl err \<Rightarrow> (False, Some err)
      | Inr cleaned \<Rightarrow>
          (case ctx of
             Some err \<Rightarrow> (False, Some err)
           | None \<Rightarrow>
               (case cl_GetInfo C (remote_path cleaned) s of
                  None \<Rightarrow> (True, None)
                | Some err \<Rightarrow>
                    let text = ErrorText C err
                    in if IsNotExist C err \<or> contains text ''404'' \<or> contains text ''not found''
                          \<or> contains text ''file not exists''
                       then (False, None) else (False, Some err))))"

text \<open>
  The context is looked at before the upload (\<open>ctx\<close>) and after it (\<open>ctx'\<close>). An upload that is
  cancelled is deleted again, with a fresh context.
\<close>

definition UpYun_SaveBytes ::
  "os_env \<Rightarrow> 's upyun_client \<Rightarrow> UpYunDisk \<Rightarrow> gerr option \<Rightarrow> gerr option \<Rightarrow> bytes \<Rightarrow> string \<Rightarrow> SaveOptions \<Rightarrow> 's \<Rightarrow>
   (gerr + ObjectInfo) \<times> 's" where
  "UpYun_SaveBytes e C disk ctx ctx' bs contentType options s =
     (let maxBytes = (if sint (MaxBytes options) \<le> 0 then up_maxUploadSize disk else MaxBytes options)
      in if sint maxBytes > 0 \<and> int (length bs) > sint maxBytes then (Inl (Sentinel ErrTooLarge), s)
      else (case object_path e options of
        Inl err \<Rightarrow> (Inl err, s)
      | Inr raw \<Rightarrow>
     (case cleanObjectPath raw of
        Inl err \<Rightarrow> (Inl err, s)
      | Inr objectPath \<Rightarrow>
        let contentType = (if contentType = [] then detect e (take 512 bs) else contentType)
        in (case ctx of
              Some err \<Rightarrow> (Inl err, s)
            | None \<Rightarrow>
           (case cl_Put C (remote_path objectPath) bs
                   [(''Content-Length'', format_int (int (length bs))), (''Content-Type'', contentType)] s of
              (Some err, s) \<Rightarrow> (Inl err, s)
            | (None, s) \<Rightarrow>
           (case ctx' of
              Some err \<Rightarrow> (Inl err, snd (UpYun_Delete C None objectPath s))
            | None \<Rightarrow>
                (Inr \<lparr> info_Disk = [], info_Path = objectPath, info_URL = UpYun_URL disk objectPath [],
                      info_Size = word_of_int (int (length bs)),
                      Checksum = EncodeToString (sha256 e bs), ContentType = contentType \<rparr>, s)))))))"

definition UpYun_Put ::
  "os_env \<Rightarrow> 's upyun_client \<Rightarrow> UpYunDisk \<Rightarrow> gerr option \<Rightarrow> gerr option \<Rightarrow> string \<Rightarrow> bytes \<Rightarrow> 's \<Rightarrow> gerr option \<times> 's" where
  "UpYun_Put e C disk ctx ctx' objectPath bs s =
     (case UpYun_SaveBytes e C disk ctx ctx' bs []
             (zero_options\<lparr> Filename := objectPath, Overwrite := True \<rparr>) s of
        (r, s) \<Rightarrow> (result_error r, s))"

definition UpYun_SaveUpload ::
  "os_env \<Rightarrow> 's upyun_client \<Rightarrow> UpYunDisk \<Rightarrow> gerr option \<Rightarrow> gerr option \<Rightarrow> FileHeader option \<Rightarrow> SaveOptions \<Rightarrow> 's \<Rightarrow>
   (gerr + ObjectInfo) \<times> 's" where
  "UpYun_SaveUpload e C disk ctx ctx' fileHeader options s =
     (case fileHeader of
        None \<Rightarrow> (Inl (Sentinel ErrInvalidPath), s)
      | Some f \<Rightarrow>
          let maxBytes = (if sint (MaxBytes options) \<le> 0 then up_maxUploadSize disk else MaxBytes options)
          in if sint maxBytes > 0 \<and> sint (fh_Size f) > sint maxBytes then (Inl (Sentinel ErrTooLarge), s)
          else (case fh_open f of
            Some err \<Rightarrow> (Inl err, s)
          | None \<Rightarrow>
          (case (if sint maxBytes > 0 then ReadAll_Limit f (maxBytes + 1) else ReadAll f) of
            Inl err \<Rightarrow> (Inl err, s)
          | Inr bs \<Rightarrow>
              if sint maxBytes > 0 \<and> int (length bs) > sint maxBytes then (Inl (Sentinel ErrTooLarge), s)
              else UpYun_SaveBytes e C disk ctx ctx' bs (fh_type f)
                     (if OriginalName options = [] then options\<lparr> OriginalName := fh_Filename f \<rparr>
                      else options) s)))"

section \<open>Saving\<close>

text \<open>\<open>Overwrite\<close> plays no part: the object is replaced either way.\<close>

lemma UpYun_SaveBytes_overwrite:
  "UpYun_SaveBytes e C disk ctx ctx' bs ct (options\<lparr> Overwrite := b \<rparr>) s
   = UpYun_SaveBytes e C disk ctx ctx' bs ct options s"
  by (cases options) (simp only: UpYun_SaveBytes_def object_path_def SaveOptions.simps)

lemma UpYun_SaveBytes_ok:
  assumes "UpYun_SaveBytes e C disk ctx ctx' bs ct options s = (Inr info, s')"
  obtains raw hs where "cleanObjectPath raw = Inr (info_Path info)"
    "cl_Put C (remote_path (info_Path info)) bs hs s = (None, s')"
    "info_Size info = word_of_int (int (length bs))" "ctx = None" "ctx' = None"
  using assms
  by (auto simp: UpYun_SaveBytes_def Let_def split: sum.splits option.splits prod.splits if_splits)

lemma remote_path_again:
  assumes "cleanObjectPath v = Inr p" "p \<noteq> ''/''"
  obtains p' where "cleanObjectPath p = Inr p'" "remote_path p' = remote_path p"
proof -
  obtain r cs where p: "p = render r cs" "list_all ordinary cs" "cs \<noteq> []" "cleanObjectPath p = Inr (render False cs)"
    by (rule cleanObjectPath_again [OF assms])
  have nr: "\<not> rooted (JoinWith cs ''/'')"
    by (rule JoinWith_not_rooted) (use p(2) in \<open>auto simp: list_all_iff ordinary_def\<close>)
  then have t: "TrimPrefix (JoinWith cs ''/'') ''/'' = JoinWith cs ''/''"
    by (simp add: TrimPrefix_def rooted_def)
  have "remote_path (render q cs) = ''/'' @ JoinWith cs ''/''" for q
  proof (cases q)
    case True
    then have "render q cs = ''/'' @ JoinWith cs ''/''" by (simp add: render_def)
    then show ?thesis unfolding remote_path_def by (simp only: TrimPrefix_append)
  next
    case False
    then have "render q cs = JoinWith cs ''/''" using p(3) by (simp add: render_def)
    then show ?thesis unfolding remote_path_def using t by simp
  qed
  with p(1,4) that show ?thesis by metis
qed

section \<open>Properties\<close>


definition map_client :: "(string \<rightharpoonup> bytes) upyun_client" where
  "map_client = \<lparr>cl_Get = (\<lambda>p s. case s p of None \<Rightarrow> Inl (Sentinel ErrNotExist) | Some bs \<Rightarrow> Inr bs),
     cl_Put = (\<lambda>p bs hs s. (None, s(p \<mapsto> bs))), cl_Delete = (\<lambda>p s. (None, s(p := None))),
     cl_GetInfo = (\<lambda>p s. if s p = None then Some (Sentinel ErrNotExist) else None),
     IsNotExist = (\<lambda>e. errors_Is e ErrNotExist), ErrorText = (\<lambda>_. [])\<rparr>"


end
