(* ===== verification/Token.thy ===== *)
theory Token
  imports Cache_Memory Cache_Database
begin

text \<open>
  The token service of \<open>token/token.go\<close>, over any store that honours the cache contract.

  The digest, the JSON codec of the claims and the random source are parameters: SHA-256 is a
  function on bytes, \<open>marshal\<close> and \<open>unmarshal\<close> may fail, the random bytes are the answer of
  one call. \<open>now\<close> is the reading of the service's clock; the store has its own surroundings
  \<open>'e\<close>.
\<close>

section \<open>Encodings\<close>

definition b64_digit :: "nat \<Rightarrow> char" where
  "b64_digit n =
     (if n < 26 then char_of (65 + n)
      else if n < 52 then char_of (97 + (n - 26))
      else if n < 62 then char_of (48 + (n - 52))
      else if n = 62 then CHR ''-'' else CHR ''_'')"

text \<open>\<open>base64.RawURLEncoding.EncodeToString\<close>: no padding.\<close>

fun RawURLEncoding :: "bytes \<Rightarrow> string" where
  "RawURLEncoding [] = []"
| "RawURLEncoding [a] =
     (let n = of_char a * 16 in [b64_digit (n div 64), b64_digit (n mod 64)])"
| "RawURLEncoding [a, b] =
     (let n = (of_char a * 256 + of_char b) * 4
      in [b64_digit (n div 4096), b64_digit (n div 64 mod 64), b64_digit (n mod 64)])"
| "RawURLEncoding (a # b # c # s) =
     (let n = of_char a * 65536 + of_char b * 256 + of_char c
      in b64_digit (n div 262144) # b64_digit (n div 4096 mod 64) # b64_digit (n div 64 mod 64)
         # b64_digit (n mod 64) # RawURLEncoding s)"

section \<open>The service\<close>

record Claims =
  Subject :: string
  Kind :: string
  Scopes :: "string list"
  IssuedAt :: int64
  Expires :: int64
  Meta :: "(string \<times> string) list"

record IssuedToken =
  tok_Value :: string
  tok_Claims :: Claims

record ('e, 's) Service =
  svc_store :: "('e, 's) cache"
  svc_prefix :: string
  svc_ttl :: duration
  svc_sha256 :: "bytes \<Rightarrow> bytes"
  svc_marshal :: "Claims \<Rightarrow> gerr + bytes"
  svc_unmarshal :: "bytes \<Rightarrow> gerr + Claims"

datatype TokenOption = WithPrefix string | WithTTL duration

fun apply_option :: "TokenOption \<Rightarrow> ('e, 's) Service \<Rightarrow> ('e, 's) Service" where
  "apply_option (WithPrefix p) sv = sv\<lparr> svc_prefix := p \<rparr>"
| "apply_option (WithTTL d) sv = sv\<lparr> svc_ttl := d \<rparr>"

definition NewService ::
  "(bytes \<Rightarrow> bytes) \<Rightarrow> (Claims \<Rightarrow> gerr + bytes) \<Rightarrow> (bytes \<Rightarrow> gerr + Claims) \<Rightarrow> ('e, 's) cache \<Rightarrow> TokenOption list \<Rightarrow>
   ('e, 's) Service" where
  "NewService sha enc dec store opts =
     foldl (\<lambda>sv opt. apply_option opt sv)
       \<lparr> svc_store = store, svc_prefix = ''cbt_'', svc_ttl = word_of_int (120 * 3600 * second),
         svc_sha256 = sha, svc_marshal = enc, svc_unmarshal = dec \<rparr> opts"

text \<open>\<open>time.Unix(sec, 0)\<close>: seconds are kept from year 1 in 64 bits, so large values wrap.\<close>

definition unix_time :: "int64 \<Rightarrow> time" where
  "unix_time sec = (sint (sec + 62135596800) - 62135596800) * second"

definition token_key :: "('e, 's) Service \<Rightarrow> string \<Rightarrow> string" where
  "token_key sv raw = ''token:'' @ EncodeToString (svc_sha256 sv raw)"

definition newRawToken :: "('e, 's) Service \<Rightarrow> gerr + bytes \<Rightarrow> gerr + string" where
  "newRawToken sv random =
     (case random of Inl err \<Rightarrow> Inl err | Inr buf \<Rightarrow> Inr (svc_prefix sv @ RawURLEncoding buf))"

text \<open>The claims as issued, and the lifetime the store gets.\<close>

definition stamp :: "('e, 's) Service \<Rightarrow> time \<Rightarrow> Claims \<Rightarrow> Claims \<times> duration" where
  "stamp sv now claims =
     (let claims = (if IssuedAt claims = 0 then claims\<lparr> IssuedAt := Unix now \<rparr> else claims)
      in if sint (Expires claims) > 0 then (claims, Sub (unix_time (Expires claims)) now)
         else (claims\<lparr> Expires := Unix (Add now (svc_ttl sv)) \<rparr>, svc_ttl sv))"

definition Issue ::
  "('e, 's) Service \<Rightarrow> time \<Rightarrow> gerr + bytes \<Rightarrow> 'e \<Rightarrow> Claims \<Rightarrow> 's \<Rightarrow> (gerr + IssuedToken) \<times> 's" where
  "Issue sv now random e claims s =
     (if TrimSpace (Subject claims) = [] then (Inl (Sentinel ErrTokenInvalid), s)
      else case stamp sv now claims of (claims, ttl) \<Rightarrow>
        if sint ttl \<le> 0 then (Inl (Sentinel ErrTokenExpired), s)
        else (case newRawToken sv random of
                Inl err \<Rightarrow> (Inl err, s)
              | Inr raw \<Rightarrow>
             (case svc_marshal sv claims of
                Inl err \<Rightarrow> (Inl err, s)
              | Inr dat \<Rightarrow>
             (case cSet (svc_store sv) e (token_key sv raw) dat ttl s of
                (Some err, s) \<Rightarrow> (Inl err, s)
              | (None, s) \<Rightarrow> (Inr \<lparr> tok_Value = raw, tok_Claims = claims \<rparr>, s)))))"

definition empty_claims :: Claims where
  "empty_claims = \<lparr> Subject = [], Kind = [], Scopes = [], IssuedAt = 0, Expires = 0, Meta = [] \<rparr>"

definition IssueSubject ::
  "('e, 's) Service \<Rightarrow> time \<Rightarrow> gerr + bytes \<Rightarrow> 'e \<Rightarrow> string \<Rightarrow> 's \<Rightarrow> (gerr + IssuedToken) \<times> 's" where
  "IssueSubject sv now random e subject s = Issue sv now random e (empty_claims\<lparr> Subject := subject \<rparr>) s"

definition Revoke :: "('e, 's) Service \<Rightarrow> 'e \<Rightarrow> string \<Rightarrow> 's \<Rightarrow> gerr option \<times> 's" where
  "Revoke sv e raw s =
     (if TrimSpace raw = [] then (None, s) else cDelete (svc_store sv) e (token_key sv raw) s)"

text \<open>\<open>e\<close> are the surroundings of the read, \<open>e'\<close> those of the delete that may follow.\<close>

definition FindToken ::
  "('e, 's) Service \<Rightarrow> time \<Rightarrow> 'e \<Rightarrow> 'e \<Rightarrow> string \<Rightarrow> 's \<Rightarrow> (gerr + Claims) \<times> 's" where
  "FindToken sv now e e' raw s =
     (if TrimSpace raw = [] then (Inl (Sentinel ErrTokenInvalid), s)
      else case cGet (svc_store sv) e (token_key sv raw) s of
        (Inl err, s) \<Rightarrow> (Inl err, s)
      | (Inr dat, s) \<Rightarrow>
          (case svc_unmarshal sv dat of
             Inl err \<Rightarrow> (Inl err, s)
           | Inr claims \<Rightarrow>
               if sint (Expires claims) > 0 \<and> sint (Expires claims) \<le> sint (Unix now)
               then (Inl (Sentinel ErrTokenExpired), snd (Revoke sv e' raw s))
               else (Inr claims, s)))"

definition CloseService :: "('e, 's) Service \<Rightarrow> gerr option" where
  "CloseService sv = None"

section \<open>Issuing\<close>

lemma Issue_ok:
  assumes "Issue sv now random e claims s = (Inr tok, s')"
  obtains buf dat ttl where
    "random = Inr buf" "tok_Value tok = svc_prefix sv @ RawURLEncoding buf"
    "stamp sv now claims = (tok_Claims tok, ttl)" "sint ttl > 0"
    "svc_marshal sv (tok_Claims tok) = Inr dat"
    "cSet (svc_store sv) e (token_key sv (tok_Value tok)) dat ttl s = (None, s')"
  using assms
  by (auto simp: Issue_def newRawToken_def split: prod.splits sum.splits option.splits if_splits)

text \<open>A refused request leaves the store alone.\<close>

lemma Issue_invalid:
  "TrimSpace (Subject claims) = [] \<Longrightarrow> Issue sv now random e claims s = (Inl (Sentinel ErrTokenInvalid), s)"
  by (simp add: Issue_def)

lemma stamp_expires:
  "stamp sv now claims = (c, ttl) \<Longrightarrow>
   (sint (Expires claims) > 0 \<longrightarrow> Expires c = Expires claims \<and> ttl = Sub (unix_time (Expires claims)) now) \<and>
   (sint (Expires claims) \<le> 0 \<longrightarrow> Expires c = Unix (Add now ttl) \<and> ttl = svc_ttl sv)"
  by (auto simp: stamp_def Let_def split: if_splits)

text \<open>A token has characters other than spaces, so it is never taken for an empty one.\<close>

lemma graphic_b64: "n < 64 \<Longrightarrow> graphic (b64_digit n)"
  by (auto simp: b64_digit_def graphic_def)

lemma of_char_bound: "(of_char c :: nat) \<le> 255"
proof -
  have "(of_char c :: nat) mod 256 < 256" by simp
  then have "(of_char c :: nat) < 256" by (simp only: of_char_mod_256)
  then show ?thesis by linarith
qed

lemma RawURLEncoding_graphic: "c \<in> set (RawURLEncoding bs) \<Longrightarrow> graphic c"
proof (induction bs rule: RawURLEncoding.induct)
  case (2 a)
  have "(of_char a * 16 :: nat) div 64 < 64" using of_char_bound [of a] by (subst div_less_iff_less_mult) simp_all
  with 2 show ?case by (auto simp: Let_def intro!: graphic_b64)
next
  case (3 a b)
  have "((of_char a * 256 + of_char b) * 4 :: nat) div 4096 < 64"
    using of_char_bound [of a] of_char_bound [of b] by (subst div_less_iff_less_mult) simp_all
  with 3 show ?case by (auto simp: Let_def intro!: graphic_b64)
next
  case (4 a b c s)
  have "(of_char a * 65536 + of_char b * 256 + of_char c :: nat) div 262144 < 64"
    using of_char_bound [of a] of_char_bound [of b] of_char_bound [of c] by (subst div_less_iff_less_mult) simp_all
  with 4 show ?case by (auto simp: Let_def intro!: graphic_b64)
qed simp

lemma RawURLEncoding_nonempty: "bs \<noteq> [] \<Longrightarrow> RawURLEncoding bs \<noteq> []"
  by (cases bs rule: RawURLEncoding.cases) (simp_all add: Let_def)

lemma raw_token_nonblank:
  assumes "buf \<noteq> []"
  shows "TrimSpace (p @ RawURLEncoding buf) \<noteq> []"
proof (rule TrimSpace_nonempty)
  have ne: "RawURLEncoding buf \<noteq> []" by (rule RawURLEncoding_nonempty [OF assms])
  then show "p @ RawURLEncoding buf \<noteq> []" by simp
  have "last (RawURLEncoding buf) \<in> set (RawURLEncoding buf)" using ne by (rule last_in_set)
  then have "graphic (last (RawURLEncoding buf))" by (rule RawURLEncoding_graphic)
  with ne show "graphic (last (p @ RawURLEncoding buf))" by simp
qed

section \<open>A token's life\<close>

text \<open>
  What \<open>Find\<close> answers for the data the store returns.
\<close>

definition find_result :: "('e, 's) Service \<Rightarrow> time \<Rightarrow> bytes \<Rightarrow> gerr + Claims" where
  "find_result sv now dat =
     (case svc_unmarshal sv dat of
        Inl err \<Rightarrow> Inl err
      | Inr claims \<Rightarrow>
          if sint (Expires claims) > 0 \<and> sint (Expires claims) \<le> sint (Unix now)
          then Inl (Sentinel ErrTokenExpired) else Inr claims)"

lemma FindToken_result:
  "TrimSpace raw \<noteq> [] \<Longrightarrow> cGet (svc_store sv) e (token_key sv raw) s = (r, s1) \<Longrightarrow>
   fst (FindToken sv now e e' raw s) = (case r of Inl err \<Rightarrow> Inl err | Inr dat \<Rightarrow> find_result sv now dat)"
  by (auto simp: FindToken_def find_result_def split: sum.splits)

context store_contract
begin

lemma issue_then_find:
  assumes "svc_store sv = C" "inv s" "ok e" "okttl e ttl"
    and iss: "Issue sv now (Inr buf) e claims s = (Inr tok, s1)" "buf \<noteq> []"
    and st: "stamp sv now claims = (tok_Claims tok, ttl)"
    and codec: "svc_marshal sv (tok_Claims tok) = Inr dat" "svc_unmarshal sv dat = Inr (tok_Claims tok)"
    and later: "ok e'" "tm e \<le> tm e'"
  shows "fst (FindToken sv now' e' e'' (tok_Value tok) s1) =
    (if tm e + sint ttl \<le> tm e' then miss
     else if sint (Expires (tok_Claims tok)) > 0 \<and> sint (Expires (tok_Claims tok)) \<le> sint (Unix now')
     then Inl (Sentinel ErrTokenExpired) else Inr (tok_Claims tok))"
proof -
  from iss(1) obtain b d t where o: "Inr buf = (Inr b :: gerr + bytes)" "tok_Value tok = svc_prefix sv @ RawURLEncoding b"
    "stamp sv now claims = (tok_Claims tok, t)" "sint t > 0" "svc_marshal sv (tok_Claims tok) = Inr d"
    "cSet (svc_store sv) e (token_key sv (tok_Value tok)) d t s = (None, s1)"
    by (rule Issue_ok)
  then have [simp]: "b = buf" "t = ttl" "d = dat" using st codec(1) by simp_all
  have nb: "TrimSpace (tok_Value tok) \<noteq> []" using o(2) raw_token_nonblank [OF iss(2)] by simp
  let ?k = "token_key sv (tok_Value tok)"
  have set': "cSet C e ?k dat ttl s = (None, s1)" using o(6) assms(1) by simp
  obtain r s2 where g: "cGet C e' ?k s1 = (r, s2)" by fastforce
  have "r = (if 0 < sint ttl \<and> tm e + sint ttl \<le> tm e' then miss else Inr dat)"
    by (rule set_then_get [OF assms(2-4) set' later g])
  with o(4) have "r = (if tm e + sint ttl \<le> tm e' then miss else Inr dat)" by simp
  with FindToken_result [OF nb, of sv e' s1 r s2 now' e''] g assms(1) codec(2) show ?thesis
    by (simp add: find_result_def)
qed

lemma revoke_then_find:
  assumes "svc_store sv = C" "inv s" "ok e" "Revoke sv e raw s = (err, s1)" "TrimSpace raw \<noteq> []"
    and "ok e'" "tm e \<le> tm e'"
  shows "err = None" "fst (FindToken sv now e' e'' raw s1) = miss"
proof -
  have d: "cDelete C e (token_key sv raw) s = (err, s1)" using assms(1,4,5) by (simp add: Revoke_def)
  from delete [OF assms(2,3) d] show "err = None" by simp
  obtain r s2 where g: "cGet C e' (token_key sv raw) s1 = (r, s2)" by fastforce
  have "r = miss" using delete_then_get [OF assms(2,3) d assms(6,7)] g by simp
  with FindToken_result [OF assms(5), of sv e' s1 r s2 now e''] g assms(1) show "fst (FindToken sv now e' e'' raw s1) = miss"
    by simp
qed

text \<open>Issuing or revoking one token leaves the others, as long as their digests differ.\<close>

lemma issue_frame:
  assumes "svc_store sv = C" "inv s" "ok e" "okttl e ttl"
    and "Issue sv now rnd e claims s = (Inr tok, s1)" "stamp sv now claims = (tok_Claims tok, ttl)"
    and "ok e'" "tm e \<le> tm e'" "token_key sv raw \<noteq> token_key sv (tok_Value tok)"
  shows "fst (FindToken sv now' e' e'' raw s1) = fst (FindToken sv now' e' e'' raw s)"
proof (cases "TrimSpace raw = []")
  case True
  then show ?thesis by (simp add: FindToken_def)
next
  case False
  from assms(5) obtain d t where o: "stamp sv now claims = (tok_Claims tok, t)"
    "cSet (svc_store sv) e (token_key sv (tok_Value tok)) d t s = (None, s1)"
    by (rule Issue_ok) blast
  then have set': "cSet C e (token_key sv (tok_Value tok)) d ttl s = (None, s1)"
    using assms(1,6) by simp
  obtain r1 t1 where g1: "cGet C e' (token_key sv raw) s1 = (r1, t1)" by fastforce
  obtain r2 t2 where g2: "cGet C e' (token_key sv raw) s = (r2, t2)" by fastforce
  have "r1 = r2" using set_frame [OF assms(2-4) set' assms(7-9)] g1 g2 by simp
  then show ?thesis
    using FindToken_result [OF False, of sv e' s1 r1 t1 now' e''] FindToken_result [OF False, of sv e' s r2 t2 now' e'']
      g1 g2 assms(1) by simp
qed

end

section \<open>Properties\<close>


text \<open>A codec that keeps the claims of the instances below.\<close>

definition sample_claims :: Claims where
  "sample_claims = empty_claims\<lparr> Subject := ''u'' \<rparr>"

definition sample_service :: "duration \<Rightarrow> Claims \<Rightarrow> (time, memory) Service" where
  "sample_service ttl c = \<lparr>svc_store = memory_cache, svc_prefix = ''cbt_'', svc_ttl = ttl, svc_sha256 = (\<lambda>bs. bs),
     svc_marshal = (\<lambda>x. if x = c then Inr ''json'' else Inl (Sentinel ErrEOF)), svc_unmarshal = (\<lambda>_. Inr c)\<rparr>"

lemma TrimSpace_u: "TrimSpace ''u'' = ''u''"
  by (rule TrimSpace_graphic) (simp add: graphic_def)

text \<open>Claims issued at second 1 that expire at second 3.\<close>

definition timed_claims :: Claims where
  "timed_claims = sample_claims\<lparr> IssuedAt := 1, Expires := 3 \<rparr>"

lemma timed_claims_simps [simp]:
  "Subject timed_claims = ''u''" "IssuedAt timed_claims = 1" "Expires timed_claims = 3"
  by (simp_all add: timed_claims_def sample_claims_def empty_claims_def)

lemma stamp_timed: "stamp sv second timed_claims = (timed_claims, word_of_int (2 * second))"
  by (simp add: stamp_def Let_def unix_time_def Sub_def second_def)

lemma Issue_timed:
  "\<exists>tok m1. Issue (sample_service d timed_claims) second (Inr ''abc'') second timed_claims m = (Inr tok, m1) \<and>
     tok_Claims tok = timed_claims \<and> tok_Value tok = ''cbt_'' @ RawURLEncoding ''abc''"
proof -
  have n: "newRawToken (sample_service d timed_claims) (Inr ''abc'') = Inr (''cbt_'' @ RawURLEncoding ''abc'')"
    by (simp add: newRawToken_def sample_service_def del: RawURLEncoding.simps)
  have t: "0 < sint (word_of_int (2 * second) :: int64)" by (simp add: second_def)
  show ?thesis
    unfolding Issue_def stamp_timed n using t
    by (simp add: sample_service_def TrimSpace_u run_eqs del: RawURLEncoding.simps)
qed


text \<open>
  After a token is revoked, every later \<open>Find\<close> of it misses.
\<close>

theorem revoked_token_misses:
  assumes "svc_store sv = memory_cache" "0 \<le> t" "t \<le> t'" "TrimSpace raw \<noteq> []"
  shows "fst (Revoke sv t raw m) = None \<and>
    fst (FindToken sv now t' t'' raw (snd (Revoke sv t raw m))) = miss"
proof -
  obtain err m1 where r: "Revoke sv t raw m = (err, m1)" by fastforce
  from mem.revoke_then_find [OF assms(1) _ _ r assms(4) _ assms(3)] assms(2,3) r show ?thesis
    by (simp add: sane_clock_def)
qed

theorem revoked_token_misses_witness:
  "fst (FindToken (sample_service 5 sample_claims) 3 3 3 ''u'' (snd (Revoke (sample_service 5 sample_claims) 2 ''u''
     \<lparr>items = [''token:75'' \<mapsto> \<lparr>mi_value = ''json'', mi_expiresAt = zeroTime\<rparr>]\<rparr>))) = miss"
  using revoked_token_misses [of "sample_service 5 sample_claims" 2 3 "''u''"]
  by (simp add: sample_service_def TrimSpace_u)

text \<open>
  Issuing a token leaves every other token as it was, as long as their digests differ.
\<close>

theorem issue_leaves_other_tokens:
  assumes "svc_store sv = memory_cache" "0 \<le> now" "now \<le> t'"
    and "Issue sv now rnd now claims m = (Inr tok, m1)"
    and "EncodeToString (svc_sha256 sv raw) \<noteq> EncodeToString (svc_sha256 sv (tok_Value tok))"
  shows "fst (FindToken sv now' t' t'' raw m1) = fst (FindToken sv now' t' t'' raw m)"
proof -
  obtain ttl where st: "stamp sv now claims = (tok_Claims tok, ttl)"
    using assms(4) by (rule Issue_ok)
  have "token_key sv raw \<noteq> token_key sv (tok_Value tok)" using assms(5) by (simp add: token_key_def)
  then show ?thesis
    using assms(2,3)
    by (intro mem.issue_frame [OF assms(1) _ _ _ assms(4) st]) (simp_all add: sane_clock_def)
qed

theorem issue_leaves_other_tokens_witness:
  "\<exists>tok m1. Issue (sample_service 5 timed_claims) second (Inr ''abc'') second timed_claims NewMemory = (Inr tok, m1) \<and>
     fst (FindToken (sample_service 5 timed_claims) (2 * second) (2 * second) (2 * second) ''u'' m1) = miss"
proof -
  let ?sv = "sample_service 5 timed_claims"
  obtain tok m1 where i: "Issue ?sv second (Inr ''abc'') second timed_claims NewMemory = (Inr tok, m1)"
    "tok_Value tok = ''cbt_'' @ RawURLEncoding ''abc''"
    using Issue_timed [of 5 NewMemory] by blast
  have "length (EncodeToString bs) = 2 * length bs" for bs
    by (induction bs) (simp_all add: EncodeToString_def)
  from this [of "''u''"] this [of "''cbt_'' @ RawURLEncoding ''abc''"]
  have "EncodeToString ''u'' \<noteq> EncodeToString (''cbt_'' @ RawURLEncoding ''abc'')"
    by (auto dest: arg_cong [where f = length] simp del: RawURLEncoding.simps)
  then have "fst (FindToken ?sv (2 * second) (2 * second) (2 * second) ''u'' m1)
      = fst (FindToken ?sv (2 * second) (2 * second) (2 * second) ''u'' NewMemory)"
    by (intro issue_leaves_other_tokens [OF _ _ _ i(1)]) (simp_all add: sample_service_def second_def i(2) del: RawURLEncoding.simps)
  moreover have "fst (FindToken ?sv (2 * second) (2 * second) (2 * second) ''u'' NewMemory) = miss"
    by (simp add: FindToken_def TrimSpace_u sample_service_def run_eqs)
  ultimately show ?thesis using i(1) by auto
qed



end
