(* ===== verification/Response.thy ===== *)
theory Response
  imports Strings "HOL-Library.Signed_Division"
begin

text \<open>
  JSON responses and pagination: \<open>response/response.go\<close>, with the part of
  \<open>http.ResponseWriter\<close> it uses. The status line and the headers leave with the first
  \<open>WriteHeader\<close>; what is set afterwards is not sent.
\<close>

section \<open>The response writer\<close>

type_synonym header_map = "string \<rightharpoonup> string"

record response_writer =
  header_map :: header_map
  sent :: "(int \<times> header_map) option"
  body :: bytes

definition fresh_writer :: response_writer where
  "fresh_writer = \<lparr> header_map = Map.empty, sent = None, body = [] \<rparr>"

definition Header_Set :: "string \<Rightarrow> string \<Rightarrow> response_writer \<Rightarrow> response_writer" where
  "Header_Set k v w = w\<lparr> header_map := (header_map w)(k \<mapsto> v) \<rparr>"

definition WriteHeader :: "int \<Rightarrow> response_writer \<Rightarrow> response_writer" where
  "WriteHeader status w =
     (case sent w of None \<Rightarrow> w\<lparr> sent := Some (status, header_map w) \<rparr> | Some _ \<Rightarrow> w)"

definition Write :: "bytes \<Rightarrow> response_writer \<Rightarrow> response_writer" where
  "Write bs w = (let w = WriteHeader 200 w in w\<lparr> body := body w @ bs \<rparr>)"

definition http_Error :: "string \<Rightarrow> int \<Rightarrow> response_writer \<Rightarrow> response_writer" where
  "http_Error text code w =
     Write (text @ [CHR 0x0A])
       (WriteHeader code
         (Header_Set ''X-Content-Type-Options'' ''nosniff''
           (Header_Set ''Content-Type'' ''text/plain; charset=utf-8''
             (w\<lparr> header_map := (header_map w)(''Content-Length'' := None) \<rparr>))))"

section \<open>Envelopes\<close>

text \<open>
  The payload \<open>data\<close> is of the caller's type; \<open>encode\<close> is the JSON encoder: the bytes it
  writes, or its error text (then it writes nothing).
\<close>

record 'd Envelope =
  Code :: int
  Msg :: string
  Data :: "'d option"

definition CodeOK :: int where "CodeOK = 0"

definition respond_JSON ::
  "('d Envelope \<Rightarrow> string + bytes) \<Rightarrow> response_writer \<Rightarrow> int \<Rightarrow> 'd Envelope \<Rightarrow> response_writer" where
  "respond_JSON encode w status payload =
     (let w = WriteHeader status (Header_Set ''Content-Type'' ''application/json; charset=utf-8'' w)
      in case encode payload of
           Inr bs \<Rightarrow> Write bs w
         | Inl err \<Rightarrow> http_Error err 500 w)"

definition respond_OK :: "('d Envelope \<Rightarrow> string + bytes) \<Rightarrow> response_writer \<Rightarrow> 'd option \<Rightarrow> response_writer" where
  "respond_OK encode w dat = respond_JSON encode w 200 \<lparr> Code = CodeOK, Msg = [], Data = dat \<rparr>"

definition BusinessError ::
  "('d Envelope \<Rightarrow> string + bytes) \<Rightarrow> response_writer \<Rightarrow> int \<Rightarrow> string \<Rightarrow> 'd option \<Rightarrow> response_writer" where
  "BusinessError encode w code msg dat = respond_JSON encode w 200 \<lparr> Code = code, Msg = msg, Data = dat \<rparr>"

definition respond_Error ::
  "('d Envelope \<Rightarrow> string + bytes) \<Rightarrow> response_writer \<Rightarrow> int \<Rightarrow> int \<Rightarrow> string \<Rightarrow> response_writer" where
  "respond_Error encode w status code msg = respond_JSON encode w status \<lparr> Code = code, Msg = msg, Data = None \<rparr>"

section \<open>Pagination\<close>

record 'i Pagination =
  Total :: int64
  Page :: int64
  PageSize :: int64
  TotalPages :: int64
  Items :: 'i

definition NewPagination :: "int64 \<Rightarrow> int64 \<Rightarrow> int64 \<Rightarrow> 'i \<Rightarrow> 'i Pagination" where
  "NewPagination count page pageSize items =
     (let page = (if sint page \<le> 0 then 1 else page);
          pageSize = (if sint pageSize \<le> 0 then 20 else pageSize);
          totalPages = word_of_int (sint count sdiv sint pageSize);
          totalPages = (if sint count smod sint pageSize > 0 then totalPages + 1 else totalPages)
      in \<lparr> Total = count, Page = page, PageSize = pageSize, TotalPages = totalPages, Items = items \<rparr>)"

lemma NewPagination_size: "sint (PageSize (NewPagination count page psize items)) > 0"
  by (simp add: NewPagination_def Let_def)

lemma NewPagination_page: "sint (Page (NewPagination count page psize items)) > 0"
  by (simp add: NewPagination_def Let_def)

lemma sdiv_pos: "0 \<le> a \<Longrightarrow> 0 < b \<Longrightarrow> (a :: int) sdiv b = a div b" "0 \<le> a \<Longrightarrow> 0 < b \<Longrightarrow> (a :: int) smod b = a mod b"
  by (simp_all add: signed_divide_int_def signed_modulo_int_def sgn_if minus_div_mult_eq_mod)

lemma div_ceiling:
  fixes n s :: int
  assumes "0 < s"
  shows "(n + s - 1) div s = n div s + (if n mod s > 0 then 1 else 0)"
proof -
  have "n + s - 1 = n mod s + s - 1 + (n div s) * s" by (simp add: algebra_simps)
  also have "\<dots> div s = (n mod s + s - 1) div s + n div s"
    using assms by (subst div_mult_self1) simp_all
  also have "(n mod s + s - 1) div s = (if n mod s > 0 then 1 else 0)"
  proof (cases "n mod s > 0")
    case True
    have "(n mod s - 1 + 1 * s) div s = (n mod s - 1) div s + 1"
      using assms by (subst div_mult_self1) simp_all
    moreover have "(n mod s - 1) div s = 0"
      using True pos_mod_bound [OF assms, of n] by (intro div_pos_pos_trivial) auto
    ultimately show ?thesis using True by (simp add: algebra_simps)
  next
    case False
    then have "n mod s = 0" using assms pos_mod_sign [OF assms, of n] by linarith
    then show ?thesis using assms by simp
  qed
  finally show ?thesis by simp
qed

text \<open>The number of pages is the quotient rounded up.\<close>

lemma NewPagination_pages:
  fixes page psize :: int64
  assumes "0 \<le> sint count" and p_def: "p = NewPagination count page psize items"
  shows "sint (TotalPages p) = (sint count + sint (PageSize p) - 1) div sint (PageSize p)"
proof -
  let ?n = "sint count" and ?s = "sint (PageSize p)"
  have s: "?s > 0" unfolding p_def by (rule NewPagination_size)
  have t: "TotalPages p = word_of_int (?n div ?s + (if ?n mod ?s > 0 then 1 else 0))"
    using sdiv_pos [OF assms(1) s] by (simp add: p_def NewPagination_def Let_def)
  have q: "0 \<le> ?n div ?s" "?n div ?s \<le> ?n"
    using assms(1) s zdiv_mono2 [of ?n 1 ?s] by (simp_all add: pos_imp_zdiv_nonneg_iff)
  have "?n mod ?s > 0 \<Longrightarrow> ?n div ?s < ?n"
  proof -
    assume m: "?n mod ?s > 0"
    then have "?n \<noteq> 0" "?s \<noteq> 1" by auto
    with assms(1) s show ?thesis by (intro int_div_less_self) linarith+
  qed
  with q sint_int64_bounds(2) [of count]
  have "sint (TotalPages p) = ?n div ?s + (if ?n mod ?s > 0 then 1 else 0)"
    unfolding t by (intro sint_of_int64) auto
  with div_ceiling [OF s, of ?n] show ?thesis by simp
qed

text \<open>
  Once the status line has left, a later error cannot change it.
\<close>

lemma respond_JSON_status:
  "sent w = None \<Longrightarrow> \<exists>h. sent (respond_JSON encode w status payload) = Some (status, h)
     \<and> h ''Content-Type'' = Some ''application/json; charset=utf-8''"
  by (auto simp: respond_JSON_def Let_def WriteHeader_def Header_Set_def Write_def http_Error_def
      split: sum.splits)

section \<open>Properties\<close>



text \<open>
  When the payload cannot be encoded, the client still sees the status and the JSON content
  type of the original answer: the status 500 of the error path comes too late to be sent.
\<close>

theorem encoding_error_keeps_status:
  assumes "encode payload = Inl err"
  shows "\<exists>h. sent (respond_JSON encode fresh_writer status payload) = Some (status, h) \<and>
    h ''Content-Type'' = Some ''application/json; charset=utf-8'' \<and>
    body (respond_JSON encode fresh_writer status payload) = err @ [CHR 0x0A]"
  using respond_JSON_status [of fresh_writer encode status payload] assms
  by (auto simp: fresh_writer_def respond_JSON_def http_Error_def Write_def WriteHeader_def Header_Set_def Let_def)

theorem encoding_error_keeps_status_witness:
  "\<exists>h. sent (respond_JSON (\<lambda>_ :: unit Envelope. Inl ''unsupported type'') fresh_writer 200 \<lparr>Code = 0, Msg = [], Data = None\<rparr>)
     = Some (200, h)"
  using encoding_error_keeps_status [of "\<lambda>_ :: unit Envelope. Inl ''unsupported type''" "\<lparr>Code = 0, Msg = [], Data = None\<rparr>"]
  by blast

end
