(* ===== verification/Convert.thy ===== *)
theory Convert
  imports Strconv
begin

text \<open>
  Conversions between text and numbers: \<open>convert/convert.go\<close>.

  \<open>String\<close> looks at the dynamic type of its argument; \<open>any\<close> has one constructor per branch
  of its type switch. The texts that come from elsewhere (a time stamp, a \<open>Stringer\<close>, an
  error, a float, JSON) are carried by the value.
\<close>

section \<open>Text of a value\<close>

datatype any =
    NilV
  | NilRefV
  | StringV string
  | BytesV bytes
  | NumberV string
  | TimeV string
  | StringerV string
  | ErrorV string
  | BoolV bool
  | IntV int64
  | UintV "64 word"
  | FloatV string
  | OtherV "gerr + string" string

definition FormatBool :: "bool \<Rightarrow> string" where
  "FormatBool b = (if b then ''true'' else ''false'')"

fun String :: "any \<Rightarrow> string" where
  "String NilV = []"
| "String NilRefV = []"
| "String (StringV s) = s"
| "String (BytesV bs) = bs"
| "String (NumberV s) = s"
| "String (TimeV s) = s"
| "String (StringerV s) = s"
| "String (ErrorV s) = s"
| "String (BoolV b) = FormatBool b"
| "String (IntV i) = FormatInt i"
| "String (UintV u) = FormatUint u"
| "String (FloatV s) = s"
| "String (OtherV json sprint) = (case json of Inr s \<Rightarrow> s | Inl _ \<Rightarrow> sprint)"

definition StringOr :: "any \<Rightarrow> string \<Rightarrow> string" where
  "StringOr v fallback = (let s = String v in if s = [] then fallback else s)"

section \<open>Numbers in a text\<close>

definition Convert_Int :: "string \<Rightarrow> int64 \<times> gerr option" where
  "Convert_Int s = Atoi (TrimSpace s)"

definition Int64 :: "string \<Rightarrow> int64 \<times> gerr option" where
  "Int64 s = ParseInt (TrimSpace s) 64"

definition Uint :: "string \<Rightarrow> 64 word \<times> gerr option" where
  "Uint s = (case ParseUint (TrimSpace s) 64 of (v, Some err) \<Rightarrow> (0, Some err) | (v, None) \<Rightarrow> (v, None))"

definition Uint64 :: "string \<Rightarrow> 64 word \<times> gerr option" where
  "Uint64 s = ParseUint (TrimSpace s) 64"

definition Bool :: "string \<Rightarrow> bool \<times> gerr option" where
  "Bool s = ParseBool (TrimSpace s)"

text \<open>\<open>strconv.ParseFloat\<close> is a parameter.\<close>

definition Float64 :: "(string \<Rightarrow> 'f \<times> gerr option) \<Rightarrow> string \<Rightarrow> 'f \<times> gerr option" where
  "Float64 parseFloat s = parseFloat (TrimSpace s)"

definition or_fallback :: "'a \<times> gerr option \<Rightarrow> 'a \<Rightarrow> 'a" where
  "or_fallback r fallback = (case r of (v, Some _) \<Rightarrow> fallback | (v, None) \<Rightarrow> v)"

definition IntOr :: "string \<Rightarrow> int64 \<Rightarrow> int64" where
  "IntOr s fallback = or_fallback (Convert_Int s) fallback"

definition Int64Or :: "string \<Rightarrow> int64 \<Rightarrow> int64" where
  "Int64Or s fallback = or_fallback (Int64 s) fallback"

definition UintOr :: "string \<Rightarrow> 64 word \<Rightarrow> 64 word" where
  "UintOr s fallback = or_fallback (Uint s) fallback"

definition Uint64Or :: "string \<Rightarrow> 64 word \<Rightarrow> 64 word" where
  "Uint64Or s fallback = or_fallback (Uint64 s) fallback"

definition BoolOr :: "string \<Rightarrow> bool \<Rightarrow> bool" where
  "BoolOr s fallback = or_fallback (Bool s) fallback"

definition Float64Or :: "(string \<Rightarrow> 'f \<times> gerr option) \<Rightarrow> string \<Rightarrow> 'f \<Rightarrow> 'f" where
  "Float64Or parseFloat s fallback = or_fallback (Float64 parseFloat s) fallback"

section \<open>Trimming a number\<close>

lemma graphic_digit: "is_digit c \<Longrightarrow> graphic c"
  by (simp add: is_digit_def graphic_def)

lemma graphic_nat_digits: "c \<in> set (nat_digits n) \<Longrightarrow> graphic c"
  using nat_digits_digit graphic_digit by blast

lemma TrimSpace_FormatInt [simp]: "TrimSpace (FormatInt w) = FormatInt w"
proof (rule TrimSpace_graphic)
  have "\<forall>c \<in> set (FormatInt w). graphic c"
    by (auto simp: FormatInt_def format_int_def graphic_nat_digits) (simp add: graphic_def)
  then show "FormatInt w = [] \<or> graphic (hd (FormatInt w)) \<and> graphic (last (FormatInt w))"
    by (cases "FormatInt w = []") simp_all
qed

section \<open>Properties\<close>

text \<open>
  The text of an integer reads back as the same integer, for every int64, through each of
  \<open>Int\<close>, \<open>Int64\<close> and their variants with a fallback.
\<close>

theorem integer_text_roundtrip:
  "Convert_Int (String (IntV w)) = (w, None) \<and> Int64 (String (IntV w)) = (w, None) \<and>
   IntOr (String (IntV w)) d = w \<and> Int64Or (String (IntV w)) d = w"
  by (simp add: Convert_Int_def Int64_def IntOr_def Int64Or_def or_fallback_def)

end
