(* ===== verification/Logger.thy ===== *)
theory Logger
  imports Strings Prelude
begin

text \<open>
  Choosing the logger: \<open>logger/logger.go\<close>. A \<open>*slog.Logger\<close> is what it was built from: its
  output, the kind of its handler and the handler's options.
\<close>

record LogOptions =
  Level :: string
  Format :: string
  Env :: string
  AddSource :: bool

datatype handler = JSONHandler | TextHandler

record 'w slog_logger =
  log_output :: 'w
  log_handler :: handler
  log_level :: int
  log_source :: bool

definition LevelDebug :: int where "LevelDebug = - 4"
definition LevelInfo :: int where "LevelInfo = 0"
definition LevelWarn :: int where "LevelWarn = 4"
definition LevelError :: int where "LevelError = 8"

definition ParseLevel :: "string \<Rightarrow> int \<times> gerr option" where
  "ParseLevel value =
     (let v = ToLower (TrimSpace value)
      in if v = [] \<or> v = ''info'' then (LevelInfo, None)
         else if v = ''debug'' then (LevelDebug, None)
         else if v = ''warn'' \<or> v = ''warning'' then (LevelWarn, None)
         else if v = ''error'' then (LevelError, None)
         else (LevelInfo, Some (Errorf ''invalid log level %q'' [value])))"

text \<open>A nil writer is replaced by the standard error stream.\<close>

definition New_Logger :: "'w \<Rightarrow> 'w option \<Rightarrow> LogOptions \<Rightarrow> gerr + 'w slog_logger" where
  "New_Logger stderr out options =
     (let out = (case out of None \<Rightarrow> stderr | Some w \<Rightarrow> w)
      in (case ParseLevel (Level options) of
            (_, Some err) \<Rightarrow> Inl err
          | (level, None) \<Rightarrow>
              let format = ToLower (TrimSpace (Format options));
                  format = (if format = [] \<and> TrimSpace (Env options) \<noteq> ''dev'' then ''json'' else format)
              in Inr \<lparr> log_output = out,
                       log_handler = (if format = ''json'' then JSONHandler else TextHandler),
                       log_level = level, log_source = AddSource options \<rparr>))"

text \<open>\<open>Must\<close> panics with the error (\<^term>\<open>Inl\<close>).\<close>

definition Must_Logger :: "'w \<Rightarrow> 'w option \<Rightarrow> LogOptions \<Rightarrow> gerr + 'w slog_logger" where
  "Must_Logger stderr out options = New_Logger stderr out options"

text \<open>The level decides whether there is a logger; outside \<open>dev\<close> the default is JSON.\<close>

lemma New_Logger_error:
  "(\<exists>e. New_Logger stderr out options = Inl e) \<longleftrightarrow> snd (ParseLevel (Level options)) \<noteq> None"
  by (auto simp: New_Logger_def Let_def split: prod.splits option.splits)

lemma ParseLevel_levels:
  "snd (ParseLevel v) = None \<longleftrightarrow>
   ToLower (TrimSpace v) \<in> {[], ''info'', ''debug'', ''warn'', ''warning'', ''error''}"
  by (auto simp: ParseLevel_def Let_def)

end
