(* ===== verification/Unquote.thy ===== *)
theory Unquote
  imports Strconv
begin

text \<open>
  \<open>strconv.Unquote\<close> of the Go library for a text in double quotes, which the dotenv parser
  calls: escapes, the decoding of UTF-8 on the way, and the errors. The fast path of the library
  for a text without escapes gives what the loop gives and is not modelled on its own. The
  lemmas show that a printed text is read back.
\<close>

section \<open>UTF-8\<close>

text \<open>The byte at a place lies in a range.\<close>

definition byte_in :: "nat \<Rightarrow> nat \<Rightarrow> string \<Rightarrow> nat \<Rightarrow> bool" where
  "byte_in lo hi s i \<longleftrightarrow> i < length s \<and> lo \<le> (of_char (s ! i) :: nat) \<and> (of_char (s ! i) :: nat) \<le> hi"

text \<open>\<open>utf8.DecodeRune\<close>: the number of bytes of the encoding at the front, if it is one.\<close>

definition rune_size :: "string \<Rightarrow> nat option" where
  "rune_size s =
     (if byte_in 0 0x7F s 0 then Some 1
      else if byte_in 0xC2 0xDF s 0 \<and> byte_in 0x80 0xBF s 1 then Some 2
      else if (byte_in 0xE0 0xE0 s 0 \<and> byte_in 0xA0 0xBF s 1
               \<or> byte_in 0xE1 0xEC s 0 \<and> byte_in 0x80 0xBF s 1
               \<or> byte_in 0xED 0xED s 0 \<and> byte_in 0x80 0x9F s 1
               \<or> byte_in 0xEE 0xEF s 0 \<and> byte_in 0x80 0xBF s 1) \<and> byte_in 0x80 0xBF s 2 then Some 3
      else if (byte_in 0xF0 0xF0 s 0 \<and> byte_in 0x90 0xBF s 1
               \<or> byte_in 0xF1 0xF3 s 0 \<and> byte_in 0x80 0xBF s 1
               \<or> byte_in 0xF4 0xF4 s 0 \<and> byte_in 0x80 0x8F s 1)
              \<and> byte_in 0x80 0xBF s 2 \<and> byte_in 0x80 0xBF s 3 then Some 4
      else None)"

definition valid_rune :: "nat \<Rightarrow> bool" where
  "valid_rune v \<longleftrightarrow> v < 0xD800 \<or> 0xDFFF < v \<and> v \<le> 0x10FFFF"

text \<open>\<open>utf8.AppendRune\<close>, for a valid rune.\<close>

definition encode_rune :: "nat \<Rightarrow> string" where
  "encode_rune v = map char_of
     (if v < 0x80 then [v]
      else if v < 0x800 then [0xC0 + v div 64, 0x80 + v mod 64]
      else if v < 0x10000 then [0xE0 + v div 4096, 0x80 + v div 64 mod 64, 0x80 + v mod 64]
      else [0xF0 + v div 262144, 0x80 + v div 4096 mod 64, 0x80 + v div 64 mod 64, 0x80 + v mod 64])"

text \<open>The rune a byte that starts no encoding decodes to, U+FFFD.\<close>

definition rune_error :: string where
  "rune_error = [CHR 0xEF, CHR 0xBF, CHR 0xBD]"

section \<open>Escapes\<close>

abbreviation DQ :: char where
  "DQ \<equiv> CHR 0x22"

abbreviation BS :: char where
  "BS \<equiv> CHR 0x5C"

definition unhex :: "char \<Rightarrow> nat option" where
  "unhex c = (let n = of_char c in
     if 48 \<le> n \<and> n \<le> 57 then Some (n - 48)
     else if 97 \<le> n \<and> n \<le> 102 then Some (n - 87)
     else if 65 \<le> n \<and> n \<le> 70 then Some (n - 55) else None)"

definition unoctal :: "char \<Rightarrow> nat option" where
  "unoctal c = (let n = of_char c in if 48 \<le> n \<and> n \<le> 55 then Some (n - 48) else None)"

text \<open>A fixed number of digits.\<close>

fun read_digits :: "(char \<Rightarrow> nat option) \<Rightarrow> nat \<Rightarrow> nat \<Rightarrow> nat \<Rightarrow> string \<Rightarrow> (nat \<times> string) option" where
  "read_digits dig base 0 v s = Some (v, s)"
| "read_digits dig base (Suc n) v [] = None"
| "read_digits dig base (Suc n) v (c # s) =
     (case dig c of None \<Rightarrow> None | Some d \<Rightarrow> read_digits dig base n (v * base + d) s)"

lemma read_digits_shorter: "read_digits dig base n v s = Some (w, r) \<Longrightarrow> length r \<le> length s"
  by (induction dig base n v s rule: read_digits.induct) (auto split: option.splits)

text \<open>The escapes of one letter.\<close>

definition letter_escape :: "char \<Rightarrow> char option" where
  "letter_escape c = map_of
     [(CHR ''a'', CHR 0x07), (CHR ''b'', CHR 0x08), (CHR ''f'', CHR 0x0C), (CHR ''n'', CHR 0x0A),
      (CHR ''r'', CHR 0x0D), (CHR ''t'', CHR 0x09), (CHR ''v'', CHR 0x0B), (BS, BS), (DQ, DQ)] c"

text \<open>What follows a backslash: the bytes it stands for, and the rest.\<close>

definition unescape :: "char \<Rightarrow> string \<Rightarrow> (string \<times> string) option" where
  "unescape c s =
     (if letter_escape c \<noteq> None then Some ([the (letter_escape c)], s)
      else if c = CHR ''x'' then map_option (\<lambda>(v, r). ([char_of v], r)) (read_digits unhex 16 2 0 s)
      else if c = CHR ''u'' \<or> c = CHR ''U'' then
        (case read_digits unhex 16 (if c = CHR ''u'' then 4 else 8) 0 s of None \<Rightarrow> None
         | Some (v, r) \<Rightarrow> if valid_rune v then Some (encode_rune v, r) else None)
      else (case unoctal c of None \<Rightarrow> None
            | Some d \<Rightarrow>
                (case read_digits unoctal 8 2 d s of None \<Rightarrow> None
                 | Some (v, r) \<Rightarrow> if v \<le> 255 then Some ([char_of v], r) else None)))"

text \<open>\<open>UnquoteChar\<close> for the quote \<open>DQ\<close>, with the bytes the caller appends for its rune.\<close>

definition UnquoteChar :: "string \<Rightarrow> (string \<times> string) option" where
  "UnquoteChar s =
     (case s of [] \<Rightarrow> None
      | c # r \<Rightarrow>
          if c = DQ then None
          else if c = BS then (case r of [] \<Rightarrow> None | e # r \<Rightarrow> unescape e r)
          else (case rune_size s of
                  Some n \<Rightarrow> Some (take n s, drop n s)
                | None \<Rightarrow> Some (rune_error, r)))"

lemma unescape_shorter: "unescape c s = Some (b, r) \<Longrightarrow> length r \<le> length s"
  by (auto simp: unescape_def split: if_splits option.splits prod.splits dest: read_digits_shorter)

lemma rune_size_bound: "rune_size s = Some n \<Longrightarrow> 0 < n"
  by (auto simp: rune_size_def split: if_splits)

lemma UnquoteChar_shorter: "UnquoteChar s = Some (b, r) \<Longrightarrow> length r < length s"
  by (auto simp: UnquoteChar_def split: list.splits if_splits option.splits
           dest!: unescape_shorter rune_size_bound)

function unquote_body :: "string \<Rightarrow> (string \<times> string) option" where
  "unquote_body s =
     (case s of [] \<Rightarrow> None
      | c # r \<Rightarrow>
          if c = DQ then Some ([], r)
          else if c = CHR 0x0A then None
          else (case UnquoteChar s of None \<Rightarrow> None
                | Some (b, r) \<Rightarrow> map_option (\<lambda>(out, rem). (b @ out, rem)) (unquote_body r)))"
  by pat_completeness auto
termination
  by (relation "measure length") (auto dest: UnquoteChar_shorter)

declare unquote_body.simps [simp del]

text \<open>\<open>Unquote\<close>, for a text that starts with a double quote: nothing may follow the closing quote.\<close>

definition Unquote :: "string \<Rightarrow> gerr + string" where
  "Unquote s = (case unquote_body (tl s) of Some (out, []) \<Rightarrow> Inr out | _ \<Rightarrow> Inl (Sentinel ErrSyntax))"

section \<open>Round trip\<close>

text \<open>A quoted text: printable ASCII as it is, every other byte, quotes and backslashes in hexadecimal.\<close>

definition quote_byte :: "char \<Rightarrow> string" where
  "quote_byte c =
     (if (32 \<le> (of_char c :: nat) \<and> (of_char c :: nat) \<le> 126) \<and> c \<noteq> DQ \<and> c \<noteq> BS then [c]
      else [BS, CHR ''x'', hex_digit (of_char c div 16), hex_digit (of_char c mod 16)])"

definition quote :: "string \<Rightarrow> string" where
  "quote s = DQ # concat (map quote_byte s) @ [DQ]"

lemma unhex_hex_digit: "d < 16 \<Longrightarrow> unhex (hex_digit d) = Some d"
  by (auto simp: unhex_def hex_digit_def Let_def)

lemma of_char_div: "(of_char c :: nat) div 16 < 16"
  by (rule less_mult_imp_div_less) simp

lemma unescape_hex:
  "unescape (CHR ''x'') (hex_digit (of_char c div 16) # hex_digit (of_char c mod 16) # s) = Some ([c], s)"
  by (simp add: unescape_def letter_escape_def numeral_2_eq_2 unhex_hex_digit of_char_div)

lemma rune_size_ascii: "32 \<le> (of_char c :: nat) \<Longrightarrow> (of_char c :: nat) \<le> 126 \<Longrightarrow> rune_size (c # s) = Some 1"
  by (simp add: rune_size_def byte_in_def)

lemma UnquoteChar_quote_byte: "UnquoteChar (quote_byte c @ s) = Some ([c], s)"
  by (auto simp: quote_byte_def UnquoteChar_def unescape_hex rune_size_ascii)

lemma quote_byte_hd: "\<exists>h t. quote_byte c = h # t \<and> h \<noteq> DQ \<and> h \<noteq> CHR 0x0A"
  by (auto simp: quote_byte_def)

lemma unquote_body_quote_byte:
  "unquote_body (quote_byte c @ s) = map_option (\<lambda>(out, rem). (c # out, rem)) (unquote_body s)"
proof -
  obtain h t where h: "quote_byte c = h # t" "h \<noteq> DQ" "h \<noteq> CHR 0x0A"
    using quote_byte_hd by blast
  from UnquoteChar_quote_byte [of c s] h(1) have "UnquoteChar (h # t @ s) = Some ([c], s)" by simp
  with h show ?thesis by (subst unquote_body.simps) simp
qed

lemma unquote_body_quote: "unquote_body (concat (map quote_byte s) @ DQ # r) = Some (s, r)"
proof (induction s)
  case Nil
  show ?case by (subst unquote_body.simps) simp
next
  case (Cons c s)
  then show ?case by (simp add: unquote_body_quote_byte)
qed

lemma Unquote_quote [simp]: "Unquote (quote s) = Inr s"
  by (simp add: Unquote_def quote_def unquote_body_quote)

text \<open>A quoted text holds printable bytes only.\<close>

lemma hex_digit_graphic: "d < 16 \<Longrightarrow> graphic (hex_digit d)"
  by (auto simp: hex_digit_def graphic_def)

lemma quote_printable: "c \<in> set (quote s) \<Longrightarrow> 32 \<le> (of_char c :: nat) \<and> (of_char c :: nat) \<le> 126"
proof -
  have "32 \<le> (of_char c :: nat) \<and> (of_char c :: nat) \<le> 126" if "c \<in> set (quote_byte b)" for b
    using that hex_digit_graphic [OF of_char_div [of b]] hex_digit_graphic [of "of_char b mod 16"]
    by (auto simp: quote_byte_def graphic_def split: if_splits)
  moreover assume "c \<in> set (quote s)"
  ultimately show ?thesis by (auto simp: quote_def)
qed

end
