(* ===== verification/Config_DotEnv.thy ===== *)
theory Config_DotEnv
  imports Unquote
begin

text \<open>
  The dotenv files of \<open>config/dotenv.go\<close>: the line parser, its values with their three styles
  of quoting, and the loading of several files into the environment, where a variable that is
  set already wins. A file is what the calls of \<open>os\<close> give for it; the environment is a map. The
  lemmas show that a written file is read back, what the environment holds after the loading,
  and that a file with a fault contributes nothing.
\<close>

section \<open>Files and the environment\<close>

text \<open>
  What a path gives: the error of \<open>os.Open\<close>; the bytes that are read and the error the reading
  ends with, if it is not the end of the file; the error of \<open>Close\<close>.
\<close>

record dot_file =
  df_open :: "gerr option"
  df_data :: bytes
  df_read :: "gerr option"
  df_close :: "gerr option"

text \<open>\<open>os.Setenv\<close>: no NUL byte anywhere, and a key that is not empty and has no equals sign.\<close>

definition Setenv :: "string \<Rightarrow> string \<Rightarrow> environ \<Rightarrow> gerr option \<times> environ" where
  "Setenv k v env =
     (if k = [] \<or> CHR ''='' \<in> set k \<or> CHR 0x00 \<in> set k \<or> CHR 0x00 \<in> set v
      then (Some (Errorf ''setenv: invalid argument'' []), env)
      else (None, env(k \<mapsto> v)))"

text \<open>
  The lines of \<open>bufio.Scanner\<close>: without the line end and one carriage return before it; a line
  that does not fit the buffer of 64 kB ends the scan with an error.
\<close>

definition scan_limit :: nat where
  "scan_limit = 65536"

function scan_lines :: "bytes \<Rightarrow> string list \<times> bool" where
  "scan_lines s =
     (if s = [] then ([], False)
      else case Cut s [CHR 0x0A] of
        None \<Rightarrow> if length s < scan_limit then ([TrimSuffix s [CHR 0x0D]], False) else ([], True)
      | Some (l, rest) \<Rightarrow>
          if length l < scan_limit
          then (case scan_lines rest of (ls, long) \<Rightarrow> (TrimSuffix l [CHR 0x0D] # ls, long))
          else ([], True))"
  by pat_completeness auto
termination
  by (relation "measure length") (auto dest: Cut_append)

declare scan_lines.simps [simp del]

section \<open>The parser\<close>

record dotEnvEntry =
  de_key :: string
  de_value :: string

definition parseDotEnvValue :: "string \<Rightarrow> gerr + string" where
  "parseDotEnvValue value =
     (if value = [] then Inr []
      else if HasPrefix value [DQ] then Unquote value
      else if HasPrefix value [CHR 0x27] \<and> HasSuffix value [CHR 0x27]
           then Inr (TrimSuffix (TrimPrefix value [CHR 0x27]) [CHR 0x27])
      else (let value = (case Cut value '' #'' of None \<Rightarrow> value | Some (beforeComment, _) \<Rightarrow> beforeComment)
            in Inr (TrimSpace value)))"

text \<open>One line: nothing, an entry, or an error that names the line.\<close>

definition parse_line :: "string \<Rightarrow> nat \<Rightarrow> string \<Rightarrow> gerr + dotEnvEntry option" where
  "parse_line name lineNo text =
     (let line = TrimSpace text in
      if line = [] \<or> HasPrefix line ''#'' then Inr None
      else case Cut (TrimPrefix line ''export '') ''='' of
        None \<Rightarrow> Inl (Errorf (''%s:%d: missing '' @ [CHR 0x27, CHR ''='', CHR 0x27]) [name, nat_digits lineNo])
      | Some (key, value) \<Rightarrow>
          (let key = TrimSpace key in
           if key = [] then Inl (Errorf ''%s:%d: empty key'' [name, nat_digits lineNo])
           else case parseDotEnvValue (TrimSpace value) of
             Inl err \<Rightarrow> Inl (Wrapf ''%s:%d: %w'' err [name, nat_digits lineNo])
           | Inr parsed \<Rightarrow> Inr (Some \<lparr>de_key = key, de_value = parsed\<rparr>)))"

text \<open>The loop over the lines; \<open>err\<close> is what the scanner reports when it has no more lines.\<close>

fun parse_lines :: "string \<Rightarrow> nat \<Rightarrow> string list \<Rightarrow> gerr option \<Rightarrow> gerr + dotEnvEntry list" where
  "parse_lines name lineNo [] err = (case err of None \<Rightarrow> Inr [] | Some e \<Rightarrow> Inl e)"
| "parse_lines name lineNo (l # ls) err =
     (case parse_line name (lineNo + 1) l of
        Inl e \<Rightarrow> Inl e
      | Inr entry \<Rightarrow>
          (case parse_lines name (lineNo + 1) ls err of
             Inl e \<Rightarrow> Inl e
           | Inr entries \<Rightarrow> Inr ((case entry of None \<Rightarrow> [] | Some x \<Rightarrow> [x]) @ entries)))"

definition parseDotEnv :: "dot_file \<Rightarrow> string \<Rightarrow> gerr + dotEnvEntry list" where
  "parseDotEnv f name =
     (case scan_lines (df_data f) of (ls, long) \<Rightarrow>
        parse_lines name 0 ls (if long then Some (Errorf ''bufio.Scanner: token too long'' []) else df_read f))"

section \<open>Loading\<close>

record DotEnvLoadResult =
  dr_Loaded :: "string list"
  dr_Errors :: "gerr list"

definition Result_Err :: "DotEnvLoadResult \<Rightarrow> gerr option" where
  "Result_Err result = (if dr_Errors result = [] then None else errors_Join (map Some (dr_Errors result)))"

text \<open>The inner loop: skip a variable that exists, set the others, stop at an error.\<close>

fun set_entries :: "dotEnvEntry list \<Rightarrow> environ \<Rightarrow> gerr option \<times> environ" where
  "set_entries [] env = (None, env)"
| "set_entries (entry # entries) env =
     (if env (de_key entry) \<noteq> None then set_entries entries env
      else case Setenv (de_key entry) (de_value entry) env of
        (Some err, env) \<Rightarrow> (Some err, env)
      | (None, env) \<Rightarrow> set_entries entries env)"

text \<open>The entries of one file, with the error of \<open>Close\<close> when the parser has none.\<close>

definition read_entries :: "dot_file \<Rightarrow> string \<Rightarrow> gerr + dotEnvEntry list" where
  "read_entries f path =
     (case parseDotEnv f path of
        Inl err \<Rightarrow> Inl err
      | Inr entries \<Rightarrow> (case df_close f of None \<Rightarrow> Inr entries | Some err \<Rightarrow> Inl err))"

definition try_load ::
  "(string \<Rightarrow> dot_file) \<Rightarrow> string \<Rightarrow> DotEnvLoadResult \<Rightarrow> environ \<Rightarrow> DotEnvLoadResult \<times> environ" where
  "try_load fs path result env =
     (if path = [] then (result, env)
      else case df_open (fs path) of
        Some err \<Rightarrow>
          if errors_Is err ErrNotExist then (result, env)
          else (result\<lparr>dr_Errors := dr_Errors result @ [Wrapf ''%s: %w'' err [path]]\<rparr>, env)
      | None \<Rightarrow>
     (case read_entries (fs path) path of
        Inl err \<Rightarrow> (result\<lparr>dr_Errors := dr_Errors result @ [err]\<rparr>, env)
      | Inr entries \<Rightarrow>
          (case set_entries entries env of (err, env) \<Rightarrow>
             (result\<lparr>dr_Loaded := dr_Loaded result @ [path],
                dr_Errors := dr_Errors result @ (case err of None \<Rightarrow> [] | Some e \<Rightarrow> [e])\<rparr>, env))))"

fun try_loop ::
  "(string \<Rightarrow> dot_file) \<Rightarrow> string list \<Rightarrow> DotEnvLoadResult \<Rightarrow> environ \<Rightarrow> DotEnvLoadResult \<times> environ" where
  "try_loop fs [] result env = (result, env)"
| "try_loop fs (path # paths) result env =
     (case try_load fs path result env of (result, env) \<Rightarrow> try_loop fs paths result env)"

definition TryLoadDotEnv ::
  "(string \<Rightarrow> dot_file) \<Rightarrow> string list \<Rightarrow> environ \<Rightarrow> DotEnvLoadResult \<times> environ" where
  "TryLoadDotEnv fs paths env = try_loop fs paths \<lparr>dr_Loaded = [], dr_Errors = []\<rparr> env"

definition LoadDotEnv :: "(string \<Rightarrow> dot_file) \<Rightarrow> string list \<Rightarrow> environ \<Rightarrow> gerr option \<times> environ" where
  "LoadDotEnv fs paths env =
     (case TryLoadDotEnv fs paths env of (result, env) \<Rightarrow>
        (if dr_Loaded result \<noteq> [] then None else Result_Err result, env))"

section \<open>Written files\<close>

text \<open>
  A file as it is written: blank lines, comments, and assignments with the three styles of values.
\<close>

datatype dot_value = Bare string | Single string | Double string

datatype dot_line = Blank nat | Comment string | Assign bool string dot_value

fun value_text :: "dot_value \<Rightarrow> string" where
  "value_text (Bare v) = v"
| "value_text (Single v) = CHR 0x27 # v @ [CHR 0x27]"
| "value_text (Double v) = quote v"

fun value_of :: "dot_value \<Rightarrow> string" where
  "value_of (Bare v) = v"
| "value_of (Single v) = v"
| "value_of (Double v) = v"

fun line_text :: "dot_line \<Rightarrow> string" where
  "line_text (Blank n) = replicate n (CHR '' '')"
| "line_text (Comment t) = CHR ''#'' # t"
| "line_text (Assign export k v) = (if export then ''export '' else []) @ k @ CHR ''='' # value_text v"

fun line_entry :: "dot_line \<Rightarrow> dotEnvEntry option" where
  "line_entry (Blank n) = None"
| "line_entry (Comment t) = None"
| "line_entry (Assign export k v) = Some \<lparr>de_key = k, de_value = value_of v\<rparr>"

text \<open>
  What may be written bare: nothing that the parser trims, takes for a quote or for a comment.
\<close>

fun value_ok :: "dot_value \<Rightarrow> bool" where
  "value_ok (Bare v) \<longleftrightarrow> CHR 0x0A \<notin> set v \<and> Cut v '' #'' = None \<and>
     (v = [] \<or> graphic (hd v) \<and> graphic (last v) \<and> hd v \<noteq> DQ \<and> hd v \<noteq> CHR 0x27)"
| "value_ok (Single v) \<longleftrightarrow> CHR 0x0A \<notin> set v"
| "value_ok (Double v) \<longleftrightarrow> True"

definition key_ok :: "string \<Rightarrow> bool" where
  "key_ok k \<longleftrightarrow> k \<noteq> [] \<and> hd k \<noteq> CHR ''#'' \<and> list_all (\<lambda>c. graphic c \<and> c \<noteq> CHR ''='') k"

fun line_ok :: "dot_line \<Rightarrow> bool" where
  "line_ok (Blank n) \<longleftrightarrow> True"
| "line_ok (Comment t) \<longleftrightarrow> CHR 0x0A \<notin> set t"
| "line_ok (Assign export k v) \<longleftrightarrow> key_ok k \<and> value_ok v"

definition file_text :: "dot_line list \<Rightarrow> bytes" where
  "file_text ls = concat (map (\<lambda>l. line_text l @ [CHR 0x0A]) ls)"

definition file_entries :: "dot_line list \<Rightarrow> dotEnvEntry list" where
  "file_entries ls = List.map_filter line_entry ls"

text \<open>Lines.\<close>

lemma scan_lines_Cons:
  "CHR 0x0A \<notin> set l \<Longrightarrow> length l < scan_limit \<Longrightarrow>
   scan_lines (l @ CHR 0x0A # s) = (TrimSuffix l [CHR 0x0D] # fst (scan_lines s), snd (scan_lines s))"
  by (subst scan_lines.simps) (simp add: Cut_char split: prod.split)

lemma scan_lines_Nil [simp]: "scan_lines [] = ([], False)"
  by (subst scan_lines.simps) simp

lemma quote_no_LF: "CHR 0x0A \<notin> set (quote v)"
  using quote_printable [of "CHR 0x0A" v] by auto

lemma value_no_LF: "value_ok v \<Longrightarrow> CHR 0x0A \<notin> set (value_text v)"
  by (cases v) (auto simp: quote_no_LF)

lemma graphic_iff: "graphic (CHR 0x0A) = False" "graphic (CHR 0x0D) = False" "graphic (CHR '' '') = False"
  "graphic (CHR ''='')" "graphic (CHR ''e'')" "graphic (CHR ''#'')" "graphic DQ" "graphic (CHR 0x27)"
  by (simp_all add: graphic_def)

lemma key_facts:
  assumes "key_ok k"
  shows "k \<noteq> []" "graphic (hd k)" "graphic (last k)" "CHR ''='' \<notin> set k" "CHR '' '' \<notin> set k" "CHR 0x0A \<notin> set k"
    "TrimSpace k = k"
proof -
  from assms have k: "k \<noteq> []" "\<forall>c \<in> set k. graphic c \<and> c \<noteq> CHR ''=''"
    by (auto simp: key_ok_def list_all_iff)
  then show "k \<noteq> []" "graphic (hd k)" "graphic (last k)" "CHR ''='' \<notin> set k" "CHR '' '' \<notin> set k" "CHR 0x0A \<notin> set k"
    using graphic_iff by auto
  then show "TrimSpace k = k" by (simp add: TrimSpace_graphic)
qed

lemma line_no_LF: "line_ok l \<Longrightarrow> CHR 0x0A \<notin> set (line_text l)"
  by (cases l) (auto simp: value_no_LF key_facts)

text \<open>Values.\<close>

lemma value_ends:
  assumes "value_ok v" "value_text v \<noteq> []"
  shows "graphic (hd (value_text v))" "graphic (last (value_text v))"
  using assms graphic_iff by (cases v; auto simp: quote_def)+

lemma TrimSpace_value: "value_ok v \<Longrightarrow> TrimSpace (value_text v) = value_text v"
  by (rule TrimSpace_graphic) (use value_ends in blast)

lemma parse_value: "value_ok v \<Longrightarrow> parseDotEnvValue (value_text v) = Inr (value_of v)"
proof (cases v)
  case (Bare w)
  moreover assume "value_ok v"
  ultimately have w: "Cut w '' #'' = None" "w = [] \<or> graphic (hd w) \<and> graphic (last w) \<and> hd w \<noteq> DQ \<and> hd w \<noteq> CHR 0x27"
    by auto
  then have "TrimSpace w = w" by (intro TrimSpace_graphic) blast
  moreover have "\<not> HasPrefix w [DQ]" "\<not> HasPrefix w [CHR 0x27]" if "w \<noteq> []"
    using w(2) that by (cases w; simp)+
  ultimately show ?thesis using Bare w(1) by (auto simp: parseDotEnvValue_def)
next
  case (Single w)
  have "HasSuffix (CHR 0x27 # w @ [CHR 0x27]) [CHR 0x27]" by (auto simp: HasSuffix_iff)
  moreover have "TrimPrefix (CHR 0x27 # w @ [CHR 0x27]) [CHR 0x27] = w @ [CHR 0x27]"
    using TrimPrefix_append [of "[CHR 0x27]" "w @ [CHR 0x27]"] by simp
  ultimately show ?thesis using Single by (simp add: parseDotEnvValue_def)
next
  case (Double w)
  then show ?thesis by (simp add: parseDotEnvValue_def) (simp add: quote_def)
qed

text \<open>Lines.\<close>

lemma not_export: "CHR '' '' \<notin> set k \<Longrightarrow> \<not> HasPrefix (k @ CHR ''='' # v) ''export ''"
proof
  assume k: "CHR '' '' \<notin> set k" and "HasPrefix (k @ CHR ''='' # v) ''export ''"
  then obtain r where "k @ CHR ''='' # v = ''export '' @ r" unfolding HasPrefix_iff by blast
  then consider us where "k = ''export '' @ us" | us where "''export '' = k @ us" "us @ r = CHR ''='' # v"
    unfolding append_eq_append_conv2 by metis
  then show False
  proof cases
    case 1
    with k show False by simp
  next
    case (2 us)
    show False
    proof (cases us)
      case Nil
      with 2(1) have "k = ''export ''" by simp
      with k show False by simp
    next
      case (Cons u us')
      with 2(2) have "u = CHR ''=''" by simp
      with Cons 2(1) have "CHR ''='' \<in> set ''export ''" by (metis in_set_conv_decomp)
      then show False by simp
    qed
  qed
qed

lemma find_space: "find (HasPrefix (CHR '' '' # s)) space_runes = Some [CHR '' '']"
proof -
  have "(of_char (CHR '' '') :: nat) = 32" by simp
  then have "char_of (32 :: nat) = CHR '' ''" by (metis char_of_char)
  then have "space_runes = [CHR '' ''] # tl space_runes"
    by (simp add: space_runes_def space_codes_def)
  then show ?thesis by (metis HasPrefix_Cons HasPrefix_Nil find.simps(2))
qed

lemma drop_spaces: "drop_runes space_runes (replicate n (CHR '' '')) = []"
  by (induction n) (simp_all add: find_space)

lemma TrimSpace_spaces [simp]: "TrimSpace (replicate n (CHR '' '')) = []"
  by (simp add: TrimSpace_def drop_spaces)

lemma TrimSpace_hd:
  assumes "graphic c"
  shows "\<exists>t. TrimSpace (c # s) = c # t"
proof -
  let ?y = "drop_runes (map rev space_runes) (rev (c # s))"
  have front: "drop_runes space_runes (c # s) = c # s"
    by (rule drop_runes_of_clear, rule clear_front) (simp add: assms)
  have "\<exists>p. rev (c # s) = p @ ?y" by (rule drop_runes_suffix [OF space_runes_nonempty(2)])
  then obtain p where p: "rev (c # s) = p @ ?y" ..
  have "?y \<noteq> []"
  proof
    assume "?y = []"
    then have "\<exists>r \<in> set (map rev space_runes). last (rev (c # s)) = last r"
      using drop_runes_all [OF space_runes_nonempty(2)] by blast
    then obtain q where "q \<in> set space_runes" "c = hd q" by (auto simp: last_rev)
    with space_rune_ends assms show False by auto
  qed
  with p have "last ?y = c" by (metis last_append last_rev list.sel(1))
  with \<open>?y \<noteq> []\<close> have "\<exists>t. rev ?y = c # t" by (metis hd_rev list.collapse rev_is_Nil_conv)
  then show ?thesis by (simp only: TrimSpace_def front)
qed

lemma TrimSuffix_last: "s = [] \<or> last s \<noteq> x \<Longrightarrow> TrimSuffix s [x] = s"
  by (auto simp: TrimSuffix_def HasSuffix_iff)

lemma assign_ends:
  assumes "line_ok (Assign export k v)"
  shows "graphic (hd (line_text (Assign export k v)))" "graphic (last (line_text (Assign export k v)))"
    "hd (line_text (Assign export k v)) \<noteq> CHR ''#''"
  using assms key_facts [of k] value_ends [of v] by (auto simp: graphic_iff key_ok_def)

lemma parse_written_line:
  assumes "line_ok l"
  shows "parse_line name n (TrimSuffix (line_text l) [CHR 0x0D]) = Inr (line_entry l)"
proof (cases l)
  case (Blank m)
  then have "TrimSuffix (line_text l) [CHR 0x0D] = replicate m (CHR '' '')"
    using TrimSuffix_last [of "replicate m (CHR '' '')" "CHR 0x0D"] by (cases m) simp_all
  with Blank show ?thesis by (simp add: parse_line_def)
next
  case (Comment t)
  have "\<exists>u. TrimSuffix (CHR ''#'' # t) [CHR 0x0D] = CHR ''#'' # u"
    by (cases t rule: rev_cases) (auto simp: TrimSuffix_def HasSuffix_iff)
  then obtain u where u: "TrimSuffix (line_text l) [CHR 0x0D] = CHR ''#'' # u" using Comment by auto
  obtain w where "TrimSpace (CHR ''#'' # u) = CHR ''#'' # w" using TrimSpace_hd graphic_iff by blast
  with u Comment show ?thesis by (simp add: parse_line_def)
next
  case (Assign export k v)
  let ?t = "line_text l" and ?kv = "k @ CHR ''='' # value_text v"
  from assms Assign have ok: "key_ok k" "value_ok v" by auto
  from assms Assign have ends: "graphic (hd ?t)" "graphic (last ?t)" "hd ?t \<noteq> CHR ''#''"
    using assign_ends [of export k v] by (simp_all del: line_text.simps)
  then have "last ?t \<noteq> CHR 0x0D" using graphic_iff by auto
  then have t: "TrimSuffix ?t [CHR 0x0D] = ?t" by (simp add: TrimSuffix_last)
  have trim: "TrimSpace ?t = ?t" using ends by (simp add: TrimSpace_graphic)
  have ne: "?t \<noteq> []" using Assign by simp
  with ends(3) have hash: "\<not> HasPrefix ?t ''#''" by (cases ?t) auto
  have "TrimPrefix ?t ''export '' = ?kv"
  proof (cases export)
    case True
    with Assign TrimPrefix_append [of "''export ''" ?kv] show ?thesis by simp
  next
    case False
    with Assign not_export key_facts(5) [OF ok(1)] show ?thesis by (simp add: TrimPrefix_def)
  qed
  then show ?thesis
    using ok t trim ne hash Assign key_facts [OF ok(1)]
    by (simp add: parse_line_def Cut_char TrimSpace_value parse_value)
qed

text \<open>Files.\<close>

lemma file_text_simps: "file_text [] = []" "file_text (l # ls) = line_text l @ CHR 0x0A # file_text ls"
  by (simp_all add: file_text_def)

lemma file_entries_simps:
  "file_entries [] = []" "file_entries (l # ls) = (case line_entry l of None \<Rightarrow> [] | Some x \<Rightarrow> [x]) @ file_entries ls"
  by (simp_all add: file_entries_def split: option.split)

lemma parse_written_lines:
  "list_all (\<lambda>l. line_ok l \<and> length (line_text l) < scan_limit) ls \<Longrightarrow>
   \<not> snd (scan_lines (file_text ls)) \<and>
   parse_lines name n (fst (scan_lines (file_text ls))) None = Inr (file_entries ls)"
proof (induction ls arbitrary: n)
  case Nil
  show ?case by (simp add: file_text_simps file_entries_simps)
next
  case (Cons l ls)
  then have l: "line_ok l" "length (line_text l) < scan_limit"
    and ls: "list_all (\<lambda>l. line_ok l \<and> length (line_text l) < scan_limit) ls" by auto
  show ?case
    using Cons.IH [OF ls, of "n + 1"]
    by (simp add: file_text_simps file_entries_simps scan_lines_Cons [OF line_no_LF [OF l(1)] l(2)]
        parse_written_line [OF l(1)] del: line_text.simps)
qed

lemma parse_file_text:
  assumes "list_all (\<lambda>l. line_ok l \<and> length (line_text l) < scan_limit) ls"
    and "df_data f = file_text ls" and "df_read f = None"
  shows "parseDotEnv f name = Inr (file_entries ls)"
  using parse_written_lines [OF assms(1), of name 0] assms(2,3)
  by (simp add: parseDotEnv_def case_prod_beta)

section \<open>What is loaded\<close>

text \<open>The pairs of entries, and the entries of the file at a path.\<close>

definition pairs :: "dotEnvEntry list \<Rightarrow> (string \<times> string) list" where
  "pairs entries = map (\<lambda>x. (de_key x, de_value x)) entries"

definition entries_at :: "(string \<Rightarrow> dot_file) \<Rightarrow> string \<Rightarrow> dotEnvEntry list" where
  "entries_at fs path = (case read_entries (fs path) path of Inl _ \<Rightarrow> [] | Inr entries \<Rightarrow> entries)"

definition loadable :: "(string \<Rightarrow> dot_file) \<Rightarrow> string \<Rightarrow> bool" where
  "loadable fs path \<longleftrightarrow>
     path \<noteq> [] \<and> df_open (fs path) = None \<and> result_error (read_entries (fs path) path) = None"

text \<open>Values that an environment can hold.\<close>

definition no_NUL :: "dotEnvEntry \<Rightarrow> bool" where
  "no_NUL x \<longleftrightarrow> CHR 0x00 \<notin> set (de_key x) \<and> CHR 0x00 \<notin> set (de_value x)"

definition key_fine :: "dotEnvEntry \<Rightarrow> bool" where
  "key_fine x \<longleftrightarrow> de_key x \<noteq> [] \<and> CHR ''='' \<notin> set (de_key x)"

lemma set_drop_runes: "set (drop_runes rs s) \<subseteq> set s"
proof (induction rs s rule: drop_runes.induct)
  case (2 rs c s)
  show ?case
  proof (cases "find (HasPrefix (c # s)) rs")
    case (Some r)
    from 2 [OF Some] set_drop_subset [of "length r - 1" s] have "set (drop_runes rs (drop (length r - 1) s)) \<subseteq> set s"
      by (rule order_trans)
    with Some show ?thesis by (simp add: subset_insertI2)
  qed simp
qed simp

lemma set_TrimSpace: "set (TrimSpace s) \<subseteq> set s"
  unfolding TrimSpace_def set_rev using set_drop_runes [THEN order_trans] set_drop_runes by (metis set_rev)

lemma parse_line_key: "parse_line name n l = Inr (Some x) \<Longrightarrow> key_fine x"
  unfolding parse_line_def Let_def
  using Cut_before_free set_TrimSpace
  by (fastforce simp: key_fine_def split: if_splits option.splits sum.splits prod.splits)

lemma parse_lines_keys: "parse_lines name n ls err = Inr es \<Longrightarrow> list_all key_fine es"
proof (induction ls arbitrary: n es)
  case Nil
  then show ?case by (auto split: option.splits)
next
  case (Cons l ls)
  then obtain entry rest where *: "parse_line name (n + 1) l = Inr entry" "parse_lines name (n + 1) ls err = Inr rest"
    "es = (case entry of None \<Rightarrow> [] | Some x \<Rightarrow> [x]) @ rest"
    by (auto split: sum.splits)
  with Cons.IH [OF *(2)] parse_line_key show ?case by (cases entry) auto
qed

lemma entries_at_keys: "list_all key_fine (entries_at fs path)"
  using parse_lines_keys
  by (auto simp: entries_at_def read_entries_def parseDotEnv_def split: sum.split prod.split option.split)

text \<open>Setting entries: what was there stays, the rest comes from the entries, the first of a key first.\<close>

lemma set_entries_grow:
  "set_entries es env = (err, env') \<Longrightarrow>
   env \<subseteq>\<^sub>m env' \<and> (\<forall>k v. env k = None \<and> env' k = Some v \<longrightarrow> (k, v) \<in> set (pairs es))"
proof (induction es arbitrary: env)
  case Nil
  then show ?case by (auto simp: map_le_def)
next
  case (Cons x es)
  show ?case
  proof (cases "env (de_key x) \<noteq> None \<or> fst (Setenv (de_key x) (de_value x) env) \<noteq> None")
    case True
    then show ?thesis
      using Cons by (fastforce simp: pairs_def Setenv_def map_le_def split: if_splits)
  next
    case False
    then have new: "env (de_key x) = None" and "Setenv (de_key x) (de_value x) env = (None, env(de_key x \<mapsto> de_value x))"
      by (auto simp: Setenv_def split: if_splits)
    with Cons.prems have "set_entries es (env(de_key x \<mapsto> de_value x)) = (err, env')" by simp
    from Cons.IH [OF this]
    have grow: "env(de_key x \<mapsto> de_value x) \<subseteq>\<^sub>m env'"
      and src: "\<And>k v. (env(de_key x \<mapsto> de_value x)) k = None \<Longrightarrow> env' k = Some v \<Longrightarrow> (k, v) \<in> set (pairs es)"
      by blast+
    have "env \<subseteq>\<^sub>m env(de_key x \<mapsto> de_value x)" using new by (auto simp: map_le_def)
    then have "env \<subseteq>\<^sub>m env'" using grow by (rule map_le_trans)
    moreover have "(k, v) \<in> set (pairs (x # es))" if k: "env k = None" "env' k = Some v" for k v
    proof (cases "k = de_key x")
      case True
      with grow have "env' k = Some (de_value x)" by (simp add: map_le_def)
      with k True show ?thesis by (simp add: pairs_def)
    next
      case False
      with src [of k v] k show ?thesis by (simp add: pairs_def)
    qed
    ultimately show ?thesis by blast
  qed
qed

lemma set_entries_all:
  "list_all (\<lambda>x. key_fine x \<and> no_NUL x) es \<Longrightarrow> set_entries es env = (None, map_of (pairs es) ++ env)"
proof (induction es arbitrary: env)
  case Nil
  show ?case by (simp add: pairs_def)
next
  case (Cons x es)
  then have set: "Setenv (de_key x) (de_value x) env = (None, env(de_key x \<mapsto> de_value x))"
    by (simp add: Setenv_def key_fine_def no_NUL_def)
  have "map_of (pairs es) ++ env(de_key x \<mapsto> de_value x) = map_of (pairs (x # es)) ++ env" if "env (de_key x) = None"
    using that by (auto simp: pairs_def map_add_def fun_eq_iff split: option.split)
  moreover have "map_of (pairs es) ++ env = map_of (pairs (x # es)) ++ env" if "env (de_key x) \<noteq> None"
    using that by (auto simp: pairs_def map_add_def fun_eq_iff split: option.split)
  ultimately show ?case using Cons set by simp
qed

text \<open>One file, and the loop over the files.\<close>

lemma try_load_skip: "\<not> loadable fs path \<Longrightarrow>
   snd (try_load fs path result env) = env \<and> dr_Loaded (fst (try_load fs path result env)) = dr_Loaded result"
  by (auto simp: try_load_def loadable_def split: option.split sum.split)

lemma try_load_ok:
  assumes "loadable fs path"
  shows "snd (try_load fs path result env) = snd (set_entries (entries_at fs path) env)"
    "dr_Loaded (fst (try_load fs path result env)) = dr_Loaded result @ [path]"
  using assms
  by (auto simp: try_load_def loadable_def entries_at_def split: option.split sum.splits prod.splits)

lemma try_loop_Cons:
  "try_loop fs (path # paths) result env =
     try_loop fs paths (fst (try_load fs path result env)) (snd (try_load fs path result env))"
  by (simp add: case_prod_beta)

lemma try_loop_grow:
  "try_loop fs paths result env = (result', env') \<Longrightarrow>
   dr_Loaded result' = dr_Loaded result @ filter (loadable fs) paths \<and> env \<subseteq>\<^sub>m env' \<and>
   (\<forall>k v. env k = None \<and> env' k = Some v \<longrightarrow>
      (\<exists>path \<in> set (filter (loadable fs) paths). (k, v) \<in> set (pairs (entries_at fs path))))"
proof (induction paths arbitrary: result env)
  case Nil
  then show ?case by auto
next
  case (Cons path paths)
  let ?env = "snd (try_load fs path result env)"
  from Cons.prems have loop: "try_loop fs paths (fst (try_load fs path result env)) ?env = (result', env')"
    unfolding try_loop_Cons .
  note IH = Cons.IH [OF loop]
  have mid: "env \<subseteq>\<^sub>m ?env \<and> (\<forall>k v. env k = None \<and> ?env k = Some v \<longrightarrow>
      loadable fs path \<and> (k, v) \<in> set (pairs (entries_at fs path)))"
  proof (cases "loadable fs path")
    case True
    then show ?thesis
      using set_entries_grow [of "entries_at fs path" env] try_load_ok(1) [OF True]
      by (metis prod.collapse)
  next
    case False
    then show ?thesis using try_load_skip by (auto simp: map_le_def)
  qed
  have "dr_Loaded result' = dr_Loaded result @ filter (loadable fs) (path # paths)"
    using IH try_load_skip try_load_ok(2) by (cases "loadable fs path") simp_all
  moreover have "env \<subseteq>\<^sub>m env'" using mid IH map_le_trans by blast
  moreover have "\<exists>p \<in> set (filter (loadable fs) (path # paths)). (k, v) \<in> set (pairs (entries_at fs p))"
    if k: "env k = None" "env' k = Some v" for k v
  proof (cases "?env k")
    case None
    with IH k(2) show ?thesis by auto
  next
    case (Some w)
    with IH k(2) have "w = v" by (metis domI map_le_def option.inject)
    with mid k(1) Some show ?thesis by auto
  qed
  ultimately show ?case by blast
qed

lemma try_loop_all:
  assumes "list_all (\<lambda>path. list_all no_NUL (entries_at fs path)) (filter (loadable fs) paths)"
  shows "snd (try_loop fs paths result env)
    = map_of (pairs (concat (map (entries_at fs) (filter (loadable fs) paths)))) ++ env"
  using assms
proof (induction paths arbitrary: result env)
  case Nil
  show ?case by (simp add: pairs_def)
next
  case (Cons path paths)
  let ?rest = "pairs (concat (map (entries_at fs) (filter (loadable fs) paths)))"
  have IH: "snd (try_loop fs paths r e) = map_of ?rest ++ e" for r e
    by (rule Cons.IH) (use Cons.prems in \<open>auto split: if_splits\<close>)
  show ?case
  proof (cases "loadable fs path")
    case True
    have "list_all (\<lambda>x. key_fine x \<and> no_NUL x) (entries_at fs path)"
      using True Cons.prems entries_at_keys [of fs path] by (simp add: list_all_iff)
    then have "snd (try_load fs path result env) = map_of (pairs (entries_at fs path)) ++ env"
      using try_load_ok(1) [OF True] set_entries_all by simp
    with IH True show ?thesis
      by (simp only: try_loop_Cons) (simp add: pairs_def)
  next
    case False
    with IH try_load_skip show ?thesis by (simp only: try_loop_Cons) simp
  qed
qed

text \<open>What goes unreported: an empty path, and a file that does not exist.\<close>

definition missing :: "(string \<Rightarrow> dot_file) \<Rightarrow> string \<Rightarrow> bool" where
  "missing fs path \<longleftrightarrow>
     path = [] \<or> (case df_open (fs path) of None \<Rightarrow> False | Some err \<Rightarrow> errors_Is err ErrNotExist)"

lemma try_load_errors:
  "\<not> loadable fs path \<Longrightarrow>
   dr_Errors (fst (try_load fs path result env)) = [] \<longleftrightarrow> dr_Errors result = [] \<and> missing fs path"
  by (auto simp: try_load_def loadable_def missing_def split: option.split sum.split)

lemma try_loop_errors:
  "list_all (\<lambda>path. \<not> loadable fs path) paths \<Longrightarrow>
   dr_Errors (fst (try_loop fs paths result env)) = [] \<longleftrightarrow> dr_Errors result = [] \<and> list_all (missing fs) paths"
proof (induction paths arbitrary: result env)
  case (Cons path paths)
  then show ?case by (simp only: try_loop_Cons) (simp add: try_load_errors)
qed simp

lemma Result_Err_None: "Result_Err result = None \<longleftrightarrow> dr_Errors result = []"
  by (cases "dr_Errors result") (simp_all add: Result_Err_def)

text \<open>A comment starts at the first hash sign with a blank before it.\<close>

lemma Cut_comment: "CHR ''#'' \<notin> set b \<Longrightarrow> Cut (b @ '' #'' @ a) '' #'' = Some (b, a)"
proof (induction b)
  case (Cons x b)
  then have "\<not> HasPrefix (x # b @ '' #'' @ a) '' #''" by (cases b) auto
  with Cons show ?case by simp
qed simp

section \<open>Properties\<close>

text \<open>
  C16: A dotenv file is read back as it was written: for every file of blank lines, comments and
  assignments, with or without \<open>export\<close>, whose values are bare, in single quotes or in double
  quotes with escapes, the parser returns the entries in the order of the file, each value as it
  was before it was quoted, whatever bytes a value in double quotes holds.
\<close>

theorem dotenv_file_read_back:
  assumes "list_all (\<lambda>l. line_ok l \<and> length (line_text l) < scan_limit) ls"
    and "df_data f = file_text ls" and "df_read f = None"
  shows "parseDotEnv f name = Inr (file_entries ls)"
  using assms by (rule parse_file_text)

theorem dotenv_file_read_back_witness:
  "parseDotEnv
     \<lparr>df_open = None,
      df_data = file_text [Comment ''settings'', Assign True ''NAME'' (Bare ''demo''), Blank 2, Assign False ''KEY'' (Double [DQ, CHR 0x0A, BS])],
      df_read = None, df_close = None\<rparr>
     ''.env''
   = Inr [\<lparr>de_key = ''NAME'', de_value = ''demo''\<rparr>, \<lparr>de_key = ''KEY'', de_value = [DQ, CHR 0x0A, BS]\<rparr>]"
proof -
  let ?ls = "[Comment ''settings'', Assign True ''NAME'' (Bare ''demo''), Blank 2, Assign False ''KEY'' (Double [DQ, CHR 0x0A, BS])]"
  have "list_all (\<lambda>l. line_ok l \<and> length (line_text l) < scan_limit) ?ls"
    by (simp add: key_ok_def graphic_def scan_limit_def quote_def quote_byte_def)
  from dotenv_file_read_back [OF this, of
      "\<lparr>df_open = None, df_data = file_text ?ls, df_read = None, df_close = None\<rparr>" "''.env''"]
  show ?thesis by (simp add: file_entries_simps)
qed

text \<open>
  Loading dotenv files only adds to the environment: a variable that is set keeps its value,
  every variable that is new comes with its value from an entry of a loaded file, and the loaded
  files are exactly those that could be opened, read, parsed and closed: a file with a fault
  contributes nothing.
\<close>

theorem dotenv_only_adds:
  assumes "TryLoadDotEnv fs paths env = (result, env')"
  shows "env \<subseteq>\<^sub>m env' \<and> dr_Loaded result = filter (loadable fs) paths \<and>
    (\<forall>k v. env k = None \<and> env' k = Some v \<longrightarrow>
       (\<exists>path \<in> set (dr_Loaded result). (k, v) \<in> set (pairs (entries_at fs path))))"
  using try_loop_grow [OF assms [unfolded TryLoadDotEnv_def]] by simp

definition demo_file :: "string \<Rightarrow> dot_file" where
  "demo_file path = \<lparr>df_open = None, df_data = (if path = ''a'' then ''X=1'' else ''X''), df_read = None, df_close = None\<rparr>"

lemma demo_entries:
  "read_entries (demo_file ''a'') ''a'' = Inr [\<lparr>de_key = ''X'', de_value = ''1''\<rparr>]"
  "result_error (read_entries (demo_file ''b'') ''b'') \<noteq> None"
proof -
  have t: "TrimSpace ''X=1'' = ''X=1''" "TrimSpace ''X'' = ''X''" "TrimSpace ''1'' = ''1''"
    by (simp_all add: TrimSpace_graphic graphic_def)
  have "scan_lines ''X=1'' = ([''X=1''], False)" "scan_lines ''X'' = ([''X''], False)"
    by (subst scan_lines.simps, simp add: scan_limit_def TrimSuffix_last)+
  then show "read_entries (demo_file ''a'') ''a'' = Inr [\<lparr>de_key = ''X'', de_value = ''1''\<rparr>]"
    "result_error (read_entries (demo_file ''b'') ''b'') \<noteq> None"
    by (simp_all add: read_entries_def parseDotEnv_def demo_file_def parse_line_def TrimPrefix_def t parseDotEnvValue_def)
qed

theorem dotenv_only_adds_witness:
  "\<exists>result env'. TryLoadDotEnv demo_file [''b'', ''a''] Map.empty = (result, env') \<and>
     dr_Loaded result = [''a'']"
proof -
  obtain result env' where r: "TryLoadDotEnv demo_file [''b'', ''a''] Map.empty = (result, env')" by fastforce
  have "loadable demo_file ''a''" "\<not> loadable demo_file ''b''"
    using demo_entries by (auto simp: loadable_def) (simp add: demo_file_def)
  with dotenv_only_adds [OF r] r show ?thesis by simp
qed

text \<open>
  C31: The environment after the loading is determined: as long as no entry holds a NUL byte, it
  is the environment before, extended by the entries of the loadable files in their order, where
  the first entry of a variable counts.
\<close>

theorem dotenv_first_entry_wins:
  assumes "list_all (\<lambda>path. list_all no_NUL (entries_at fs path)) (filter (loadable fs) paths)"
  shows "snd (TryLoadDotEnv fs paths env)
    = map_of (pairs (concat (map (entries_at fs) (filter (loadable fs) paths)))) ++ env"
  using try_loop_all [OF assms] by (simp add: TryLoadDotEnv_def)

theorem dotenv_first_entry_wins_witness:
  "snd (TryLoadDotEnv demo_file [''b'', ''a''] [''Y'' \<mapsto> ''2'']) = [''X'' \<mapsto> ''1'', ''Y'' \<mapsto> ''2'']"
proof -
  have l: "loadable demo_file ''a''" "\<not> loadable demo_file ''b''"
    using demo_entries by (auto simp: loadable_def) (simp add: demo_file_def)
  have e: "entries_at demo_file ''a'' = [\<lparr>de_key = ''X'', de_value = ''1''\<rparr>]"
    by (simp add: entries_at_def demo_entries)
  have "list_all (\<lambda>path. list_all no_NUL (entries_at demo_file path)) (filter (loadable demo_file) [''b'', ''a''])"
    by (simp add: l e no_NUL_def)
  from dotenv_first_entry_wins [OF this, of "[''Y'' \<mapsto> ''2'']"] show ?thesis
    by (simp add: l e pairs_def)
qed

text \<open>
  \<open>LoadDotEnv\<close> fails exactly when no file could be loaded and at least one path failed for
  another reason than a missing file: a fault in one file is forgotten as soon as another loads.
\<close>

theorem load_dotenv_error_iff:
  "fst (LoadDotEnv fs paths env) = None \<longleftrightarrow> list_ex (loadable fs) paths \<or> list_all (missing fs) paths"
proof -
  obtain result env' where r: "TryLoadDotEnv fs paths env = (result, env')" by fastforce
  then have loaded: "dr_Loaded result = filter (loadable fs) paths"
    using try_loop_grow [of fs paths "\<lparr>dr_Loaded = [], dr_Errors = []\<rparr>" env result env']
    by (simp add: TryLoadDotEnv_def)
  show ?thesis
  proof (cases "list_ex (loadable fs) paths")
    case True
    then have "filter (loadable fs) paths \<noteq> []" by (auto simp: list_ex_iff filter_empty_conv)
    with True r loaded show ?thesis by (simp add: LoadDotEnv_def)
  next
    case False
    then have "list_all (\<lambda>path. \<not> loadable fs path) paths" by (auto simp: list_ex_iff list_all_iff)
    moreover from this have "dr_Loaded result = []" using loaded by (simp add: list_all_iff filter_empty_conv)
    ultimately show ?thesis
      using False r try_loop_errors [of fs paths "\<lparr>dr_Loaded = [], dr_Errors = []\<rparr>" env]
      by (simp add: LoadDotEnv_def TryLoadDotEnv_def Result_Err_None)
  qed
qed

text \<open>
  A comment after a quoted value is not understood: after a value in double quotes it is a
  syntax error, which drops the whole file, and after a value in single quotes the quotes stay
  part of the value.
\<close>

theorem comment_after_quoted_value:
  assumes "CHR ''#'' \<notin> set v" and "c = [] \<or> last c \<noteq> CHR 0x27"
  shows "parseDotEnvValue (quote v @ '' #'' @ c) = Inl (Sentinel ErrSyntax) \<and>
    parseDotEnvValue (CHR 0x27 # v @ CHR 0x27 # '' #'' @ c) = Inr (CHR 0x27 # v @ [CHR 0x27])"
proof
  show "parseDotEnvValue (quote v @ '' #'' @ c) = Inl (Sentinel ErrSyntax)"
    by (simp add: parseDotEnvValue_def quote_def Unquote_def unquote_body_quote)
  let ?t = "CHR 0x27 # v @ [CHR 0x27]"
  have "Cut (?t @ '' #'' @ c) '' #'' = Some (?t, c)" using assms(1) by (intro Cut_comment) simp
  moreover have "\<not> HasSuffix (?t @ '' #'' @ c) [CHR 0x27]"
    using assms(2) by (cases c rule: rev_cases) (auto simp: HasSuffix_iff)
  moreover have "TrimSpace ?t = ?t" by (rule TrimSpace_graphic) (simp add: graphic_def)
  ultimately show "parseDotEnvValue (CHR 0x27 # v @ CHR 0x27 # '' #'' @ c) = Inr ?t"
    by (simp add: parseDotEnvValue_def del: Cut.simps)
qed

theorem comment_after_quoted_value_witness:
  "parseDotEnvValue (quote ''v'' @ '' # note'') = Inl (Sentinel ErrSyntax)"
  using comment_after_quoted_value [of "''v''" "'' note''"] by simp

end
