(* ===== verification/Config_Env.thy ===== *)
theory Config_Env
  imports Unquote
begin

text \<open>
  The environment overrides of \<open>config/env.go\<close>. The target is seen as \<open>reflect\<close> shows it: a
  tree of structs, maps and pointers whose leaves are strings, booleans, numbers and slices.
  \<open>ApplyEnv\<close> walks it and sets every leaf whose variable is set. The lemmas show that this is all
  it does, that it is idempotent, that it leaves no nil pointer, and which settings share a
  variable.
\<close>

section \<open>Types and values\<close>

text \<open>A struct field: its name, its \<open>yaml\<close> tag (empty when it has none), and whether it is exported.\<close>

record struct_field =
  sf_Name :: string
  sf_yaml :: string
  sf_exported :: bool

text \<open>
  The types that matter to the walk. \<open>TyOther\<close> stands for every kind the walk and the setter do
  not know, with the text of the type; so does \<open>TySlice\<close> for slices of other things than
  strings, and \<open>TyMapOther\<close> for maps whose keys are no strings.
\<close>

datatype gtype =
    TyString | TyBool | TyInt nat | TyUint nat | TyFloat nat | TyStrings
  | TySlice string | TyOther string | TyMapOther string
  | TyStruct "(struct_field \<times> gtype) list"
  | TyMap gtype
  | TyPtr gtype

text \<open>
  Values. A float is its text. A slice is nil or a list. The entries of a map are a list in the
  order in which they are visited. The type of a pointer's target is kept, for a nil pointer.
\<close>

datatype gval =
    GString string | GBool bool | GInt nat int64 | GUint nat "64 word" | GFloat nat string
  | GStrings "string list option"
  | GSlice string | GOther string | GMapOther string
  | GStruct "(struct_field \<times> gval) list"
  | GMap gtype "(string \<times> gval) list"
  | GPtr gtype "gval option"

text \<open>\<open>reflect.New(t).Elem()\<close>: the zero value.\<close>

fun zero :: "gtype \<Rightarrow> gval" and zero_fields :: "(struct_field \<times> gtype) list \<Rightarrow> (struct_field \<times> gval) list" where
  "zero TyString = GString []"
| "zero TyBool = GBool False"
| "zero (TyInt w) = GInt w 0"
| "zero (TyUint w) = GUint w 0"
| "zero (TyFloat w) = GFloat w ''0''"
| "zero TyStrings = GStrings None"
| "zero (TySlice t) = GSlice t"
| "zero (TyOther t) = GOther t"
| "zero (TyMapOther t) = GMapOther t"
| "zero (TyStruct fs) = GStruct (zero_fields fs)"
| "zero (TyMap t) = GMap t []"
| "zero (TyPtr t) = GPtr t None"
| "zero_fields [] = []"
| "zero_fields ((f, t) # fs) = (f, zero t) # zero_fields fs"

text \<open>The measure of the walk: a nil pointer counts for what it is replaced by.\<close>

fun tweight :: "gtype \<Rightarrow> nat" and tweight_fields :: "(struct_field \<times> gtype) list \<Rightarrow> nat" where
  "tweight (TyStruct fs) = 1 + tweight_fields fs"
| "tweight (TyPtr t) = 1 + tweight t"
| "tweight _ = 1"
| "tweight_fields [] = 0"
| "tweight_fields ((f, t) # fs) = 1 + tweight t + tweight_fields fs"

fun weight :: "gval \<Rightarrow> nat"
  and weight_fields :: "(struct_field \<times> gval) list \<Rightarrow> nat"
  and weight_items :: "(string \<times> gval) list \<Rightarrow> nat" where
  "weight (GStruct fs) = 1 + weight_fields fs"
| "weight (GMap t items) = 1 + weight_items items"
| "weight (GPtr t None) = 1 + tweight t"
| "weight (GPtr t (Some v)) = 1 + weight v"
| "weight _ = 1"
| "weight_fields [] = 0"
| "weight_fields ((f, v) # fs) = 1 + weight v + weight_fields fs"
| "weight_items [] = 0"
| "weight_items ((k, v) # items) = 1 + weight v + weight_items items"

lemma weight_zero [simp]: "weight (zero t) = tweight t" "weight_fields (zero_fields fs) = tweight_fields fs"
  by (induction t and fs rule: zero_zero_fields.induct) auto

section \<open>Names\<close>

text \<open>\<open>yamlFieldName\<close>: the name, whether the field is inlined, and whether it is skipped.\<close>

definition yamlFieldName :: "struct_field \<Rightarrow> string \<times> bool \<times> bool" where
  "yamlFieldName field =
     (let tag = sf_yaml field in
      if tag = ''-'' then ([], False, True)
      else let parts = Split tag (CHR '','');
               name = hd parts
           in (if name = [] then sf_Name field else name, ''inline'' \<in> set (tl parts), False))"

definition appendPath :: "string list \<Rightarrow> string \<Rightarrow> string list" where
  "appendPath path value = path @ [value]"

text \<open>The path at which the walk visits a field, if it does.\<close>

definition field_step :: "struct_field \<Rightarrow> string list \<Rightarrow> string list option" where
  "field_step field path =
     (if \<not> sf_exported field then None
      else case yamlFieldName field of (name, inline, skip) \<Rightarrow>
        if skip then None else Some (if inline then path else appendPath path name))"

lemma field_step_None: "field_step f p = None \<longleftrightarrow> field_step f q = None"
  by (simp add: field_step_def split: prod.split)

definition envPrefixParts :: "string \<Rightarrow> string list" where
  "envPrefixParts prefix = (let prefix = TrimSpace prefix in if prefix = [] then [] else [prefix])"

definition env_part :: "string \<Rightarrow> string" where
  "env_part part = ToUpper (ReplaceChar (ReplaceChar part (CHR ''-'') (CHR ''_'')) (CHR ''.'') (CHR ''_''))"

definition envName :: "string list \<Rightarrow> string list \<Rightarrow> string" where
  "envName prefix path =
     (if path = [] then [] else JoinWith (map env_part (prefix @ path)) ''_'')"

section \<open>Setting a value\<close>

text \<open>
  \<open>setValueFromString\<close>. \<open>pf\<close> is \<open>strconv.ParseFloat\<close>, on the texts of floats. Every value the walk
  reaches can be set.
\<close>

definition or_error :: "'a \<times> gerr option \<Rightarrow> ('a \<Rightarrow> 'b) \<Rightarrow> gerr + 'b" where
  "or_error r f = (case snd r of Some err \<Rightarrow> Inl err | None \<Rightarrow> Inr (f (fst r)))"

function setValueFromString :: "(string \<Rightarrow> nat \<Rightarrow> gerr + string) \<Rightarrow> gval \<Rightarrow> string \<Rightarrow> gerr + gval" where
  "setValueFromString pf (GPtr t v) raw =
     map_sum (\<lambda>err. err) (\<lambda>w. GPtr t (Some w))
       (setValueFromString pf (case v of None \<Rightarrow> zero t | Some w \<Rightarrow> w) raw)"
| "setValueFromString pf (GString s) raw = Inr (GString raw)"
| "setValueFromString pf (GBool b) raw = or_error (ParseBool raw) GBool"
| "setValueFromString pf (GInt w i) raw = or_error (ParseInt raw w) (GInt w)"
| "setValueFromString pf (GUint w i) raw = or_error (ParseUint raw w) (GUint w)"
| "setValueFromString pf (GFloat w x) raw = map_sum (\<lambda>err. err) (GFloat w) (pf raw w)"
| "setValueFromString pf (GSlice t) raw = Inl (Errorf ''unsupported slice type %s'' [t])"
| "setValueFromString pf (GStrings xs) raw =
     (if TrimSpace raw = [] then Inr (GStrings (Some []))
      else Inr (GStrings (Some (map TrimSpace (Split raw (CHR '',''))))))"
| "setValueFromString pf (GOther t) raw = Inl (Errorf ''unsupported env override type %s'' [t])"
| "setValueFromString pf (GMapOther t) raw = Inl (Errorf ''unsupported env override type %s'' [t])"
| "setValueFromString pf (GStruct fs) raw = Inl (Errorf ''unsupported env override type %s'' [''struct''])"
| "setValueFromString pf (GMap t items) raw = Inl (Errorf ''unsupported env override type %s'' [''map''])"
  by pat_completeness auto
termination
  by (relation "measure (\<lambda>(pf, v, raw). weight v)") (auto split: option.split)

section \<open>The walk\<close>

text \<open>
  \<open>applyEnvValue\<close>: the walk stops at the first error. The target is not looked at again after an
  error, so a failing walk gives the error only. Values are trees: two pointers to the same struct,
  and maps or pointers that a copied map entry shares with the original, hold equal values at the
  end of a walk that succeeds.
\<close>

definition apply_leaf ::
  "(string \<Rightarrow> nat \<Rightarrow> gerr + string) \<Rightarrow> environ \<Rightarrow> string list \<Rightarrow> string list \<Rightarrow> gval \<Rightarrow> gerr + gval" where
  "apply_leaf pf env prefix path v =
     (let name = envName prefix path in
      if name = [] then Inr v
      else case env name of
        None \<Rightarrow> Inr v
      | Some raw \<Rightarrow> map_sum (\<lambda>err. Wrapf ''%s: %w'' err [name]) (\<lambda>w. w) (setValueFromString pf v raw))"

function applyEnvValue ::
  "(string \<Rightarrow> nat \<Rightarrow> gerr + string) \<Rightarrow> environ \<Rightarrow> string list \<Rightarrow> string list \<Rightarrow> gval \<Rightarrow> gerr + gval"
  and apply_fields ::
  "(string \<Rightarrow> nat \<Rightarrow> gerr + string) \<Rightarrow> environ \<Rightarrow> string list \<Rightarrow> string list \<Rightarrow>
   (struct_field \<times> gval) list \<Rightarrow> gerr + (struct_field \<times> gval) list"
  and apply_items ::
  "(string \<Rightarrow> nat \<Rightarrow> gerr + string) \<Rightarrow> environ \<Rightarrow> string list \<Rightarrow> string list \<Rightarrow>
   (string \<times> gval) list \<Rightarrow> gerr + (string \<times> gval) list" where
  "applyEnvValue pf env prefix path v =
     (case v of
        GPtr t target \<Rightarrow>
          map_sum (\<lambda>err. err) (\<lambda>w. GPtr t (Some w))
            (applyEnvValue pf env prefix path (case target of None \<Rightarrow> zero t | Some w \<Rightarrow> w))
      | GStruct fs \<Rightarrow> map_sum (\<lambda>err. err) GStruct (apply_fields pf env prefix path fs)
      | GMap t items \<Rightarrow> map_sum (\<lambda>err. err) (GMap t) (apply_items pf env prefix path items)
      | GMapOther t \<Rightarrow> Inr v
      | _ \<Rightarrow> apply_leaf pf env prefix path v)"
| "apply_fields pf env prefix path [] = Inr []"
| "apply_fields pf env prefix path ((f, v) # fs) =
     (case (case field_step f path of None \<Rightarrow> Inr v | Some nextPath \<Rightarrow> applyEnvValue pf env prefix nextPath v) of
        Inl err \<Rightarrow> Inl err
      | Inr w \<Rightarrow> map_sum (\<lambda>err. err) (\<lambda>fs. (f, w) # fs) (apply_fields pf env prefix path fs))"
| "apply_items pf env prefix path [] = Inr []"
| "apply_items pf env prefix path ((k, v) # items) =
     (case applyEnvValue pf env prefix (appendPath path k) v of
        Inl err \<Rightarrow> Inl err
      | Inr w \<Rightarrow> map_sum (\<lambda>err. err) (\<lambda>items. (k, w) # items) (apply_items pf env prefix path items))"
  by pat_completeness auto
termination
  by (relation "measure (\<lambda>x. case x of
        Inl (pf, env, prefix, path, v) \<Rightarrow> weight v
      | Inr (Inl (pf, env, prefix, path, fs)) \<Rightarrow> weight_fields fs
      | Inr (Inr (pf, env, prefix, path, items)) \<Rightarrow> weight_items items)")
    (auto split: option.split)

declare applyEnvValue.simps [simp del]

text \<open>\<open>ApplyEnv\<close>: the target is nil, a pointer to a value, or something it does not accept.\<close>

definition ApplyEnv ::
  "(string \<Rightarrow> nat \<Rightarrow> gerr + string) \<Rightarrow> environ \<Rightarrow> gval option \<Rightarrow> string \<Rightarrow> gerr + gval option" where
  "ApplyEnv pf env target prefix =
     (case target of
        None \<Rightarrow> Inr None
      | Some (GPtr t (Some v)) \<Rightarrow>
          map_sum (\<lambda>err. err) (\<lambda>w. Some (GPtr t (Some w))) (applyEnvValue pf env (envPrefixParts prefix) [] v)
      | Some _ \<Rightarrow> Inl (Errorf ''env target must be a non-nil pointer'' []))"

section \<open>The leaves\<close>

text \<open>
  What the walk reaches, with the path of each leaf. A nil pointer counts as a pointer to the zero
  value of its type.
\<close>

function leaves :: "string list \<Rightarrow> gval \<Rightarrow> (string list \<times> gval) list"
  and leaves_fields :: "string list \<Rightarrow> (struct_field \<times> gval) list \<Rightarrow> (string list \<times> gval) list"
  and leaves_items :: "string list \<Rightarrow> (string \<times> gval) list \<Rightarrow> (string list \<times> gval) list" where
  "leaves path v =
     (case v of
        GPtr t target \<Rightarrow> leaves path (case target of None \<Rightarrow> zero t | Some w \<Rightarrow> w)
      | GStruct fs \<Rightarrow> leaves_fields path fs
      | GMap t items \<Rightarrow> leaves_items path items
      | GMapOther t \<Rightarrow> []
      | _ \<Rightarrow> [(path, v)])"
| "leaves_fields path [] = []"
| "leaves_fields path ((f, v) # fs) =
     (case field_step f path of None \<Rightarrow> [] | Some nextPath \<Rightarrow> leaves nextPath v) @ leaves_fields path fs"
| "leaves_items path [] = []"
| "leaves_items path ((k, v) # items) = leaves (appendPath path k) v @ leaves_items path items"
  by pat_completeness auto
termination
  by (relation "measure (\<lambda>x. case x of
        Inl (path, v) \<Rightarrow> weight v
      | Inr (Inl (path, fs)) \<Rightarrow> weight_fields fs
      | Inr (Inr (path, items)) \<Rightarrow> weight_items items)")
    (auto split: option.split)

declare leaves.simps [simp del]

text \<open>Run a step on every element and stop at the first error.\<close>

fun run_all :: "('a \<Rightarrow> 'e + 'b) \<Rightarrow> 'a list \<Rightarrow> 'e + 'b list" where
  "run_all f [] = Inr []"
| "run_all f (x # xs) =
     (case f x of Inl e \<Rightarrow> Inl e | Inr y \<Rightarrow> map_sum (\<lambda>e. e) (\<lambda>ys. y # ys) (run_all f xs))"

lemma run_all_append:
  "run_all f (xs @ ys) =
     (case run_all f xs of Inl e \<Rightarrow> Inl e | Inr us \<Rightarrow> map_sum (\<lambda>e. e) (\<lambda>vs. us @ vs) (run_all f ys))"
proof (induction xs)
  case Nil
  show ?case by (cases "run_all f ys") simp_all
next
  case (Cons x xs)
  then show ?case by (cases "f x"; cases "run_all f xs"; cases "run_all f ys") simp_all
qed

lemma run_all_id: "(\<And>x. x \<in> set xs \<Longrightarrow> f x = Inr x) \<Longrightarrow> run_all f xs = Inr xs"
  by (induction xs) simp_all

text \<open>One leaf, with its path.\<close>

definition set_leaf ::
  "(string \<Rightarrow> nat \<Rightarrow> gerr + string) \<Rightarrow> environ \<Rightarrow> string list \<Rightarrow> string list \<times> gval \<Rightarrow> gerr + (string list \<times> gval)" where
  "set_leaf pf env prefix l = map_sum (\<lambda>err. err) (Pair (fst l)) (apply_leaf pf env prefix (fst l) (snd l))"

text \<open>Setting a leaf gives a leaf.\<close>

definition is_leaf :: "gval \<Rightarrow> bool" where
  "is_leaf v \<longleftrightarrow> (case v of GStruct _ \<Rightarrow> False | GMap _ _ \<Rightarrow> False | GPtr _ _ \<Rightarrow> False | GMapOther _ \<Rightarrow> False | _ \<Rightarrow> True)"

lemma set_value_leaf:
  "is_leaf v \<Longrightarrow> setValueFromString pf v raw = Inr w \<Longrightarrow> is_leaf w"
  by (cases v) (auto simp: is_leaf_def or_error_def split: option.splits if_splits sum.splits)

lemma apply_leaf_leaf: "is_leaf v \<Longrightarrow> apply_leaf pf env prefix path v = Inr w \<Longrightarrow> is_leaf w"
  using set_value_leaf by (fastforce simp: apply_leaf_def Let_def split: if_splits option.splits)

lemma leaves_leaf: "is_leaf v \<Longrightarrow> leaves path v = [(path, v)]"
  by (subst leaves.simps) (simp add: is_leaf_def split: gval.splits)

lemma apply_at_leaf: "is_leaf v \<Longrightarrow> applyEnvValue pf env prefix path v = apply_leaf pf env prefix path v"
  by (subst applyEnvValue.simps) (simp add: is_leaf_def split: gval.splits)

lemma leaves_node:
  "leaves path (GPtr t w) = leaves path (case w of None \<Rightarrow> zero t | Some u \<Rightarrow> u)"
  "leaves path (GStruct fs) = leaves_fields path fs"
  "leaves path (GMap t items) = leaves_items path items"
  "leaves path (GMapOther x) = []"
  by (subst leaves.simps, simp)+

lemma apply_node:
  "applyEnvValue pf env prefix path (GPtr t w) =
     map_sum (\<lambda>e. e) (\<lambda>u. GPtr t (Some u)) (applyEnvValue pf env prefix path (case w of None \<Rightarrow> zero t | Some u \<Rightarrow> u))"
  "applyEnvValue pf env prefix path (GStruct fs) = map_sum (\<lambda>e. e) GStruct (apply_fields pf env prefix path fs)"
  "applyEnvValue pf env prefix path (GMap t items) = map_sum (\<lambda>e. e) (GMap t) (apply_items pf env prefix path items)"
  "applyEnvValue pf env prefix path (GMapOther x) = Inr (GMapOther x)"
  by (subst applyEnvValue.simps, simp)+

lemma node_cases:
  obtains (leaf) "is_leaf v" | (ptr) t w where "v = GPtr t w" | (struct) fs where "v = GStruct fs"
    | (map) t items where "v = GMap t items" | (other) t where "v = GMapOther t"
  by (cases v) (auto simp: is_leaf_def)

lemma apply_leaves:
  "map_sum (\<lambda>e. e) (leaves path) (applyEnvValue pf env prefix path v)
     = run_all (set_leaf pf env prefix) (leaves path v)"
  "map_sum (\<lambda>e. e) (leaves_fields path) (apply_fields pf env prefix path fs)
     = run_all (set_leaf pf env prefix) (leaves_fields path fs)"
  "map_sum (\<lambda>e. e) (leaves_items path) (apply_items pf env prefix path items)
     = run_all (set_leaf pf env prefix) (leaves_items path items)"
proof (induction pf env prefix path v and pf env prefix path fs and pf env prefix path items
    rule: applyEnvValue_apply_fields_apply_items.induct)
  case (1 pf env prefix path v)
  note IH = 1
  show ?case
  proof (cases v rule: node_cases)
    case leaf
    then show ?thesis
      using apply_leaf_leaf [OF leaf]
      by (cases "apply_leaf pf env prefix path v") (auto simp: apply_at_leaf leaves_leaf set_leaf_def)
  next
    case (ptr t w)
    from IH(3) [OF ptr] show ?thesis by (simp add: ptr leaves_node apply_node sum.map_comp o_def)
  next
    case (struct fs)
    from IH(1) [OF struct] show ?thesis by (simp add: struct leaves_node apply_node sum.map_comp o_def)
  next
    case (map t items)
    from IH(2) [OF map] show ?thesis by (simp add: map leaves_node apply_node sum.map_comp o_def)
  next
    case (other t)
    then show ?thesis by (simp add: leaves_node apply_node)
  qed
next
  case (3 pf env prefix path f v fs)
  note IH = 3
  show ?case
  proof (cases "field_step f path")
    case None
    with IH(2) [of v] show ?thesis by (cases "apply_fields pf env prefix path fs") auto
  next
    case (Some p)
    note first = IH(1) [OF Some]
    show ?thesis
    proof (cases "applyEnvValue pf env prefix p v")
      case (Inl err)
      with first have "run_all (set_leaf pf env prefix) (leaves p v) = Inl err" by simp
      with Inl Some show ?thesis by (simp add: run_all_append)
    next
      case (Inr w)
      with first have w: "run_all (set_leaf pf env prefix) (leaves p v) = Inr (leaves p w)" by simp
      from Inr Some IH(2) [of w]
      have fs: "run_all (set_leaf pf env prefix) (leaves_fields path fs)
          = map_sum (\<lambda>e. e) (leaves_fields path) (apply_fields pf env prefix path fs)" by simp
      from Inr Some w fs show ?thesis
        by (cases "apply_fields pf env prefix path fs") (simp_all add: run_all_append)
    qed
  qed
next
  case (5 pf env prefix path k v items)
  note IH = 5
  let ?p = "appendPath path k"
  show ?case
  proof (cases "applyEnvValue pf env prefix ?p v")
    case (Inl err)
    with IH(1) have "run_all (set_leaf pf env prefix) (leaves ?p v) = Inl err" by simp
    with Inl show ?thesis by (simp add: run_all_append)
  next
    case (Inr w)
    with IH(1) have w: "run_all (set_leaf pf env prefix) (leaves ?p v) = Inr (leaves ?p w)" by simp
    from IH(2) [OF Inr]
    have items: "run_all (set_leaf pf env prefix) (leaves_items path items)
        = map_sum (\<lambda>e. e) (leaves_items path) (apply_items pf env prefix path items)" by simp
    from Inr w items show ?thesis
      by (cases "apply_items pf env prefix path items") (simp_all add: run_all_append)
  qed
qed simp_all

section \<open>Running the walk again\<close>

lemma set_value_again: "is_leaf v \<Longrightarrow> setValueFromString pf v raw = Inr w \<Longrightarrow> setValueFromString pf w raw = Inr w"
  by (cases v) (auto simp: is_leaf_def or_error_def split: option.splits if_splits)

lemma apply_leaf_again: "is_leaf v \<Longrightarrow> apply_leaf pf env prefix path v = Inr w \<Longrightarrow> apply_leaf pf env prefix path w = Inr w"
  using set_value_again [of v pf] by (auto simp: apply_leaf_def Let_def split: if_splits option.splits)

lemma apply_again:
  "applyEnvValue pf env prefix path v = Inr w \<Longrightarrow> applyEnvValue pf env prefix path w = Inr w"
  "apply_fields pf env prefix path fs = Inr fs' \<Longrightarrow> apply_fields pf env prefix path fs' = Inr fs'"
  "apply_items pf env prefix path items = Inr items' \<Longrightarrow> apply_items pf env prefix path items' = Inr items'"
proof (induction pf env prefix path v and pf env prefix path fs and pf env prefix path items
    arbitrary: w and fs' and items' rule: applyEnvValue_apply_fields_apply_items.induct)
  case (1 pf env prefix path v)
  note IH = 1
  show ?case
  proof (cases v rule: node_cases)
    case leaf
    then show ?thesis
      using IH(4) apply_leaf_again [OF leaf] apply_leaf_leaf [OF leaf] by (metis apply_at_leaf)
  next
    case (ptr t w)
    then show ?thesis using IH(3) [OF ptr] IH(4) by (auto simp: apply_node)
  next
    case (struct fs)
    then show ?thesis using IH(1) [OF struct] IH(4) by (auto simp: apply_node)
  next
    case (map t items)
    then show ?thesis using IH(2) [OF map] IH(4) by (auto simp: apply_node)
  next
    case (other t)
    then show ?thesis using IH(4) by (auto simp: apply_node)
  qed
next
  case (3 pf env prefix path f v fs)
  note IH = 3
  from IH(3) obtain w gs where w: "(case field_step f path of None \<Rightarrow> Inr v | Some p \<Rightarrow> applyEnvValue pf env prefix p v) = Inr w"
    and gs: "apply_fields pf env prefix path fs = Inr gs" "fs' = (f, w) # gs"
    by (auto split: sum.splits)
  from IH(2) [OF w gs(1)] have "apply_fields pf env prefix path gs = Inr gs" .
  moreover have "(case field_step f path of None \<Rightarrow> Inr w | Some p \<Rightarrow> applyEnvValue pf env prefix p w) = Inr w"
  proof (cases "field_step f path")
    case (Some p)
    with w have "applyEnvValue pf env prefix p v = Inr w" by simp
    from IH(1) [OF Some this] Some show ?thesis by simp
  qed simp
  ultimately show ?case using gs(2) by simp
next
  case (5 pf env prefix path k v items)
  from 5(3) obtain w rest where w: "applyEnvValue pf env prefix (appendPath path k) v = Inr w"
    and rest: "apply_items pf env prefix path items = Inr rest" "items' = (k, w) # rest"
    by (auto split: sum.splits)
  with 5(1) [OF w] 5(2) [OF w rest(1)] show ?case by simp
qed simp_all

text \<open>No nil pointer is left where the walk has been.\<close>

fun nil_free :: "gval \<Rightarrow> bool"
  and nil_free_fields :: "(struct_field \<times> gval) list \<Rightarrow> bool"
  and nil_free_items :: "(string \<times> gval) list \<Rightarrow> bool" where
  "nil_free (GPtr t None) = False"
| "nil_free (GPtr t (Some v)) = nil_free v"
| "nil_free (GStruct fs) = nil_free_fields fs"
| "nil_free (GMap t items) = nil_free_items items"
| "nil_free _ = True"
| "nil_free_fields [] = True"
| "nil_free_fields ((f, v) # fs) =
     ((field_step f [] = None \<or> nil_free v) \<and> nil_free_fields fs)"
| "nil_free_items [] = True"
| "nil_free_items ((k, v) # items) = (nil_free v \<and> nil_free_items items)"

lemma nil_free_leaf: "is_leaf v \<Longrightarrow> nil_free v"
  by (cases v) (auto simp: is_leaf_def)

lemma apply_nil_free:
  "applyEnvValue pf env prefix path v = Inr w \<Longrightarrow> nil_free w"
  "apply_fields pf env prefix path fs = Inr fs' \<Longrightarrow> nil_free_fields fs'"
  "apply_items pf env prefix path items = Inr items' \<Longrightarrow> nil_free_items items'"
proof (induction pf env prefix path v and pf env prefix path fs and pf env prefix path items
    arbitrary: w and fs' and items' rule: applyEnvValue_apply_fields_apply_items.induct)
  case (1 pf env prefix path v)
  note IH = 1
  show ?case
  proof (cases v rule: node_cases)
    case leaf
    then show ?thesis
      using IH(4) apply_leaf_leaf nil_free_leaf by (simp add: apply_at_leaf)
  next
    case (ptr t w)
    then show ?thesis using IH(3) [OF ptr] IH(4) by (auto simp: apply_node)
  next
    case (struct fs)
    then show ?thesis using IH(1) [OF struct] IH(4) by (auto simp: apply_node)
  next
    case (map t items)
    then show ?thesis using IH(2) [OF map] IH(4) by (auto simp: apply_node)
  next
    case (other t)
    then show ?thesis using IH(4) by (auto simp: apply_node)
  qed
next
  case (3 pf env prefix path f v fs)
  note IH = 3
  from IH(3) obtain w gs where w: "(case field_step f path of None \<Rightarrow> Inr v | Some p \<Rightarrow> applyEnvValue pf env prefix p v) = Inr w"
    and gs: "apply_fields pf env prefix path fs = Inr gs" "fs' = (f, w) # gs"
    by (auto split: sum.splits)
  from IH(2) [OF w gs(1)] have "nil_free_fields gs" .
  moreover have "field_step f [] = None \<or> nil_free w"
    using IH(1) w field_step_None [of f path "[]"] by (auto split: option.splits)
  ultimately show ?case using gs(2) by simp
next
  case (5 pf env prefix path k v items)
  from 5(3) obtain w rest where w: "applyEnvValue pf env prefix (appendPath path k) v = Inr w"
    and rest: "apply_items pf env prefix path items = Inr rest" "items' = (k, w) # rest"
    by (auto split: sum.splits)
  with 5(1) [OF w] 5(2) [OF w rest(1)] show ?case by simp
qed simp_all

section \<open>Types are kept\<close>

text \<open>
  A value of a type. A number is in the range of its width, which is between 1 and 64 bits; the
  values below a pointer, a struct or a map have the types that the outer type names.
\<close>

definition width_ok :: "nat \<Rightarrow> bool" where
  "width_ok w \<longleftrightarrow> 1 \<le> w \<and> w \<le> 64"

fun type_ok :: "gtype \<Rightarrow> bool" and fields_ok :: "(struct_field \<times> gtype) list \<Rightarrow> bool" where
  "type_ok (TyInt w) \<longleftrightarrow> width_ok w"
| "type_ok (TyUint w) \<longleftrightarrow> width_ok w"
| "type_ok (TyStruct fs) \<longleftrightarrow> fields_ok fs"
| "type_ok (TyMap t) \<longleftrightarrow> type_ok t"
| "type_ok (TyPtr t) \<longleftrightarrow> type_ok t"
| "type_ok _ \<longleftrightarrow> True"
| "fields_ok [] \<longleftrightarrow> True"
| "fields_ok ((f, t) # fs) \<longleftrightarrow> type_ok t \<and> fields_ok fs"

fun has_type :: "gval \<Rightarrow> gtype \<Rightarrow> bool"
  and fields_have_types :: "(struct_field \<times> gval) list \<Rightarrow> (struct_field \<times> gtype) list \<Rightarrow> bool"
  and items_have_type :: "(string \<times> gval) list \<Rightarrow> gtype \<Rightarrow> bool" where
  "has_type (GString s) t \<longleftrightarrow> t = TyString"
| "has_type (GBool b) t \<longleftrightarrow> t = TyBool"
| "has_type (GInt w i) t \<longleftrightarrow> t = TyInt w \<and> width_ok w \<and> - (2 ^ (w - 1)) \<le> sint i \<and> sint i < 2 ^ (w - 1)"
| "has_type (GUint w u) t \<longleftrightarrow> t = TyUint w \<and> width_ok w \<and> uint u < 2 ^ w"
| "has_type (GFloat w x) t \<longleftrightarrow> t = TyFloat w"
| "has_type (GStrings xs) t \<longleftrightarrow> t = TyStrings"
| "has_type (GSlice x) t \<longleftrightarrow> t = TySlice x"
| "has_type (GOther x) t \<longleftrightarrow> t = TyOther x"
| "has_type (GMapOther x) t \<longleftrightarrow> t = TyMapOther x"
| "has_type (GStruct fs) t \<longleftrightarrow> (case t of TyStruct ts \<Rightarrow> fields_have_types fs ts | _ \<Rightarrow> False)"
| "has_type (GMap e items) t \<longleftrightarrow> t = TyMap e \<and> items_have_type items e"
| "has_type (GPtr e v) t \<longleftrightarrow> t = TyPtr e \<and> (case v of None \<Rightarrow> type_ok e | Some w \<Rightarrow> has_type w e)"
| "fields_have_types [] ts \<longleftrightarrow> ts = []"
| "fields_have_types ((f, v) # fs) ts \<longleftrightarrow> (case ts of [] \<Rightarrow> False | (g, t) # ts \<Rightarrow> f = g \<and> has_type v t \<and> fields_have_types fs ts)"
| "items_have_type [] e \<longleftrightarrow> True"
| "items_have_type ((k, v) # items) e \<longleftrightarrow> has_type v e \<and> items_have_type items e"

lemma zero_has_type:
  "type_ok t \<Longrightarrow> has_type (zero t) t"
  "fields_ok fs \<Longrightarrow> fields_have_types (zero_fields fs) fs"
  by (induction t and fs rule: zero_zero_fields.induct) auto

lemma parse_digits_bound: "n \<le> mx \<Longrightarrow> parse_digits mx s n = (m, None) \<Longrightarrow> m \<le> mx"
  by (induction mx s n rule: parse_digits.induct) (auto simp: Let_def split: if_splits)

lemma parse_uint_bound: "parse_uint s w = (m, None) \<Longrightarrow> m < 2 ^ w"
proof -
  assume "parse_uint s w = (m, None)"
  then have "parse_digits (2 ^ w - 1) s 0 = (m, None)" by (simp add: parse_uint_def split: if_splits)
  then have "m \<le> 2 ^ w - 1" using parse_digits_bound by blast
  moreover have "(0 :: nat) < 2 ^ w" by simp
  ultimately show ?thesis by linarith
qed

lemma parse_int_bound:
  assumes "parse_int s w = (i, None)"
  shows "- (2 ^ (w - 1)) \<le> i \<and> i < 2 ^ (w - 1)"
proof -
  from assms consider un where "i = int un" "un < 2 ^ (w - 1)" | un where "i = - int un" "un \<le> 2 ^ (w - 1)"
    by (auto simp: parse_int_def Let_def split: list.splits if_splits prod.splits)
  then show ?thesis
  proof cases
    case (1 un)
    from 1(2) have "int un < 2 ^ (w - 1)" by (metis of_nat_less_iff of_nat_numeral of_nat_power)
    with 1(1) show ?thesis by (simp add: order_trans [of _ 0])
  next
    case (2 un)
    from 2(2) have "int un \<le> 2 ^ (w - 1)" by (metis of_nat_le_iff of_nat_numeral of_nat_power)
    moreover have "(0 :: int) < 2 ^ (w - 1)" by simp
    ultimately show ?thesis using 2(1) by linarith
  qed
qed

lemma small_power: "width_ok w \<Longrightarrow> (2 :: int) ^ (w - 1) \<le> 2 ^ 63" "width_ok w \<Longrightarrow> (2 :: nat) ^ w \<le> 2 ^ 64"
  unfolding width_ok_def by (rule power_increasing; linarith)+

lemma set_value_type:
  assumes "is_leaf v" "setValueFromString pf v raw = Inr w" "has_type v t"
  shows "has_type w t"
proof (cases v)
  case (GInt b i)
  with assms(3) have b: "t = TyInt b" "width_ok b" by auto
  from GInt assms(2) obtain n where n: "parse_int raw b = (n, None)" "w = GInt b (word_of_int n)"
    by (auto simp: or_error_def ParseInt_def split: option.splits prod.splits)
  from parse_int_bound [OF n(1)] small_power(1) [OF b(2)] have "sint (word_of_int n :: int64) = n"
    by (intro sint_of_int64) auto
  with parse_int_bound [OF n(1)] n(2) b show ?thesis by simp
next
  case (GUint b u)
  with assms(3) have b: "t = TyUint b" "width_ok b" by auto
  from GUint assms(2) obtain n where n: "parse_uint raw b = (n, None)" "w = GUint b (of_nat n)"
    by (auto simp: or_error_def ParseUint_def split: option.splits prod.splits)
  from parse_uint_bound [OF n(1)] small_power(2) [OF b(2)] have "n < 2 ^ 64" by simp
  then have "uint (of_nat n :: 64 word) = int n" by (simp add: unsigned_of_nat take_bit_nat_eq_self)
  moreover have "int n < 2 ^ b" using parse_uint_bound [OF n(1)] by (metis of_nat_less_iff of_nat_numeral of_nat_power)
  ultimately show ?thesis using n(2) b by simp
qed (use assms in \<open>auto simp: is_leaf_def or_error_def split: option.splits if_splits\<close>)

lemma apply_keeps_type:
  "applyEnvValue pf env prefix path v = Inr w \<Longrightarrow> has_type v t \<Longrightarrow> has_type w t"
  "apply_fields pf env prefix path fs = Inr fs' \<Longrightarrow> fields_have_types fs ts \<Longrightarrow> fields_have_types fs' ts"
  "apply_items pf env prefix path items = Inr items' \<Longrightarrow> items_have_type items t \<Longrightarrow> items_have_type items' t"
proof (induction pf env prefix path v and pf env prefix path fs and pf env prefix path items
    arbitrary: w t and fs' ts and items' t rule: applyEnvValue_apply_fields_apply_items.induct)
  case (1 pf env prefix path v)
  note IH = 1
  show ?case
  proof (cases v rule: node_cases)
    case leaf
    with IH(4) have "w = v \<or> (\<exists>raw. setValueFromString pf v raw = Inr w)"
      by (auto simp: apply_at_leaf apply_leaf_def Let_def split: if_splits option.splits)
    with set_value_type [OF leaf] IH(5) show ?thesis by blast
  next
    case (ptr e u)
    with IH(4) obtain x where x: "w = GPtr e (Some x)"
      "applyEnvValue pf env prefix path (case u of None \<Rightarrow> zero e | Some u \<Rightarrow> u) = Inr x" by (auto simp: apply_node)
    have "has_type (case u of None \<Rightarrow> zero e | Some u \<Rightarrow> u) e"
      using IH(5) ptr zero_has_type(1) by (auto split: option.splits)
    from IH(3) [OF ptr x(2) this] x(1) IH(5) ptr show ?thesis by simp
  next
    case (struct fs)
    with IH(4) obtain fs' where "w = GStruct fs'" "apply_fields pf env prefix path fs = Inr fs'" by (auto simp: apply_node)
    with IH(1) [OF struct] IH(5) struct show ?thesis by (auto split: gtype.splits)
  next
    case (map e items)
    with IH(4) obtain items' where "w = GMap e items'" "apply_items pf env prefix path items = Inr items'" by (auto simp: apply_node)
    with IH(2) [OF map] IH(5) map show ?thesis by auto
  next
    case (other x)
    with IH(4,5) show ?thesis by (auto simp: apply_node)
  qed
next
  case (3 pf env prefix path f v fs)
  note IH = 3
  from IH(3) obtain w gs where w: "(case field_step f path of None \<Rightarrow> Inr v | Some p \<Rightarrow> applyEnvValue pf env prefix p v) = Inr w"
    and gs: "apply_fields pf env prefix path fs = Inr gs" "fs' = (f, w) # gs"
    by (auto split: sum.splits)
  from IH(4) obtain t us where ts: "ts = (f, t) # us" "has_type v t" "fields_have_types fs us"
    by (auto split: list.splits)
  have "fields_have_types gs us" by (rule IH(2) [OF w gs(1) ts(3)])
  moreover have "has_type w t"
  proof (cases "field_step f path")
    case None
    with w ts(2) show ?thesis by simp
  next
    case (Some p)
    with w have "applyEnvValue pf env prefix p v = Inr w" by simp
    from IH(1) [OF Some this ts(2)] show ?thesis .
  qed
  ultimately show ?case using gs(2) ts(1) by simp
next
  case (5 pf env prefix path k v items)
  from 5(3) obtain w rest where w: "applyEnvValue pf env prefix (appendPath path k) v = Inr w"
    and rest: "apply_items pf env prefix path items = Inr rest" "items' = (k, w) # rest"
    by (auto split: sum.splits)
  with 5(1) [OF w] 5(2) [OF w rest(1)] 5(4) show ?case by simp
qed simp_all

section \<open>Which settings share a variable\<close>

abbreviation US :: char where
  "US \<equiv> CHR ''_''"

lemma ToUpper_around: "ToUpper (a @ US # b) = ToUpper a @ US # ToUpper b"
proof (induction a rule: ToUpper.induct)
  case 1
  show ?case by (simp add: upper_char_def)
next
  case (2 c s)
  have *: "HasPrefix (c # s @ US # b) [x, y] \<longleftrightarrow> HasPrefix (c # s) [x, y]" if "y \<noteq> US" for x y
    using that by (cases s) auto
  have "drop 1 (s @ US # b) = drop 1 s @ US # b" if "HasPrefix (c # s) [x, y]" for x y
    using that by (cases s) auto
  with 2 * [of "CHR 0xB1" "CHR 0xC4"] * [of "CHR 0xBF" "CHR 0xC5"] show ?case by auto
qed

lemma env_part_around: "env_part (x @ US # y) = env_part x @ US # env_part y"
  by (simp add: env_part_def ReplaceChar_def ToUpper_around)

lemma JoinWith_append:
  "ps \<noteq> [] \<Longrightarrow> qs \<noteq> [] \<Longrightarrow> JoinWith (ps @ qs) sep = JoinWith ps sep @ sep @ JoinWith qs sep"
proof (induction ps)
  case (Cons p ps)
  then show ?case by (cases ps) (simp_all add: JoinWith_Cons)
qed simp

lemma JoinWith_glue: "JoinWith (ps @ (x @ sep @ y) # qs) sep = JoinWith (ps @ x # y # qs) sep"
proof -
  have "JoinWith ((x @ sep @ y) # qs) sep = JoinWith (x # y # qs) sep"
    by (cases qs) simp_all
  then show ?thesis by (cases "ps = []") (simp_all add: JoinWith_append)
qed

lemma envName_glue: "envName prefix (p @ (x @ US # y) # q) = envName prefix (p @ x # y # q)"
proof -
  have "map env_part (prefix @ p @ (x @ US # y) # q)
      = map env_part (prefix @ p) @ (env_part x @ [US] @ env_part y) # map env_part q"
    by (simp add: env_part_around)
  moreover have "map env_part (prefix @ p @ x # y # q)
      = map env_part (prefix @ p) @ env_part x # env_part y # map env_part q"
    by simp
  ultimately show ?thesis
    unfolding envName_def using JoinWith_glue [of "map env_part (prefix @ p)" "env_part x" "[US]" "env_part y"]
    by simp
qed

text \<open>Names of lower-case letters and digits.\<close>

lemma of_char_upper: "(of_char (upper_char c) :: nat) =
    (if 97 \<le> (of_char c :: nat) \<and> (of_char c :: nat) \<le> 122 then of_char c - 32 else of_char c)"
  by (auto simp: upper_char_def Let_def)

definition plain_char :: "char \<Rightarrow> bool" where
  "plain_char c \<longleftrightarrow> (97 \<le> (of_char c :: nat) \<and> (of_char c :: nat) \<le> 122) \<or> is_digit c"

lemma plain_charD:
  assumes "plain_char c"
  shows "c \<noteq> CHR ''-''" "c \<noteq> CHR ''.''" "c \<noteq> CHR 0xC4" "c \<noteq> CHR 0xC5" "upper_char c \<noteq> US"
proof -
  from assms show "c \<noteq> CHR ''-''" "c \<noteq> CHR ''.''" "c \<noteq> CHR 0xC4" "c \<noteq> CHR 0xC5"
    by (auto simp: plain_char_def is_digit_def)
  have "(of_char (upper_char c) :: nat) \<noteq> 95"
    using assms by (auto simp: of_char_upper plain_char_def is_digit_def)
  then show "upper_char c \<noteq> US" by auto
qed

lemma upper_char_plain:
  assumes "plain_char c" "plain_char d" "upper_char c = upper_char d"
  shows "c = d"
proof -
  from assms(3) have "(of_char (upper_char c) :: nat) = of_char (upper_char d)" by simp
  with assms(1,2) have "(of_char c :: nat) = of_char d"
    unfolding of_char_upper plain_char_def is_digit_def by (auto split: if_splits simp: eq_diff_iff)
  then show ?thesis by simp
qed

lemma env_part_plain: "list_all plain_char x \<Longrightarrow> env_part x = map upper_char x"
proof (induction x)
  case Nil
  show ?case by (simp add: env_part_def ReplaceChar_def)
next
  case (Cons c x)
  then show ?case by (auto simp: env_part_def ReplaceChar_def dest: plain_charD)
qed

lemma env_part_plain_inj:
  "list_all plain_char x \<Longrightarrow> list_all plain_char y \<Longrightarrow> env_part x = env_part y \<Longrightarrow> x = y"
  unfolding env_part_plain
  by (induction x y rule: list_induct2') (auto intro: upper_char_plain)

lemma env_parts_plain_inj:
  "list_all (list_all plain_char) p \<Longrightarrow> list_all (list_all plain_char) q \<Longrightarrow>
   map env_part p = map env_part q \<Longrightarrow> p = q"
  by (induction p q rule: list_induct2') (auto intro: env_part_plain_inj)

lemma env_part_free: "list_all plain_char x \<Longrightarrow> US \<notin> set (env_part x)"
  using plain_charD(5) by (fastforce simp: env_part_plain list_all_iff)

lemma envName_plain_inj:
  assumes p: "p \<noteq> []" "list_all (list_all plain_char) p" and q: "q \<noteq> []" "list_all (list_all plain_char) q"
    and eq: "envName prefix p = envName prefix q"
  shows "p = q"
proof -
  have "JoinWith (map env_part p) [US] = JoinWith (map env_part q) [US]"
  proof (cases "prefix = []")
    case True
    with eq p(1) q(1) show ?thesis by (simp add: envName_def)
  next
    case False
    with eq p(1) q(1) show ?thesis by (simp add: envName_def JoinWith_append)
  qed
  moreover have "Split (JoinWith (map env_part r) [US]) US = map env_part r"
    if "r \<noteq> []" "list_all (list_all plain_char) r" for r
    using that by (intro Split_JoinWith) (auto simp: list_all_iff dest: env_part_free [unfolded list_all_iff])
  ultimately have "map env_part p = map env_part q" using p q by metis
  with p(2) q(2) show ?thesis by (rule env_parts_plain_inj)
qed

text \<open>A \<open>ParseFloat\<close> for the examples.\<close>

definition no_floats :: "string \<Rightarrow> nat \<Rightarrow> gerr + string" where
  "no_floats raw w = Inl (Sentinel ErrSyntax)"

section \<open>Properties\<close>




text \<open>
  \<open>ApplyEnv\<close> is idempotent: applied to its own result, with the same environment and prefix, it
  succeeds and changes nothing.
\<close>

theorem apply_env_idempotent:
  assumes "ApplyEnv pf env target prefix = Inr target'"
  shows "ApplyEnv pf env target' prefix = Inr target'"
proof (cases target)
  case None
  with assms show ?thesis by (auto simp: ApplyEnv_def)
next
  case (Some v)
  with assms obtain t u w where "v = GPtr t (Some u)" "applyEnvValue pf env (envPrefixParts prefix) [] u = Inr w"
    "target' = Some (GPtr t (Some w))"
    by (cases v) (auto simp: ApplyEnv_def split: option.splits)
  with apply_again(1) show ?thesis by (simp add: ApplyEnv_def)
qed

definition demo_config :: "string \<Rightarrow> gval option" where
  "demo_config addr = Some (GPtr TyString (Some (GStruct
     [(\<lparr>sf_Name = ''Server'', sf_yaml = ''server'', sf_exported = True\<rparr>,
       GStruct [(\<lparr>sf_Name = ''Addr'', sf_yaml = ''addr'', sf_exported = True\<rparr>, GString addr)])])))"

lemma demo_apply:
  "ApplyEnv no_floats [''APP_SERVER_ADDR'' \<mapsto> ''new''] (demo_config ''old'') ''app'' = Inr (demo_config ''new'')"
proof -
  have p: "envPrefixParts ''app'' = [''app'']"
    by (simp add: envPrefixParts_def TrimSpace_graphic graphic_def)
  have n: "envName [''app''] [''server'', ''addr''] = ''APP_SERVER_ADDR''"
    by (simp add: envName_def env_part_plain plain_char_def is_digit_def upper_char_def) code_simp
  show ?thesis
    by (simp add: ApplyEnv_def demo_config_def p apply_node field_step_def yamlFieldName_def appendPath_def
        apply_at_leaf is_leaf_def apply_leaf_def n)
qed

theorem apply_env_idempotent_witness:
  "ApplyEnv no_floats [''APP_SERVER_ADDR'' \<mapsto> ''new''] (demo_config ''new'') ''app'' = Inr (demo_config ''new'')"
  by (rule apply_env_idempotent [OF demo_apply])

text \<open>
  After \<open>ApplyEnv\<close> no nil pointer is left in the configuration, whether any variable is set or
  not: every optional section is allocated with zero values, although without a variable no leaf
  changes.
\<close>

theorem apply_env_allocates_pointers:
  assumes "\<And>path'. env (envName prefix path') = None"
  shows "\<exists>w. applyEnvValue pf env prefix path v = Inr w \<and> nil_free w \<and> leaves path w = leaves path v"
proof -
  have "apply_leaf pf env prefix q u = Inr u" for q u
    unfolding apply_leaf_def Let_def by (simp add: assms)
  then have "run_all (set_leaf pf env prefix) (leaves path v) = Inr (leaves path v)"
    by (intro run_all_id) (auto simp: set_leaf_def)
  then obtain w where "applyEnvValue pf env prefix path v = Inr w" "leaves path w = leaves path v"
    using apply_leaves(1) [of path pf env prefix v] by auto
  with apply_nil_free(1) show ?thesis by blast
qed

theorem apply_env_allocates_pointers_witness:
  "\<exists>w. applyEnvValue no_floats Map.empty [] [] (GPtr TyBool None) = Inr w \<and> nil_free w"
  using apply_env_allocates_pointers [of Map.empty "[]" no_floats "[]" "GPtr TyBool None"] by auto

text \<open>
  Settings whose names in the path are lower-case letters and digits have variables of their
  own. A name with an underscore is not told from two names: \<open>a_b\<close> below a section and \<open>b\<close> below
  its section \<open>a\<close> are set by the same variable.
\<close>

theorem env_names_shared:
  assumes "p \<noteq> []" "list_all (list_all plain_char) p" "q \<noteq> []" "list_all (list_all plain_char) q"
  shows "(envName prefix p = envName prefix q \<longleftrightarrow> p = q) \<and>
    (\<forall>x y r. envName prefix (p @ (x @ US # y) # r) = envName prefix (p @ x # y # r))"
  using envName_plain_inj [OF assms] envName_glue by blast

theorem env_names_shared_witness:
  "envName [''APP''] [''redis'', ''addr''] \<noteq> envName [''APP''] [''log'', ''level'']"
  using env_names_shared [of "[''redis'', ''addr'']" "[''log'', ''level'']" "[''APP'']"]
  by (simp add: plain_char_def is_digit_def)

end
