(* ===== verification/Config_Load.thy ===== *)
theory Config_Load
  imports Config_DotEnv Config_Env Storage_Path
begin

text \<open>
  \<open>LoadYAML\<close> and \<open>FindFile\<close> of \<open>config/config.go\<close>: the options, the search for the file, and the
  layers in their order: dotenv files into the environment, YAML into the target, the environment
  over it, the defaults, the environment again, the validation. The YAML decoder, the file
  system and the two optional methods of the target are parameters. The lemmas show that the
  environment has the last word, and which file is used.
\<close>

section \<open>Options\<close>

record LoadOptions =
  lo_DotEnvPaths :: "string list"
  lo_EnvPrefix :: string
  lo_ApplyEnvOverride :: bool
  lo_SearchNames :: "string list"
  lo_SearchDirs :: "string list"

type_synonym LoadOption = "LoadOptions \<Rightarrow> LoadOptions"

definition WithDotEnv :: "string list \<Rightarrow> LoadOption" where
  "WithDotEnv paths options = options\<lparr>lo_DotEnvPaths := lo_DotEnvPaths options @ paths\<rparr>"

definition WithSearchNames :: "string list \<Rightarrow> LoadOption" where
  "WithSearchNames names options = options\<lparr>lo_SearchNames := lo_SearchNames options @ names\<rparr>"

definition WithSearchDirs :: "string list \<Rightarrow> LoadOption" where
  "WithSearchDirs dirs options = options\<lparr>lo_SearchDirs := lo_SearchDirs options @ dirs\<rparr>"

definition WithEnvPrefix :: "string \<Rightarrow> LoadOption" where
  "WithEnvPrefix prefix options = options\<lparr>lo_EnvPrefix := prefix, lo_ApplyEnvOverride := True\<rparr>"

definition WithEnvOverride :: "bool \<Rightarrow> LoadOption" where
  "WithEnvOverride enabled options = options\<lparr>lo_ApplyEnvOverride := enabled\<rparr>"

definition default_options :: LoadOptions where
  "default_options =
     \<lparr>lo_DotEnvPaths = [''.env''], lo_EnvPrefix = ''CHOBITS'', lo_ApplyEnvOverride = True,
      lo_SearchNames = [''config.yaml'', ''config.yml''], lo_SearchDirs = [''.'', ''./config'']\<rparr>"

section \<open>The file\<close>

text \<open>The inner loop: the first name in a directory that \<open>os.Stat\<close> finds.\<close>

fun find_name :: "(string \<Rightarrow> gerr option) \<Rightarrow> string \<Rightarrow> string list \<Rightarrow> string option" where
  "find_name stat dir [] = None"
| "find_name stat dir (name # names) =
     (let candidate = PathJoin dir name in
      if stat candidate = None then Some candidate else find_name stat dir names)"

fun find_in :: "(string \<Rightarrow> gerr option) \<Rightarrow> string list \<Rightarrow> string list \<Rightarrow> string option" where
  "find_in stat names [] = None"
| "find_in stat names (dir # dirs) =
     (case find_name stat dir names of Some candidate \<Rightarrow> Some candidate | None \<Rightarrow> find_in stat names dirs)"

definition FindFile :: "(string \<Rightarrow> gerr option) \<Rightarrow> string \<Rightarrow> string list \<Rightarrow> string list \<Rightarrow> gerr + string" where
  "FindFile stat explicit names dirs =
     (if explicit \<noteq> [] then (case stat explicit of Some err \<Rightarrow> Inl err | None \<Rightarrow> Inr explicit)
      else case find_in stat names dirs of
        Some candidate \<Rightarrow> Inr candidate
      | None \<Rightarrow> Inl (Errorf ''config file not found'' []))"

section \<open>Loading\<close>

text \<open>
  The world of the call: the dotenv files, \<open>os.Stat\<close>, \<open>os.ReadFile\<close>, \<open>strconv.ParseFloat\<close>. What
  the target can do: the decoder fills it, and it may have defaults and a validation.
\<close>

record load_world =
  lw_dotenv :: "string \<Rightarrow> dot_file"
  lw_stat :: "string \<Rightarrow> gerr option"
  lw_ReadFile :: "string \<Rightarrow> gerr + bytes"
  lw_ParseFloat :: "string \<Rightarrow> nat \<Rightarrow> gerr + string"

record target_type =
  tt_Unmarshal :: "bytes \<Rightarrow> gval \<Rightarrow> gerr + gval"
  tt_ApplyDefaults :: "(gval \<Rightarrow> gval) option"
  tt_Validate :: "(gval \<Rightarrow> gerr option) option"

text \<open>The environment over a target that is there, when it is asked for.\<close>

definition override :: "load_world \<Rightarrow> LoadOptions \<Rightarrow> environ \<Rightarrow> gval \<Rightarrow> gerr + gval" where
  "override w options env target =
     (if lo_ApplyEnvOverride options
      then map_sum (\<lambda>err. err) the (ApplyEnv (lw_ParseFloat w) env (Some target) (lo_EnvPrefix options))
      else Inr target)"

text \<open>From the data of the file to the finished target.\<close>

definition finish :: "load_world \<Rightarrow> LoadOptions \<Rightarrow> target_type \<Rightarrow> environ \<Rightarrow> gval \<Rightarrow> gerr + gval" where
  "finish w options T env target =
     (case override w options env target of
        Inl err \<Rightarrow> Inl err
      | Inr target \<Rightarrow>
     (let target = (case tt_ApplyDefaults T of None \<Rightarrow> target | Some f \<Rightarrow> f target) in
     (case override w options env target of
        Inl err \<Rightarrow> Inl err
      | Inr target \<Rightarrow>
          (case (case tt_Validate T of None \<Rightarrow> None | Some f \<Rightarrow> f target) of
             Some err \<Rightarrow> Inl err
           | None \<Rightarrow> Inr target))))"

text \<open>
  \<open>LoadYAML\<close>: the path that was used and the target, or the error; and the environment of the
  process afterwards. What the dotenv files report is dropped.
\<close>

definition LoadYAML ::
  "load_world \<Rightarrow> target_type \<Rightarrow> string \<Rightarrow> gval option \<Rightarrow> LoadOption list \<Rightarrow> environ \<Rightarrow>
   (gerr + (string \<times> gval)) \<times> environ" where
  "LoadYAML w T path target opts env =
     (case target of
        None \<Rightarrow> (Inl (Errorf ''config target is nil'' []), env)
      | Some target \<Rightarrow>
     (let options = foldl (\<lambda>options opt. opt options) default_options opts;
          env = snd (TryLoadDotEnv (lw_dotenv w) (lo_DotEnvPaths options) env)
      in (case FindFile (lw_stat w) path (lo_SearchNames options) (lo_SearchDirs options) of
            Inl err \<Rightarrow> (Inl err, env)
          | Inr used \<Rightarrow>
         (case lw_ReadFile w used of
            Inl err \<Rightarrow> (Inl err, env)
          | Inr data \<Rightarrow>
         (case tt_Unmarshal T data target of
            Inl err \<Rightarrow> (Inl (Wrapf ''unmarshal config %s: %w'' err [used]), env)
          | Inr target \<Rightarrow> (map_sum (\<lambda>err. err) (Pair used) (finish w options T env target), env))))))"

section \<open>Lemmas\<close>

text \<open>The search, as one list of candidates.\<close>

definition candidates :: "string list \<Rightarrow> string list \<Rightarrow> string list" where
  "candidates names dirs = concat (map (\<lambda>dir. map (PathJoin dir) names) dirs)"

lemma find_append: "find P (xs @ ys) = (case find P xs of Some x \<Rightarrow> Some x | None \<Rightarrow> find P ys)"
  by (induction xs) simp_all

lemma find_name_find: "find_name stat dir names = find (\<lambda>c. stat c = None) (map (PathJoin dir) names)"
  by (induction names) (simp_all add: Let_def)

lemma find_in_find: "find_in stat names dirs = find (\<lambda>c. stat c = None) (candidates names dirs)"
  by (induction dirs) (simp_all add: candidates_def find_append find_name_find split: option.split)

lemma override_again:
  assumes "override w options env target = Inr target'"
  shows "override w options env target' = Inr target'"
proof (cases "lo_ApplyEnvOverride options")
  case True
  with assms obtain r where r: "ApplyEnv (lw_ParseFloat w) env (Some target) (lo_EnvPrefix options) = Inr r"
    "target' = the r" by (auto simp: override_def)
  then have "r = Some target'"
    by (auto simp: ApplyEnv_def split: gval.splits option.splits)
  with r(1) have "ApplyEnv (lw_ParseFloat w) env (Some target) (lo_EnvPrefix options) = Inr (Some target')" by simp
  then have "ApplyEnv (lw_ParseFloat w) env (Some target') (lo_EnvPrefix options) = Inr (Some target')"
    by (auto simp: ApplyEnv_def apply_again(1) split: gval.splits option.splits)
  with True show ?thesis by (simp add: override_def)
next
  case False
  with assms show ?thesis by (simp add: override_def)
qed

lemma finish_override:
  assumes "finish w options T env target = Inr target'"
  shows "override w options env target' = Inr target'"
  using assms override_again [of w options env _ target']
  by (auto simp: finish_def Let_def split: sum.splits option.splits)

text \<open>A leaf of the result has the value of its variable.\<close>

lemma run_all_same:
  assumes "run_all f xs = Inr xs" and "x \<in> set xs"
  shows "f x = Inr x"
  using assms
proof (induction xs)
  case (Cons y ys)
  then obtain z where "f y = Inr z" "map_sum (\<lambda>e. e) (\<lambda>ys. z # ys) (run_all f ys) = Inr (y # ys)"
    by (auto split: sum.splits)
  then have "f y = Inr y" "run_all f ys = Inr ys" by auto
  with Cons show ?case by auto
qed simp

lemma override_leaf:
  assumes "override w options env (GPtr t (Some v)) = Inr (GPtr t (Some v))" and "lo_ApplyEnvOverride options"
    and leaf: "(path, leaf) \<in> set (leaves [] v)"
  shows "apply_leaf (lw_ParseFloat w) env (envPrefixParts (lo_EnvPrefix options)) path leaf = Inr leaf"
proof -
  have "applyEnvValue (lw_ParseFloat w) env (envPrefixParts (lo_EnvPrefix options)) [] v = Inr v"
    using assms(1,2) by (auto simp: override_def ApplyEnv_def)
  with apply_leaves(1) [of "[]" "lw_ParseFloat w" env "envPrefixParts (lo_EnvPrefix options)" v]
  have "run_all (set_leaf (lw_ParseFloat w) env (envPrefixParts (lo_EnvPrefix options))) (leaves [] v) = Inr (leaves [] v)"
    by simp
  from run_all_same [OF this leaf] show ?thesis by (auto simp: set_leaf_def)
qed

lemma override_pointer:
  assumes "override w options env target = Inr target" and "lo_ApplyEnvOverride options"
  shows "\<exists>t v. target = GPtr t (Some v)"
  using assms by (auto simp: override_def ApplyEnv_def split: gval.splits option.splits)

text \<open>The way of a call through its steps.\<close>

lemma LoadYAML_steps:
  assumes "TryLoadDotEnv (lw_dotenv w) (lo_DotEnvPaths (foldl (\<lambda>options opt. opt options) default_options opts)) env = (r, env')"
    and "options = foldl (\<lambda>options opt. opt options) default_options opts"
    and "FindFile (lw_stat w) path (lo_SearchNames options) (lo_SearchDirs options) = Inr used"
    and "lw_ReadFile w used = Inr data" and "tt_Unmarshal T data target = Inr t"
  shows "LoadYAML w T path (Some target) opts env = (map_sum (\<lambda>err. err) (Pair used) (finish w options T env' t), env')"
  using assms by (simp add: LoadYAML_def)

section \<open>Properties\<close>


definition demo_world :: load_world where
  "demo_world =
     \<lparr>lw_dotenv = (\<lambda>path. \<lparr>df_open = Some (Sentinel ErrNotExist), df_data = [], df_read = None, df_close = None\<rparr>),
      lw_stat = (\<lambda>path. None), lw_ReadFile = (\<lambda>path. Inr ''addr: old''), lw_ParseFloat = no_floats\<rparr>"

definition demo_target :: target_type where
  "demo_target =
     \<lparr>tt_Unmarshal = (\<lambda>data target. Inr (the (demo_config ''old''))), tt_ApplyDefaults = None, tt_Validate = None\<rparr>"


text \<open>
  The search takes directories before names: with no explicit path, \<open>FindFile\<close> returns the
  first candidate that exists, all names in the first directory, then all in the second, and
  fails when there is none; with an explicit path it looks at no other.
\<close>

theorem find_file_first_candidate:
  "FindFile stat explicit names dirs =
     (case find (\<lambda>c. stat c = None) (if explicit = [] then candidates names dirs else [explicit]) of
        Some used \<Rightarrow> Inr used
      | None \<Rightarrow> Inl (if explicit = [] then Errorf ''config file not found'' [] else the (stat explicit)))"
  by (auto simp: FindFile_def find_in_find split: option.split)

end
