(* ===== verification/KDaysUC.thy ===== *)
theory KDaysUC
  imports Strconv "HOL-Library.AList"
begin

text \<open>
  The user-centre client of \<open>kdaysuc/client.go\<close>: the signed request, the answer with its envelope,
  the calls for tokens and users, and the decoding of a user. The network, SHA-1, the JSON codec
  and the parts of \<open>net/url\<close> are parameters. The lemmas show what is signed and sent, when a call
  succeeds, and that a decoded user survives encoding and decoding.
\<close>

section \<open>Configuration and client\<close>

record UCConfig =
  uc_APIHost :: string
  uc_PublicHost :: string
  uc_APIKey :: string
  uc_Secret :: string
  uc_AppID :: string
  uc_TimeoutSeconds :: int64
  uc_Timeout :: duration

record UCClient =
  cl_cfg :: UCConfig
  cl_Timeout :: duration

definition seconds :: "int64 \<Rightarrow> duration" where
  "seconds n = n * word_of_int second"

definition New_Client :: "UCConfig \<Rightarrow> UCClient" where
  "New_Client cfg =
     (let timeout = uc_Timeout cfg;
          timeout = (if sint timeout \<le> 0 then seconds (uc_TimeoutSeconds cfg) else timeout);
          timeout = (if sint timeout \<le> 0 then seconds 10 else timeout)
      in \<lparr>cl_cfg = cfg, cl_Timeout = timeout\<rparr>)"

definition NewClient :: "string \<Rightarrow> string \<Rightarrow> string \<Rightarrow> UCClient" where
  "NewClient host apiKey secret = New_Client
     \<lparr>uc_APIHost = host, uc_PublicHost = [], uc_APIKey = apiKey, uc_Secret = secret, uc_AppID = [],
      uc_TimeoutSeconds = 0, uc_Timeout = 0\<rparr>"

section \<open>Requests\<close>

text \<open>
  What the client meets: the time, SHA-1, the checks of \<open>http.NewRequest\<close>, the network, and the
  decoding of the envelope. A response is its status, its body, and the error its body ends with
  when it is cut.
\<close>

record uc_request =
  rq_Method :: string
  rq_URL :: string
  rq_Body :: "bytes option"
  rq_Header :: "(string \<times> string) list"

record uc_response =
  rs_Status :: int64
  rs_Body :: bytes
  rs_Error :: "gerr option"

record envelope =
  ev_Code :: int64
  ev_Msg :: string
  ev_Data :: bytes

record uc_world =
  w_now :: time
  w_sha1 :: "bytes \<Rightarrow> bytes"
  w_NewRequest :: "string \<Rightarrow> string \<Rightarrow> gerr option"
  w_send :: "uc_request \<Rightarrow> gerr + uc_response"
  w_envelope :: "bytes \<Rightarrow> gerr + envelope"

definition endpoint :: "UCConfig \<Rightarrow> string \<Rightarrow> string" where
  "endpoint cfg action = TrimRight (uc_APIHost cfg) (CHR ''/'') @ ''/api/v1'' @ action"

text \<open>What is hashed: the body, the secret, the time in seconds.\<close>

definition sign_text :: "UCConfig \<Rightarrow> time \<Rightarrow> string \<Rightarrow> bytes" where
  "sign_text cfg now body = body @ uc_Secret cfg @ FormatInt (Unix now)"

text \<open>
  The first half of \<open>Call\<close>: the payload as text (\<open>[]\<close> when there is none), and the request. A \<open>GET\<close>
  request is signed for its text, but has no body.
\<close>

definition build_request ::
  "uc_world \<Rightarrow> UCConfig \<Rightarrow> string \<Rightarrow> string \<Rightarrow> (gerr + string) option \<Rightarrow> string \<Rightarrow> gerr + uc_request" where
  "build_request w cfg method action payload accessToken =
     (case (case payload of None \<Rightarrow> Inr ''[]'' | Some body \<Rightarrow> body) of
        Inl err \<Rightarrow> Inl err
      | Inr bodyText \<Rightarrow>
     (case w_NewRequest w method (endpoint cfg action) of
        Some err \<Rightarrow> Inl err
      | None \<Rightarrow> Inr
          \<lparr>rq_Method = method,
           rq_URL = endpoint cfg action,
           rq_Body = (if method = ''GET'' then None else Some bodyText),
           rq_Header =
             (if method = ''GET'' then [] else [(''Content-Type'', ''application/json'')]) @
             [(''X-API-KEY'', uc_APIKey cfg),
              (''X-SIGN-TIME'', FormatInt (Unix (w_now w))),
              (''X-SIGN'', EncodeToString (w_sha1 w (sign_text cfg (w_now w) bodyText)))] @
             (if accessToken = [] then [] else [(''X-TOKEN'', accessToken)])\<rparr>))"

definition callError :: "string \<Rightarrow> int64 \<Rightarrow> int64 \<Rightarrow> string \<Rightarrow> gerr" where
  "callError action statusCode code message =
     Errorf ''kdays uc %s failed: http_status=%d code=%d msg=%s''
       [action, FormatInt statusCode, FormatInt code, if message = [] then ''kdays_uc_error'' else message]"

text \<open>
  The second half: at most 1 MB of the body is read, an empty body is an empty envelope, the
  status and the code are checked, and the data is decoded when the caller wants it.
\<close>

definition body_limit :: nat where
  "body_limit = 1024 * 1024"

definition empty_envelope :: envelope where
  "empty_envelope = \<lparr>ev_Code = 0, ev_Msg = [], ev_Data = []\<rparr>"

definition read_response ::
  "uc_world \<Rightarrow> string \<Rightarrow> uc_response \<Rightarrow> (bytes \<Rightarrow> gerr + 't) option \<Rightarrow> gerr + 't option" where
  "read_response w action response target =
     (case (if length (rs_Body response) < body_limit then rs_Error response else None) of
        Some err \<Rightarrow> Inl (Wrapf ''kdays uc %s read response: %w'' err [action])
      | None \<Rightarrow>
     (let responseBody = take body_limit (rs_Body response) in
     (case (if responseBody = [] then Inr empty_envelope else w_envelope w responseBody) of
        Inl err \<Rightarrow> Inl (Wrapf ''kdays uc %s invalid json response: http_status=%d: %w'' err
                        [action, FormatInt (rs_Status response)])
      | Inr env \<Rightarrow>
          if sint (rs_Status response) < 200 \<or> 300 \<le> sint (rs_Status response) \<or> ev_Code env \<noteq> 0
          then Inl (callError action (rs_Status response) (ev_Code env) (ev_Msg env))
          else (case target of
                  None \<Rightarrow> Inr None
                | Some decode \<Rightarrow>
                    if ev_Data env = [] \<or> ev_Data env = ''null''
                    then Inl (Errorf ''kdays uc %s missing data'' [action])
                    else map_sum (\<lambda>err. err) Some (decode (ev_Data env))))))"

text \<open>\<open>Call\<close>, with the request it sends, if it comes to that.\<close>

definition Call ::
  "uc_world \<Rightarrow> UCClient option \<Rightarrow> string \<Rightarrow> string \<Rightarrow> (gerr + string) option \<Rightarrow> string \<Rightarrow>
   (bytes \<Rightarrow> gerr + 't) option \<Rightarrow> uc_request option \<times> (gerr + 't option)" where
  "Call w client method action payload accessToken target =
     (case client of
        None \<Rightarrow> (None, Inl (Sentinel ErrUCUnavailable))
      | Some cl \<Rightarrow>
          if uc_APIHost (cl_cfg cl) = [] \<or> uc_APIKey (cl_cfg cl) = [] \<or> uc_Secret (cl_cfg cl) = []
          then (None, Inl (Sentinel ErrUCUnavailable))
          else (case build_request w (cl_cfg cl) method action payload accessToken of
                  Inl err \<Rightarrow> (None, Inl err)
                | Inr request \<Rightarrow>
                    (Some request,
                     case w_send w request of
                       Inl err \<Rightarrow> Inl (Wrapf ''kdays uc network error: %w'' err [])
                     | Inr response \<Rightarrow> read_response w action response target)))"

section \<open>Users\<close>

record UserInfo =
  ui_OpenID :: string
  ui_UnionID :: string
  ui_UserNick :: string
  ui_Nick :: string
  ui_DisplayName :: string
  ui_UserEmail :: string
  ui_Email :: string
  ui_AvatarURL :: string
  ui_Avatar :: string
  ui_UserSalt :: string
  ui_Salt :: string
  ui_UserPasswd :: string
  ui_Password :: string
  ui_ExpiresIn :: int64
  ui_PushKey :: string

definition StableOpenID :: "UserInfo \<Rightarrow> string" where
  "StableOpenID info = (if ui_UnionID info \<noteq> [] then ui_UnionID info else ui_OpenID info)"

text \<open>The struct \<open>alias\<close> of \<open>UnmarshalJSON\<close>: the keys that are read.\<close>

record user_alias =
  al_open_id :: string
  al_union_id :: string
  al_user_nick :: string
  al_display_name :: string
  al_user_email :: string
  al_email :: string
  al_avatar_url :: string
  al_user_avatar :: string
  al_user_password :: string
  al_user_pwd :: string
  al_user_salt :: string
  al_expires_in :: int64
  al_push_key :: string

fun firstNonEmpty :: "string list \<Rightarrow> string" where
  "firstNonEmpty [] = []"
| "firstNonEmpty (value # values) = (if value \<noteq> [] then value else firstNonEmpty values)"

definition user_of :: "user_alias \<Rightarrow> UserInfo" where
  "user_of raw =
     (let nick = firstNonEmpty [al_user_nick raw, al_display_name raw];
          email = firstNonEmpty [al_user_email raw, al_email raw];
          avatar = firstNonEmpty [al_avatar_url raw, al_user_avatar raw];
          password = firstNonEmpty [al_user_password raw, al_user_pwd raw]
      in \<lparr>ui_OpenID = al_open_id raw, ui_UnionID = al_union_id raw,
          ui_UserNick = nick, ui_Nick = nick,
          ui_DisplayName = firstNonEmpty [al_display_name raw, al_user_nick raw],
          ui_UserEmail = email, ui_Email = email,
          ui_AvatarURL = avatar, ui_Avatar = avatar,
          ui_UserSalt = al_user_salt raw, ui_Salt = al_user_salt raw,
          ui_UserPasswd = password, ui_Password = password,
          ui_ExpiresIn = al_expires_in raw, ui_PushKey = al_push_key raw\<rparr>)"

text \<open>\<open>UnmarshalJSON\<close>; \<open>decode\<close> is \<open>json.Unmarshal\<close> into the alias.\<close>

definition UnmarshalJSON :: "(bytes \<Rightarrow> gerr + user_alias) \<Rightarrow> bytes \<Rightarrow> gerr + UserInfo" where
  "UnmarshalJSON decode data = map_sum (\<lambda>err. err) user_of (decode data)"

section \<open>The calls\<close>

record LoginResponse =
  lr_AccessToken :: string

text \<open>\<open>marshal\<close> encodes the payload of the token request, \<open>decode\<close> decodes the data of the answer.\<close>

definition SessionAccessToken ::
  "(string \<Rightarrow> int64 \<Rightarrow> gerr + string) \<Rightarrow> (bytes \<Rightarrow> gerr + LoginResponse) \<Rightarrow> uc_world \<Rightarrow> UCClient option \<Rightarrow>
   string \<Rightarrow> int64 \<Rightarrow> uc_request option \<times> (gerr + string)" where
  "SessionAccessToken marshal decode w client accessCode expireIn =
     (let expireIn = (if sint expireIn \<le> 0 then 3600 else expireIn) in
      case Call w client ''POST'' ''/oauth/token'' (Some (marshal accessCode expireIn)) [] (Some decode) of
        (request, Inl err) \<Rightarrow> (request, Inl err)
      | (request, Inr payload) \<Rightarrow>
          (request,
           let token = (case payload of None \<Rightarrow> [] | Some answer \<Rightarrow> lr_AccessToken answer) in
           if token = [] then Inl (Errorf ''kdays uc /oauth/token missing access_token'' []) else Inr token))"

definition AccessToken ::
  "(string \<Rightarrow> int64 \<Rightarrow> gerr + string) \<Rightarrow> (bytes \<Rightarrow> gerr + LoginResponse) \<Rightarrow> uc_world \<Rightarrow> UCClient option \<Rightarrow>
   string \<Rightarrow> int64 \<Rightarrow> uc_request option \<times> (gerr + string)" where
  "AccessToken marshal decode w client accessCode expireIn =
     SessionAccessToken marshal decode w client accessCode expireIn"

definition GetAccessToken ::
  "(string \<Rightarrow> int64 \<Rightarrow> gerr + string) \<Rightarrow> (bytes \<Rightarrow> gerr + LoginResponse) \<Rightarrow> uc_world \<Rightarrow> UCClient option \<Rightarrow>
   string \<Rightarrow> int64 list \<Rightarrow> uc_request option \<times> (gerr + string)" where
  "GetAccessToken marshal decode w client accessCode expireIn =
     SessionAccessToken marshal decode w client accessCode (case expireIn of [] \<Rightarrow> 3600 | e # _ \<Rightarrow> e)"

text \<open>A user that is not set by the decoding is the zero value.\<close>

definition zero_user :: UserInfo where
  "zero_user =
     \<lparr>ui_OpenID = [], ui_UnionID = [], ui_UserNick = [], ui_Nick = [], ui_DisplayName = [], ui_UserEmail = [],
      ui_Email = [], ui_AvatarURL = [], ui_Avatar = [], ui_UserSalt = [], ui_Salt = [], ui_UserPasswd = [],
      ui_Password = [], ui_ExpiresIn = 0, ui_PushKey = []\<rparr>"

definition Client_UserInfo ::
  "(bytes \<Rightarrow> gerr + user_alias) \<Rightarrow> uc_world \<Rightarrow> UCClient option \<Rightarrow> string \<Rightarrow>
   uc_request option \<times> (gerr + UserInfo)" where
  "Client_UserInfo decode w client accessToken =
     (case Call w client ''GET'' ''/oauth/me'' None accessToken (Some (UnmarshalJSON decode)) of
        (request, Inl err) \<Rightarrow> (request, Inl err)
      | (request, Inr payload) \<Rightarrow> (request, Inr (case payload of None \<Rightarrow> zero_user | Some info \<Rightarrow> info)))"

definition GetUserInfo ::
  "(bytes \<Rightarrow> gerr + user_alias) \<Rightarrow> uc_world \<Rightarrow> UCClient option \<Rightarrow> string \<Rightarrow>
   uc_request option \<times> (gerr + UserInfo)" where
  "GetUserInfo decode w client accessToken = Client_UserInfo decode w client accessToken"

text \<open>\<open>LoginURL\<close>. \<open>parse\<close> and \<open>show_url\<close> are \<open>url.Parse\<close> and the text of a URL; a query is a map.\<close>

record url =
  ur_rest :: string
  ur_Path :: string
  ur_Query :: "string \<rightharpoonup> string list"

definition LoginURL :: "(string \<Rightarrow> gerr + url) \<Rightarrow> (url \<Rightarrow> string) \<Rightarrow> string \<Rightarrow> string \<Rightarrow> string \<Rightarrow> string" where
  "LoginURL parse show_url host clientID state =
     (case parse (TrimRight host (CHR ''/'')) of
        Inl err \<Rightarrow> []
      | Inr parsed \<Rightarrow>
          (let query = ur_Query parsed;
               query = (if clientID \<noteq> [] then query(''client_id'' \<mapsto> [clientID]) else query);
               query = (if state \<noteq> [] then query(''state'' \<mapsto> [state]) else query)
           in show_url (parsed\<lparr>ur_Path := TrimRight (ur_Path parsed) (CHR ''/'') @ ''/sso/login/'', ur_Query := query\<rparr>)))"

definition Client_LoginURL :: "(string \<Rightarrow> gerr + url) \<Rightarrow> (url \<Rightarrow> string) \<Rightarrow> UCClient \<Rightarrow> string \<Rightarrow> string" where
  "Client_LoginURL parse show_url client state =
     LoginURL parse show_url (uc_PublicHost (cl_cfg client)) (uc_AppID (cl_cfg client)) state"

section \<open>The verifying side\<close>

text \<open>
  How a server that knows the secret checks a request: the signature of its body, or of \<open>[]\<close> when
  it has none, and of the time it names.
\<close>

definition verifies :: "(bytes \<Rightarrow> bytes) \<Rightarrow> string \<Rightarrow> uc_request \<Rightarrow> bool" where
  "verifies sha1 secret rq \<longleftrightarrow>
     (\<exists>time. map_of (rq_Header rq) ''X-SIGN-TIME'' = Some time \<and>
        map_of (rq_Header rq) ''X-SIGN''
          = Some (EncodeToString (sha1 ((case rq_Body rq of None \<Rightarrow> ''[]'' | Some b \<Rightarrow> b) @ secret @ time))))"

lemma build_request_verifies:
  assumes "build_request w cfg method action payload token = Inr rq"
    and "method = ''GET'' \<longrightarrow> payload = None"
  shows "verifies (w_sha1 w) (uc_Secret cfg) rq"
proof (cases "method = ''GET''")
  case True
  with assms show ?thesis
    by (auto simp: build_request_def verifies_def sign_text_def split: option.splits)
next
  case False
  with assms show ?thesis
    by (auto simp: build_request_def verifies_def sign_text_def split: option.splits sum.splits)
qed

lemma build_request_Method: "build_request w cfg method action payload token = Inr rq \<Longrightarrow> rq_Method rq = method"
  by (auto simp: build_request_def split: option.splits sum.splits)

lemma Call_sent:
  "fst (Call w client method action payload token target) = Some rq \<Longrightarrow>
   \<exists>cl. client = Some cl \<and> uc_Secret (cl_cfg cl) \<noteq> [] \<and> build_request w (cl_cfg cl) method action payload token = Inr rq"
  by (auto simp: Call_def split: option.splits if_splits sum.splits)

text \<open>A call with a target succeeds only on an answer that says so.\<close>

definition good_answer :: "uc_world \<Rightarrow> uc_request \<Rightarrow> bytes \<Rightarrow> bool" where
  "good_answer w rq data \<longleftrightarrow>
     (\<exists>resp env. w_send w rq = Inr resp \<and> 200 \<le> sint (rs_Status resp) \<and> sint (rs_Status resp) < 300 \<and>
        w_envelope w (take body_limit (rs_Body resp)) = Inr env \<and> ev_Code env = 0 \<and> ev_Data env = data)"

lemma read_response_Inr:
  assumes "read_response w action resp (Some decode) = Inr r" and "w_send w rq = Inr resp"
  shows "\<exists>data x. r = Some x \<and> decode data = Inr x \<and> good_answer w rq data"
proof -
  let ?env = "if take body_limit (rs_Body resp) = [] then Inr empty_envelope else w_envelope w (take body_limit (rs_Body resp))"
  from assms(1) obtain env where env: "?env = Inr env" "200 \<le> sint (rs_Status resp)" "sint (rs_Status resp) < 300"
    "ev_Code env = 0" "ev_Data env \<noteq> []" "map_sum (\<lambda>err. err) Some (decode (ev_Data env)) = Inr r"
    unfolding read_response_def Let_def by (auto split: option.splits sum.splits if_splits)
  then have "w_envelope w (take body_limit (rs_Body resp)) = Inr env"
    by (auto simp: empty_envelope_def split: if_splits)
  with env assms(2) show ?thesis by (auto simp: good_answer_def)
qed

lemma Call_Inr:
  assumes "Call w client method action payload token (Some decode) = (request, Inr r)"
  shows "\<exists>rq data x. request = Some rq \<and> r = Some x \<and> decode data = Inr x \<and> good_answer w rq data"
proof -
  from assms obtain rq resp where "request = Some rq" "w_send w rq = Inr resp"
    "read_response w action resp (Some decode) = Inr r"
    by (auto simp: Call_def split: option.splits if_splits sum.splits)
  with read_response_Inr [of w action resp decode r rq] show ?thesis by blast
qed

text \<open>The keys and values \<open>encoding/json\<close> writes for a user, as far as \<open>UnmarshalJSON\<close> reads them.\<close>

definition alias_of :: "UserInfo \<Rightarrow> user_alias" where
  "alias_of info =
     \<lparr>al_open_id = ui_OpenID info, al_union_id = ui_UnionID info, al_user_nick = ui_UserNick info,
      al_display_name = ui_DisplayName info, al_user_email = ui_UserEmail info, al_email = ui_Email info,
      al_avatar_url = ui_AvatarURL info, al_user_avatar = [], al_user_password = ui_UserPasswd info,
      al_user_pwd = [], al_user_salt = ui_UserSalt info, al_expires_in = ui_ExpiresIn info,
      al_push_key = ui_PushKey info\<rparr>"

lemma firstNonEmpty_simps:
  "firstNonEmpty [firstNonEmpty [a, b], firstNonEmpty [b, a]] = firstNonEmpty [a, b]"
  "firstNonEmpty [a, a] = a" "firstNonEmpty [a, []] = a"
  by simp_all

lemma user_of_alias_of: "user_of (alias_of (user_of raw)) = user_of raw"
  unfolding user_of_def alias_of_def Let_def
  by (simp add: firstNonEmpty_simps del: firstNonEmpty.simps)

lemma seconds_10: "sint (seconds 10) = 10 * second"
  by (simp add: seconds_def second_def)

section \<open>Properties\<close>



text \<open>
  An access token comes only from an answer that grants it: with a status of the 200s, the code
  0 and data that decodes to a token that is not empty; the request that was answered is the one
  that was sent.
\<close>

theorem access_token_is_granted:
  assumes "SessionAccessToken marshal decode w client code expireIn = (request, Inr token)"
  shows "token \<noteq> [] \<and> (\<exists>rq data. request = Some rq \<and> rq_Method rq = ''POST'' \<and> good_answer w rq data \<and>
    map_sum (\<lambda>err. err) lr_AccessToken (decode data) = Inr token)"
proof -
  let ?e = "if sint expireIn \<le> 0 then 3600 else expireIn"
  from assms obtain r where call:
    "Call w client ''POST'' ''/oauth/token'' (Some (marshal code ?e)) [] (Some decode) = (request, Inr r)"
    and r: "(case r of None \<Rightarrow> [] | Some answer \<Rightarrow> lr_AccessToken answer) = token" "token \<noteq> []"
    unfolding SessionAccessToken_def Let_def by (auto split: prod.splits sum.splits option.splits if_splits)
  from r obtain answer where "r = Some answer" "lr_AccessToken answer = token" by (cases r) auto
  with Call_Inr [OF call] obtain rq data where
    rq: "request = Some rq" "map_sum (\<lambda>err. err) lr_AccessToken (decode data) = Inr token" "good_answer w rq data" by auto
  from call rq(1) have "fst (Call w client ''POST'' ''/oauth/token'' (Some (marshal code ?e)) [] (Some decode)) = Some rq"
    by simp
  from Call_sent [OF this] build_request_Method have "rq_Method rq = ''POST''" by blast
  with rq r(2) show ?thesis by blast
qed

theorem access_token_is_granted_witness:
  "\<exists>rq. good_answer
     \<lparr>w_now = 0, w_sha1 = (\<lambda>t. t), w_NewRequest = (\<lambda>_ _. None),
      w_send = (\<lambda>_. Inr \<lparr>rs_Status = 200, rs_Body = ''token'', rs_Error = None\<rparr>),
      w_envelope = (\<lambda>b. Inr \<lparr>ev_Code = 0, ev_Msg = [], ev_Data = b\<rparr>)\<rparr> rq ''token''"
proof -
  let ?w = "\<lparr>w_now = 0, w_sha1 = (\<lambda>t. t), w_NewRequest = (\<lambda>_ _. None),
      w_send = (\<lambda>_. Inr \<lparr>rs_Status = 200, rs_Body = ''token'', rs_Error = None\<rparr>),
      w_envelope = (\<lambda>b. Inr \<lparr>ev_Code = 0, ev_Msg = [], ev_Data = b\<rparr>)\<rparr>"
  obtain request where "SessionAccessToken (\<lambda>c e. Inr c) (\<lambda>data. Inr \<lparr>lr_AccessToken = data\<rparr>) ?w (Some (NewClient ''https://uc'' ''id'' ''k'')) ''code'' 0
      = (request, Inr ''token'')"
    by (simp add: SessionAccessToken_def Call_def build_request_def read_response_def NewClient_def New_Client_def
        Let_def body_limit_def)
  from access_token_is_granted [OF this] show ?thesis by auto
qed

text \<open>
  A user survives being stored as JSON: what \<open>UnmarshalJSON\<close> made of an answer is what it makes
  of the encoding of that user, although the answer may have named its fields otherwise.
\<close>

theorem user_json_roundtrip:
  assumes "UnmarshalJSON decode data = Inr info" and "decode (encode info) = Inr (alias_of info)"
  shows "UnmarshalJSON decode (encode info) = Inr info"
  using assms user_of_alias_of by (auto simp: UnmarshalJSON_def)

theorem user_json_roundtrip_witness:
  "\<exists>info. ui_UserNick info = ''nick'' \<and> UnmarshalJSON (\<lambda>data. Inr (alias_of info)) ''stored'' = Inr info"
proof -
  let ?info = "user_of (alias_of (zero_user\<lparr>ui_DisplayName := ''nick''\<rparr>))"
  have "UnmarshalJSON (\<lambda>data. Inr (alias_of ?info)) ''answer'' = Inr ?info"
    by (simp add: UnmarshalJSON_def user_of_alias_of)
  from user_json_roundtrip [OF this, of "\<lambda>_. ''stored''"]
  have "UnmarshalJSON (\<lambda>data. Inr (alias_of ?info)) ''stored'' = Inr ?info" by simp
  moreover have "ui_UserNick ?info = ''nick''"
    by (simp add: user_of_def alias_of_def zero_user_def Let_def)
  ultimately show ?thesis by blast
qed

text \<open>
  The client always has a timeout: whatever the configuration says, a negative or missing
  duration, or a number of seconds that wraps around, the timeout of a new client is positive.
\<close>

theorem new_client_timeout_positive:
  "0 < sint (cl_Timeout (New_Client cfg))"
  using seconds_10 by (auto simp: New_Client_def Let_def second_def)

end
