(* ===== verification/Config_Common.thy ===== *)
theory Config_Common
  imports Config_DotEnv Config_Env KDaysUC Cache_Manager Storage_Manager Convert
begin

text \<open>
  The configuration of \<open>config/config.go\<close>: the structs, their defaults, the database connections
  by name and the DSN texts. The lemmas show that the defaults are idempotent and fill every gap,
  and that a connection has a data source name once its defaults are applied.
\<close>

section \<open>The structs\<close>

record AppConfig =
  ap_Name :: string
  ap_Env :: string
  ap_Debug :: bool
  ap_DataDir :: string

record ServerConfig =
  srv_Addr :: string
  srv_AllowedOrigins :: "string list"
  srv_ReadHeaderTimeoutSeconds :: int64
  srv_ShutdownTimeoutSeconds :: int64

record MySQL =
  my_DSN :: string
  my_Host :: string
  my_Port :: int64
  my_User :: string
  my_Password :: string
  my_Database :: string
  my_DBName :: string
  my_Charset :: string
  my_MaxOpenConns :: int64
  my_MaxIdleConns :: int64
  my_ConnMaxLifetimeSeconds :: int64

record SQLite =
  lt_DSN :: string
  lt_Path :: string
  lt_MaxOpenConns :: int64
  lt_MaxIdleConns :: int64
  lt_ConnMaxLifetimeSeconds :: int64

record DatabaseConnection =
  dcn_Driver :: string
  dcn_MySQL :: MySQL
  dcn_SQLite :: SQLite

text \<open>A Go map is nil or a list of its entries, each key once.\<close>

record Databases =
  dbs_Default :: string
  dbs_Driver :: string
  dbs_Connections :: "(string \<times> DatabaseConnection) list option"

record RedisSettings =
  rd_Addr :: string
  rd_Username :: string
  rd_Password :: string
  rd_DB :: int64
  rd_Prefix :: string
  rd_Required :: bool

record LogConfig =
  lg_Level :: string
  lg_Format :: string

record TokenConfig =
  tkc_Prefix :: string
  tkc_TTLSeconds :: int64

record Common =
  cm_App :: AppConfig
  cm_Server :: ServerConfig
  cm_Database :: Databases
  cm_MySQL :: MySQL
  cm_SQLite :: SQLite
  cm_Redis :: RedisSettings
  cm_Cache :: Cache_Manager.Config
  cm_Log :: LogConfig
  cm_Token :: TokenConfig
  cm_Storage :: StorageConfig
  cm_KDaysUC :: UCConfig
  cm_Features :: "(string \<times> bool) list option"

section \<open>Defaults\<close>

text \<open>A default for a value that is the zero value of its type.\<close>

definition or_default :: "'a \<Rightarrow> 'a \<Rightarrow> 'a \<Rightarrow> 'a" where
  "or_default z d x = (if x = z then d else x)"

lemma or_default_idem [simp]: "or_default z d (or_default z d x) = or_default z d x"
  by (simp add: or_default_def)

lemma or_default_not: "d \<noteq> z \<Longrightarrow> or_default z d x \<noteq> z"
  by (simp add: or_default_def)

definition applyMySQLDefaults :: "MySQL \<Rightarrow> MySQL" where
  "applyMySQLDefaults cfg = cfg
     \<lparr>my_Port := or_default 0 3306 (my_Port cfg),
      my_Charset := or_default [] ''utf8mb4'' (my_Charset cfg),
      my_MaxOpenConns := or_default 0 25 (my_MaxOpenConns cfg),
      my_MaxIdleConns := or_default 0 10 (my_MaxIdleConns cfg),
      my_ConnMaxLifetimeSeconds := or_default 0 300 (my_ConnMaxLifetimeSeconds cfg)\<rparr>"

definition applySQLiteDefaults :: "SQLite \<Rightarrow> SQLite" where
  "applySQLiteDefaults cfg = cfg
     \<lparr>lt_Path := (if lt_Path cfg = [] \<and> lt_DSN cfg = [] then ''./data/app.db'' else lt_Path cfg),
      lt_MaxOpenConns := or_default 0 1 (lt_MaxOpenConns cfg),
      lt_MaxIdleConns := or_default 0 1 (lt_MaxIdleConns cfg),
      lt_ConnMaxLifetimeSeconds := or_default 0 300 (lt_ConnMaxLifetimeSeconds cfg)\<rparr>"

definition connection_defaults :: "DatabaseConnection \<Rightarrow> DatabaseConnection" where
  "connection_defaults connection =
     \<lparr>dcn_Driver = or_default [] ''mysql'' (dcn_Driver connection),
      dcn_MySQL = applyMySQLDefaults (dcn_MySQL connection),
      dcn_SQLite = applySQLiteDefaults (dcn_SQLite connection)\<rparr>"

text \<open>
  \<open>applyDatabaseDefaults\<close>: without connections, one is made from the settings of the old form;
  then every connection gets its defaults.
\<close>

definition applyDatabaseDefaults :: "Common \<Rightarrow> Common" where
  "applyDatabaseDefaults cfg =
     (let d = cm_Database cfg;
          name = or_default [] ''default'' (dbs_Default d);
          conns = (case dbs_Connections d of None \<Rightarrow> [] | Some m \<Rightarrow> m);
          conns = (if conns = []
                   then [(name, \<lparr>dcn_Driver = or_default [] ''mysql'' (dbs_Driver d),
                                 dcn_MySQL = cm_MySQL cfg, dcn_SQLite = cm_SQLite cfg\<rparr>)]
                   else conns)
      in cfg\<lparr>cm_Database := d
           \<lparr>dbs_Default := name,
            dbs_Connections := Some (map (\<lambda>(n, c). (n, connection_defaults c)) conns)\<rparr>\<rparr>)"

definition Common_ApplyDefaults :: "Common \<Rightarrow> Common" where
  "Common_ApplyDefaults cfg =
     (let cfg = cfg\<lparr>cm_App := (cm_App cfg)\<lparr>ap_Env := or_default [] ''dev'' (ap_Env (cm_App cfg))\<rparr>,
                    cm_Server := (cm_Server cfg)
                      \<lparr>srv_Addr := or_default [] '':8080'' (srv_Addr (cm_Server cfg)),
                       srv_ReadHeaderTimeoutSeconds := or_default 0 5 (srv_ReadHeaderTimeoutSeconds (cm_Server cfg)),
                       srv_ShutdownTimeoutSeconds := or_default 0 10 (srv_ShutdownTimeoutSeconds (cm_Server cfg))\<rparr>\<rparr>;
          cfg = applyDatabaseDefaults cfg
      in cfg\<lparr>cm_Redis := (cm_Redis cfg)\<lparr>rd_Addr := or_default [] ''127.0.0.1:6379'' (rd_Addr (cm_Redis cfg))\<rparr>,
             cm_Cache := Config_ApplyDefaults (cm_Cache cfg),
             cm_Log := (cm_Log cfg)\<lparr>lg_Level := or_default [] ''info'' (lg_Level (cm_Log cfg))\<rparr>,
             cm_Token := (cm_Token cfg)
               \<lparr>tkc_Prefix := or_default [] ''cbt_'' (tkc_Prefix (cm_Token cfg)),
                tkc_TTLSeconds := or_default 0 (120 * 3600) (tkc_TTLSeconds (cm_Token cfg))\<rparr>,
             cm_Storage := (cm_Storage cfg)
               \<lparr>MaxUploadSize := or_default 0 (2 * 1024 * 1024) (MaxUploadSize (cm_Storage cfg))\<rparr>,
             cm_KDaysUC := (cm_KDaysUC cfg)
               \<lparr>uc_TimeoutSeconds := or_default 0 10 (uc_TimeoutSeconds (cm_KDaysUC cfg))\<rparr>\<rparr>)"

section \<open>Connections by name\<close>

definition zero_MySQL :: MySQL where
  "zero_MySQL =
     \<lparr>my_DSN = [], my_Host = [], my_Port = 0, my_User = [], my_Password = [], my_Database = [], my_DBName = [],
      my_Charset = [], my_MaxOpenConns = 0, my_MaxIdleConns = 0, my_ConnMaxLifetimeSeconds = 0\<rparr>"

definition zero_SQLite :: SQLite where
  "zero_SQLite =
     \<lparr>lt_DSN = [], lt_Path = [], lt_MaxOpenConns = 0, lt_MaxIdleConns = 0, lt_ConnMaxLifetimeSeconds = 0\<rparr>"

definition zero_Common :: Common where
  "zero_Common =
     \<lparr>cm_App = \<lparr>ap_Name = [], ap_Env = [], ap_Debug = False, ap_DataDir = []\<rparr>,
      cm_Server = \<lparr>srv_Addr = [], srv_AllowedOrigins = [], srv_ReadHeaderTimeoutSeconds = 0, srv_ShutdownTimeoutSeconds = 0\<rparr>,
      cm_Database = \<lparr>dbs_Default = [], dbs_Driver = [], dbs_Connections = None\<rparr>,
      cm_MySQL = zero_MySQL, cm_SQLite = zero_SQLite,
      cm_Redis = \<lparr>rd_Addr = [], rd_Username = [], rd_Password = [], rd_DB = 0, rd_Prefix = [], rd_Required = False\<rparr>,
      cm_Cache = \<lparr>cc_DefaultStore = [], cc_Stores = None\<rparr>,
      cm_Log = \<lparr>lg_Level = [], lg_Format = []\<rparr>,
      cm_Token = \<lparr>tkc_Prefix = [], tkc_TTLSeconds = 0\<rparr>,
      cm_Storage = \<lparr>DefaultDisk = [], MaxUploadSize = 0, Disks = []\<rparr>,
      cm_KDaysUC = \<lparr>uc_APIHost = [], uc_PublicHost = [], uc_APIKey = [], uc_Secret = [], uc_AppID = [],
                    uc_TimeoutSeconds = 0, uc_Timeout = 0\<rparr>,
      cm_Features = None\<rparr>"

text \<open>
  \<open>Databases.Connection\<close> applies the defaults to a configuration that holds the databases only.
  Its receiver is a value, but the map is shared: \<open>Connection_caller\<close> is what the caller's
  databases are afterwards.
\<close>

definition with_defaults :: "Databases \<Rightarrow> Databases" where
  "with_defaults cfg = cm_Database (Common_ApplyDefaults (zero_Common\<lparr>cm_Database := cfg\<rparr>))"

definition Databases_Connection :: "Databases \<Rightarrow> string \<Rightarrow> gerr + DatabaseConnection" where
  "Databases_Connection cfg name =
     (let dbs = with_defaults cfg;
          name = (if TrimSpace name = [] then dbs_Default dbs else name)
      in case map_of (the (dbs_Connections dbs)) name of
           None \<Rightarrow> Inl (Errorf ''database connection %q not found'' [name])
         | Some connection \<Rightarrow> Inr connection)"

definition Connection_caller :: "Databases \<Rightarrow> Databases" where
  "Connection_caller cfg =
     (case dbs_Connections cfg of
        None \<Rightarrow> cfg
      | Some _ \<Rightarrow> cfg\<lparr>dbs_Connections := dbs_Connections (with_defaults cfg)\<rparr>)"

definition Databases_DriverName :: "Databases \<Rightarrow> string \<Rightarrow> gerr + string" where
  "Databases_DriverName cfg name =
     (case Databases_Connection cfg name of
        Inl err \<Rightarrow> Inl err
      | Inr connection \<Rightarrow>
          (let driver = ToLower (TrimSpace (dcn_Driver connection));
               driver = (if driver = [] then ''mysql'' else driver)
           in Inr (if driver = ''sqlite3'' then ''sqlite'' else driver)))"

section \<open>Durations, DSNs, paths\<close>

definition ReadHeaderTimeout :: "ServerConfig \<Rightarrow> duration" where
  "ReadHeaderTimeout cfg = seconds (srv_ReadHeaderTimeoutSeconds cfg)"

definition Server_ShutdownTimeout :: "ServerConfig \<Rightarrow> duration" where
  "Server_ShutdownTimeout cfg = seconds (srv_ShutdownTimeoutSeconds cfg)"

definition Token_TTL :: "TokenConfig \<Rightarrow> duration" where
  "Token_TTL cfg = seconds (tkc_TTLSeconds cfg)"

text \<open>\<open>url.QueryEscape\<close>, and \<open>Values.Encode\<close> of one value per key, in the order of the keys.\<close>

definition query_plain :: "char \<Rightarrow> bool" where
  "query_plain c \<longleftrightarrow>
     (let n = of_char c :: nat in
      48 \<le> n \<and> n \<le> 57 \<or> 65 \<le> n \<and> n \<le> 90 \<or> 97 \<le> n \<and> n \<le> 122 \<or>
      c = CHR ''-'' \<or> c = CHR ''_'' \<or> c = CHR ''.'' \<or> c = CHR ''~'')"

definition QueryEscape :: "string \<Rightarrow> string" where
  "QueryEscape s = concat (map (\<lambda>c.
     if query_plain c then [c]
     else if c = CHR '' '' then ''+''
     else [CHR ''%'', upper_char (hex_digit (of_char c div 16)), upper_char (hex_digit (of_char c mod 16))]) s)"

definition Encode :: "(string \<times> string) list \<Rightarrow> string" where
  "Encode params = JoinWith (map (\<lambda>(k, v). QueryEscape k @ ''='' @ QueryEscape v) params) ''&''"

definition MySQL_DSNString :: "MySQL \<Rightarrow> gerr + string" where
  "MySQL_DSNString cfg =
     (if TrimSpace (my_DSN cfg) \<noteq> [] then Inr (my_DSN cfg)
      else
        (let name = or_default [] (my_DBName cfg) (my_Database cfg) in
         if my_Host cfg = [] \<or> my_User cfg = [] \<or> name = []
         then Inl (Errorf ''mysql dsn is required, or host/user/database must be set'' [])
         else
           (let charset = or_default [] ''utf8mb4'' (my_Charset cfg);
                port = or_default 0 3306 (my_Port cfg);
                params = [(''charset'', charset), (''loc'', ''Local''), (''parseTime'', ''true'')]
            in Inr (my_User cfg @ '':'' @ my_Password cfg @ ''@tcp('' @ my_Host cfg @ '':'' @ FormatInt port @ '')/''
                    @ name @ ''?'' @ Encode params))))"

definition SQLite_DSNString :: "SQLite \<Rightarrow> gerr + string" where
  "SQLite_DSNString cfg =
     (if TrimSpace (lt_DSN cfg) \<noteq> [] then Inr (lt_DSN cfg)
      else if TrimSpace (lt_Path cfg) = [] then Inl (Errorf ''sqlite dsn or path is required'' [])
      else Inr (lt_Path cfg))"

definition ResolvePath :: "string \<Rightarrow> string \<Rightarrow> string" where
  "ResolvePath baseDir val =
     (if val = [] \<or> rooted val then val
      else Clean (PathJoin (or_default [] ''.'' baseDir) val))"

section \<open>Single variables\<close>

text \<open>\<open>os.Getenv\<close>: an empty text for a variable that is not set.\<close>

definition Env :: "environ \<Rightarrow> string \<Rightarrow> string" where
  "Env env key = (case env key of None \<Rightarrow> [] | Some v \<Rightarrow> v)"

definition EnvOrDefault :: "environ \<Rightarrow> string \<Rightarrow> string \<Rightarrow> string" where
  "EnvOrDefault env key fallback = or_default [] fallback (Env env key)"

definition EnvIntOrDefault :: "environ \<Rightarrow> string \<Rightarrow> int64 \<Rightarrow> int64" where
  "EnvIntOrDefault env key fallback =
     (let val = Env env key in
      if val = [] then fallback
      else case Convert_Int val of (parsed, err) \<Rightarrow> if err \<noteq> None then fallback else parsed)"

definition EnvBoolOrDefault :: "environ \<Rightarrow> string \<Rightarrow> bool \<Rightarrow> bool" where
  "EnvBoolOrDefault env key fallback =
     (let val = Env env key in
      if val = [] then fallback
      else case Bool val of (parsed, err) \<Rightarrow> if err \<noteq> None then fallback else parsed)"

section \<open>Lemmas\<close>

lemma applyMySQLDefaults_idem [simp]: "applyMySQLDefaults (applyMySQLDefaults cfg) = applyMySQLDefaults cfg"
  by (simp add: applyMySQLDefaults_def)

lemma applySQLiteDefaults_idem [simp]: "applySQLiteDefaults (applySQLiteDefaults cfg) = applySQLiteDefaults cfg"
  by (auto simp: applySQLiteDefaults_def)

lemma connection_defaults_idem [simp]: "connection_defaults (connection_defaults c) = connection_defaults c"
  by (simp add: connection_defaults_def)

lemma Config_ApplyDefaults_idem [simp]: "Config_ApplyDefaults (Config_ApplyDefaults cfg) = Config_ApplyDefaults cfg"
  by (simp add: Config_ApplyDefaults_def Let_def)

text \<open>The connections after the defaults.\<close>

definition connections :: "Databases \<Rightarrow> (string \<times> DatabaseConnection) list" where
  "connections d = (case dbs_Connections d of None \<Rightarrow> [] | Some m \<Rightarrow> m)"

lemma applyDatabaseDefaults_connections:
  "connections (cm_Database (applyDatabaseDefaults cfg)) =
     map (\<lambda>(n, c). (n, connection_defaults c))
       (if connections (cm_Database cfg) = []
        then [(or_default [] ''default'' (dbs_Default (cm_Database cfg)),
               \<lparr>dcn_Driver = or_default [] ''mysql'' (dbs_Driver (cm_Database cfg)),
                dcn_MySQL = cm_MySQL cfg, dcn_SQLite = cm_SQLite cfg\<rparr>)]
        else connections (cm_Database cfg))"
  by (simp add: applyDatabaseDefaults_def connections_def Let_def split: option.split)

lemma applyDatabaseDefaults_fix:
  assumes "dbs_Default (cm_Database cfg) \<noteq> []" and "dbs_Connections (cm_Database cfg) = Some m" and "m \<noteq> []"
    and "\<forall>(n, c) \<in> set m. connection_defaults c = c"
  shows "applyDatabaseDefaults cfg = cfg"
proof -
  have "map (\<lambda>(n, c). (n, connection_defaults c)) m = m"
    using assms(4) by (intro map_idI) auto
  with assms(1-3) show ?thesis
    by (simp add: applyDatabaseDefaults_def or_default_def)
qed

lemma applyDatabaseDefaults_shape:
  "dbs_Default (cm_Database (applyDatabaseDefaults cfg)) = or_default [] ''default'' (dbs_Default (cm_Database cfg))"
  "\<exists>m. dbs_Connections (cm_Database (applyDatabaseDefaults cfg)) = Some m \<and> m \<noteq> [] \<and>
     (\<forall>(n, c) \<in> set m. connection_defaults c = c)"
  by (auto simp: applyDatabaseDefaults_def Let_def)

text \<open>\<open>ApplyDefaults\<close> does nothing more to the databases.\<close>

lemma defaults_database:
  "cm_Database (Common_ApplyDefaults cfg) = cm_Database (applyDatabaseDefaults cfg)"
  by (simp add: Common_ApplyDefaults_def applyDatabaseDefaults_def Let_def)

lemma defaults_idem: "Common_ApplyDefaults (Common_ApplyDefaults cfg) = Common_ApplyDefaults cfg"
proof -
  let ?c = "Common_ApplyDefaults cfg"
  obtain m where m: "dbs_Connections (cm_Database ?c) = Some m" "m \<noteq> []" "\<forall>(n, c) \<in> set m. connection_defaults c = c"
    using applyDatabaseDefaults_shape(2) [of cfg] by (auto simp: defaults_database)
  have d: "dbs_Default (cm_Database ?c) \<noteq> []"
    by (simp add: defaults_database applyDatabaseDefaults_shape or_default_not)
  have db: "applyDatabaseDefaults (?c\<lparr>cm_App := a, cm_Server := s\<rparr>) = ?c\<lparr>cm_App := a, cm_Server := s\<rparr>" for a s
    by (rule applyDatabaseDefaults_fix) (use d m in auto)
  show ?thesis
    by (subst Common_ApplyDefaults_def)
      (simp add: Let_def db, simp add: Common_ApplyDefaults_def applyDatabaseDefaults_def Let_def)
qed

lemma with_defaults_finished:
  "with_defaults (cm_Database (Common_ApplyDefaults cfg)) = cm_Database (Common_ApplyDefaults cfg)"
proof -
  let ?d = "cm_Database (Common_ApplyDefaults cfg)"
  obtain m where "dbs_Connections ?d = Some m" "m \<noteq> []" "\<forall>(n, c) \<in> set m. connection_defaults c = c"
    using applyDatabaseDefaults_shape(2) [of cfg] by (auto simp: defaults_database)
  moreover have "dbs_Default ?d \<noteq> []"
    by (simp add: defaults_database applyDatabaseDefaults_shape or_default_not)
  ultimately have "applyDatabaseDefaults (zero_Common\<lparr>cm_Database := ?d\<rparr>) = zero_Common\<lparr>cm_Database := ?d\<rparr>"
    by (intro applyDatabaseDefaults_fix) auto
  then show ?thesis by (simp add: with_defaults_def defaults_database)
qed

lemma TrimSpace_app_db: "TrimSpace ''./data/app.db'' = ''./data/app.db''"
  by (simp add: TrimSpace_graphic graphic_def)

section \<open>Properties\<close>

text \<open>
  The defaults can be applied any number of times: a second \<open>ApplyDefaults\<close> changes nothing,
  and neither does \<open>Connection\<close> on a configuration with its defaults, which then looks the name up
  as it stands (the default connection for a blank name) and leaves the caller's map as it was.
\<close>

theorem defaults_idempotent:
  "Common_ApplyDefaults (Common_ApplyDefaults cfg) = Common_ApplyDefaults cfg \<and>
   (let d = cm_Database (Common_ApplyDefaults cfg) in
      Connection_caller d = d \<and> connections d \<noteq> [] \<and>
      Databases_Connection d name =
        (case map_of (connections d) (if TrimSpace name = [] then dbs_Default d else name) of
           None \<Rightarrow> Inl (Errorf ''database connection %q not found'' [if TrimSpace name = [] then dbs_Default d else name])
         | Some connection \<Rightarrow> Inr connection))"
proof -
  let ?d = "cm_Database (Common_ApplyDefaults cfg)"
  obtain m where m: "dbs_Connections ?d = Some m" "m \<noteq> []"
    using applyDatabaseDefaults_shape(2) [of cfg] by (auto simp: defaults_database)
  then have "Connection_caller ?d = ?d"
    by (simp add: Connection_caller_def with_defaults_finished)
  moreover have "connections ?d = m" using m by (simp add: connections_def)
  ultimately show ?thesis
    using m defaults_idem unfolding Databases_Connection_def with_defaults_finished Let_def by simp
qed

text \<open>
  With its defaults, a SQLite connection lacks a DSN only when a text of blanks stands where the
  DSN or the path should be: the defaults test for the empty text, \<open>DSNString\<close> for a blank one.
\<close>

theorem sqlite_defaults_give_dsn:
  "(\<exists>err. SQLite_DSNString (applySQLiteDefaults cfg) = Inl err) \<longleftrightarrow>
     TrimSpace (lt_DSN cfg) = [] \<and> TrimSpace (lt_Path cfg) = [] \<and> (lt_DSN cfg \<noteq> [] \<or> lt_Path cfg \<noteq> [])"
  by (auto simp: SQLite_DSNString_def applySQLiteDefaults_def TrimSpace_app_db)

end
