(* ===== verification/Database.thy ===== *)
theory Database
  imports Config_Common "HOL-Library.Multiset"
begin

text \<open>
  The database connections: \<open>database/\<close> (MySQL, SQLite with and without its build tag, the
  manager of the named connections) and what \<open>gormdb/\<close> shares with it. The drivers behind
  \<open>database/sql\<close> are a parameter: the errors of opening, pinging and closing. Every operation
  returns the calls it made. The locale \<open>opener\<close> states what a manager relies on; its lemmas show
  that nothing is left open after a failure.
\<close>

section \<open>Handles and calls\<close>

text \<open>A \<open>*sql.DB\<close> with its settings; the calls on it, and the directories made.\<close>

record sqldb =
  sd_driver :: string
  sd_dsn :: string
  sd_MaxOpen :: int64
  sd_MaxIdle :: int64
  sd_Lifetime :: duration

datatype db_call = CMkdir string | COpen sqldb | CPing sqldb | CClose sqldb

record sql_world =
  sw_Open :: "string \<Rightarrow> string \<Rightarrow> gerr option"
  sw_Ping :: "sqldb \<Rightarrow> gerr option"
  sw_Close :: "sqldb \<Rightarrow> gerr option"
  sw_Mkdir :: "string \<Rightarrow> gerr option"

text \<open>\<open>filepath.Dir\<close>.\<close>

definition path_Dir :: "string \<Rightarrow> string" where
  "path_Dir p = Clean (rev (dropWhile (\<lambda>c. c \<noteq> CHR ''/'') (rev p)))"

section \<open>Opening\<close>

text \<open>The settings and the ping, which both drivers share; \<open>what\<close> is the text of a ping error.\<close>

definition open_sql ::
  "sql_world \<Rightarrow> string \<Rightarrow> string \<Rightarrow> int64 \<Rightarrow> int64 \<Rightarrow> int64 \<Rightarrow> (gerr + sqldb) \<times> db_call list" where
  "open_sql W driver dsn maxOpen maxIdle lifetimeSeconds =
     (case sw_Open W driver dsn of
        Some err \<Rightarrow> (Inl (Wrapf (''open '' @ driver @ '': %w'') err []), [])
      | None \<Rightarrow>
          (let lifetime = seconds lifetimeSeconds;
               lifetime = (if sint lifetime \<le> 0 then seconds (5 * 60) else lifetime);
               db = \<lparr>sd_driver = driver, sd_dsn = dsn, sd_MaxOpen = maxOpen, sd_MaxIdle = maxIdle, sd_Lifetime = lifetime\<rparr>
           in (case sw_Ping W db of
                 Some err \<Rightarrow> (Inl (Wrapf (''ping '' @ driver @ '': %w'') err []), [COpen db, CPing db, CClose db])
               | None \<Rightarrow> (Inr db, [COpen db, CPing db]))))"

definition OpenMySQL :: "sql_world \<Rightarrow> MySQL \<Rightarrow> (gerr + sqldb) \<times> db_call list" where
  "OpenMySQL W cfg =
     (case MySQL_DSNString cfg of
        Inl err \<Rightarrow> (Inl err, [])
      | Inr dsn \<Rightarrow>
          open_sql W ''mysql'' dsn (or_default 0 25 (my_MaxOpenConns cfg)) (or_default 0 10 (my_MaxIdleConns cfg))
            (my_ConnMaxLifetimeSeconds cfg))"

definition isInMemorySQLitePath :: "string \<Rightarrow> bool" where
  "isInMemorySQLitePath path =
     (let path = TrimSpace path in path = '':memory:'' \<or> HasPrefix path ''file::memory:'')"

definition OpenSQLite :: "sql_world \<Rightarrow> SQLite \<Rightarrow> (gerr + sqldb) \<times> db_call list" where
  "OpenSQLite W cfg =
     (case SQLite_DSNString cfg of
        Inl err \<Rightarrow> (Inl err, [])
      | Inr dsn \<Rightarrow>
          (let dir = path_Dir (lt_Path cfg);
               mkdir = (lt_DSN cfg = [] \<and> lt_Path cfg \<noteq> [] \<and> \<not> isInMemorySQLitePath (lt_Path cfg));
               calls = (if mkdir then [CMkdir dir] else [])
           in if mkdir \<and> sw_Mkdir W dir \<noteq> None
              then (Inl (Wrapf ''create sqlite directory: %w'' (the (sw_Mkdir W dir)) []), calls)
              else (case open_sql W ''sqlite'' dsn (or_default 0 1 (lt_MaxOpenConns cfg))
                           (or_default 0 1 (lt_MaxIdleConns cfg)) (lt_ConnMaxLifetimeSeconds cfg) of
                      (r, calls') \<Rightarrow> (r, calls @ calls'))))"

text \<open>The build without the tag \<open>sqlite\<close>.\<close>

definition sqlite_disabled :: gerr where
  "sqlite_disabled = Errorf ''sqlite support is disabled; rebuild with -tags sqlite'' []"

definition OpenSQLite_disabled :: "SQLite \<Rightarrow> (gerr + sqldb) \<times> db_call list" where
  "OpenSQLite_disabled cfg = (Inl sqlite_disabled, [])"

text \<open>\<open>Open\<close>; \<open>tag\<close> says which of the two builds it is.\<close>

definition DB_Open :: "bool \<Rightarrow> sql_world \<Rightarrow> DatabaseConnection \<Rightarrow> (gerr + sqldb) \<times> db_call list" where
  "DB_Open tag W cfg =
     (let driver = ToLower (TrimSpace (dcn_Driver cfg)) in
      if driver = [] \<or> driver = ''mysql'' then OpenMySQL W (dcn_MySQL cfg)
      else if driver = ''sqlite'' \<or> driver = ''sqlite3''
      then (if tag then OpenSQLite W (dcn_SQLite cfg) else OpenSQLite_disabled (dcn_SQLite cfg))
      else (Inl (Errorf ''unsupported database driver %q'' [dcn_Driver cfg]), []))"

section \<open>Managers\<close>

text \<open>
  \<open>database.Manager\<close> and \<open>gormdb.Manager\<close> are the same code over two kinds of handles. The loops
  go over the maps in the order of their lists.
\<close>

record 'h db_manager =
  mg_default :: string
  mg_dbs :: "(string \<times> 'h) list"

fun open_conns ::
  "(string \<Rightarrow> DatabaseConnection \<Rightarrow> (gerr + 'h) \<times> db_call list) \<Rightarrow> (string \<times> DatabaseConnection) list \<Rightarrow>
   (string \<times> 'h) list \<Rightarrow> (string \<times> gerr) option \<times> (string \<times> 'h) list \<times> db_call list" where
  "open_conns op [] dbs = (None, dbs, [])"
| "open_conns op ((name, connection) # rest) dbs =
     (case op name connection of
        (Inl err, calls) \<Rightarrow> (Some (name, err), dbs, calls)
      | (Inr db, calls) \<Rightarrow>
          (case open_conns op rest (dbs @ [(name, db)]) of (r, dbs, calls') \<Rightarrow> (r, dbs, calls @ calls')))"

fun close_conns ::
  "('h \<Rightarrow> gerr option \<times> db_call list) \<Rightarrow> (string \<times> 'h) list \<Rightarrow> gerr option \<Rightarrow> gerr option \<times> db_call list" where
  "close_conns cl [] result = (result, [])"
| "close_conns cl ((name, db) # rest) result =
     (case cl db of (err, calls) \<Rightarrow>
      (case close_conns cl rest (errors_Join [result, err]) of (result, calls') \<Rightarrow> (result, calls @ calls')))"

definition open_manager ::
  "(string \<Rightarrow> DatabaseConnection \<Rightarrow> (gerr + 'h) \<times> db_call list) \<Rightarrow> ('h \<Rightarrow> gerr option \<times> db_call list) \<Rightarrow>
   string \<Rightarrow> string \<Rightarrow> sentinel \<Rightarrow> Databases \<Rightarrow> (gerr + 'h db_manager) \<times> db_call list" where
  "open_manager op cl failed nothing notFound cfg =
     (let dflt = or_default [] ''default'' (dbs_Default cfg) in
      case open_conns op (connections cfg) [] of
        (Some (name, err), dbs, calls) \<Rightarrow> (Inl (Wrapf failed err [name]), calls @ snd (close_conns cl dbs None))
      | (None, dbs, calls) \<Rightarrow>
          if dbs = [] then (Inl (Errorf nothing []), calls)
          else if map_of dbs dflt = None
          then (Inl (Wrapf ''%w: %s'' (Sentinel notFound) [dflt]), calls @ snd (close_conns cl dbs None))
          else (Inr \<lparr>mg_default = dflt, mg_dbs = dbs\<rparr>, calls))"

definition manager_Default :: "'h db_manager option \<Rightarrow> 'h option" where
  "manager_Default mg = (case mg of None \<Rightarrow> None | Some m \<Rightarrow> map_of (mg_dbs m) (mg_default m))"

definition manager_DB :: "sentinel \<Rightarrow> 'h db_manager option \<Rightarrow> string \<Rightarrow> gerr + 'h" where
  "manager_DB notFound mg name =
     (case mg of
        None \<Rightarrow> Inl (Sentinel notFound)
      | Some m \<Rightarrow>
          (let name = (if name = [] then mg_default m else name) in
           case map_of (mg_dbs m) name of
             None \<Rightarrow> Inl (Wrapf ''%w: %s'' (Sentinel notFound) [name])
           | Some db \<Rightarrow> Inr db))"

definition manager_MustDB :: "sentinel \<Rightarrow> 'h db_manager option \<Rightarrow> string \<Rightarrow> 'h outcome" where
  "manager_MustDB notFound mg name =
     (case manager_DB notFound mg name of Inl err \<Rightarrow> Panic err | Inr db \<Rightarrow> Return db)"

definition manager_Names :: "'h db_manager option \<Rightarrow> string list" where
  "manager_Names mg = (case mg of None \<Rightarrow> [] | Some m \<Rightarrow> map fst (mg_dbs m))"

definition manager_Close ::
  "('h \<Rightarrow> gerr option \<times> db_call list) \<Rightarrow> 'h db_manager option \<Rightarrow> gerr option \<times> db_call list" where
  "manager_Close cl mg = (case mg of None \<Rightarrow> (None, []) | Some m \<Rightarrow> close_conns cl (mg_dbs m) None)"

text \<open>The manager of \<open>database/\<close>; each connection has a world of its own.\<close>

definition sql_close :: "(sqldb \<Rightarrow> gerr option) \<Rightarrow> sqldb \<Rightarrow> gerr option \<times> db_call list" where
  "sql_close shut db = (shut db, [CClose db])"

definition DB_OpenManager ::
  "bool \<Rightarrow> (string \<Rightarrow> sql_world) \<Rightarrow> (sqldb \<Rightarrow> gerr option) \<Rightarrow> Databases \<Rightarrow> (gerr + sqldb db_manager) \<times> db_call list" where
  "DB_OpenManager tag W shut cfg =
     open_manager (\<lambda>name. DB_Open tag (W name)) (sql_close shut)
       ''open database %s: %w'' ''no database connections configured'' ErrDBNotFound cfg"

section \<open>What a manager relies on\<close>

text \<open>The handles opened and closed by a list of calls.\<close>

definition opened :: "db_call list \<Rightarrow> sqldb multiset" where
  "opened calls = mset (List.map_filter (\<lambda>c. case c of COpen db \<Rightarrow> Some db | _ \<Rightarrow> None) calls)"

definition closed :: "db_call list \<Rightarrow> sqldb multiset" where
  "closed calls = mset (List.map_filter (\<lambda>c. case c of CClose db \<Rightarrow> Some db | _ \<Rightarrow> None) calls)"

lemma opened_simps [simp]:
  "opened [] = {#}" "opened (COpen db # calls) = add_mset db (opened calls)" "opened (CClose db # calls) = opened calls"
  "opened (CPing db # calls) = opened calls" "opened (CMkdir d # calls) = opened calls"
  by (simp_all add: opened_def)

lemma closed_simps [simp]:
  "closed [] = {#}" "closed (CClose db # calls) = add_mset db (closed calls)" "closed (COpen db # calls) = closed calls"
  "closed (CPing db # calls) = closed calls" "closed (CMkdir d # calls) = closed calls"
  by (simp_all add: closed_def)

lemma opened_append [simp]: "opened (xs @ ys) = opened xs + opened ys"
  by (induction xs) (simp_all add: opened_def split: option.split)

lemma closed_append [simp]: "closed (xs @ ys) = closed xs + closed ys"
  by (induction xs) (simp_all add: closed_def split: option.split)

text \<open>
  The contract of a kind of handle: a failed opening has closed what it opened, a successful one
  leaves exactly the handle's own connection open, and closing closes that.
\<close>

locale opener =
  fixes op :: "string \<Rightarrow> DatabaseConnection \<Rightarrow> (gerr + 'h) \<times> db_call list"
    and cl :: "'h \<Rightarrow> gerr option \<times> db_call list"
    and base :: "'h \<Rightarrow> sqldb"
  assumes open_fails: "op name c = (Inl err, calls) \<Longrightarrow> opened calls = closed calls"
    and open_succeeds: "op name c = (Inr h, calls) \<Longrightarrow> opened calls = add_mset (base h) (closed calls)"
    and close_opens: "opened (snd (cl h)) = {#}"
    and close_closes: "closed (snd (cl h)) = {#base h#}"
begin

lemma close_conns_calls:
  "opened (snd (close_conns cl dbs r)) = {#} \<and> closed (snd (close_conns cl dbs r)) = image_mset (base \<circ> snd) (mset dbs)"
proof (induction dbs arbitrary: r)
  case (Cons x dbs)
  obtain name h where x: "x = (name, h)" by (cases x)
  obtain err calls where h: "cl h = (err, calls)" by (cases "cl h")
  with close_opens [of h] close_closes [of h] Cons.IH [of "errors_Join [r, err]"] show ?case
    by (simp add: x case_prod_beta)
qed simp

lemma open_conns_calls:
  "open_conns op cfgs dbs = (r, dbs', calls) \<Longrightarrow>
   opened calls + image_mset (base \<circ> snd) (mset dbs) = closed calls + image_mset (base \<circ> snd) (mset dbs')"
proof (induction cfgs arbitrary: dbs r dbs' calls)
  case (Cons x cfgs)
  obtain name c where x: "x = (name, c)" by (cases x)
  obtain res first where o: "op name c = (res, first)" by (cases "op name c")
  show ?case
  proof (cases res)
    case (Inl err)
    with Cons.prems x o open_fails [of name c err first] show ?thesis by simp
  next
    case (Inr h)
    with Cons.prems x o obtain more where
      more: "open_conns op cfgs (dbs @ [(name, h)]) = (r, dbs', more)" "calls = first @ more"
      by (auto split: prod.splits)
    have "opened first = add_mset (base h) (closed first)" using open_succeeds o Inr by blast
    with Cons.IH [OF more(1)] more(2) show ?thesis by simp
  qed
qed simp

lemma open_conns_names:
  "open_conns op cfgs dbs = (None, dbs', calls) \<Longrightarrow> map fst dbs' = map fst dbs @ map fst cfgs"
  by (induction cfgs arbitrary: dbs calls) (force split: prod.splits sum.splits)+

text \<open>A manager that cannot be opened leaves no connection open.\<close>

lemma manager_fails:
  assumes "open_manager op cl failed nothing notFound cfg = (Inl err, calls)"
  shows "opened calls = closed calls"
proof -
  obtain r dbs first where o: "open_conns op (connections cfg) [] = (r, dbs, first)"
    by (cases "open_conns op (connections cfg) []")
  from open_conns_calls [OF o] have "opened first = closed first + image_mset (base \<circ> snd) (mset dbs)" by simp
  moreover have "calls = first @ snd (close_conns cl dbs None) \<or> dbs = [] \<and> calls = first"
    using assms o by (auto simp: open_manager_def Let_def split: option.splits if_splits)
  ultimately show ?thesis
    using close_conns_calls [of dbs None] by auto
qed

text \<open>
  A manager that opens has one connection for each name, the default one among them, and nothing
  else is open; closing it closes them all.
\<close>

lemma manager_succeeds:
  assumes "open_manager op cl failed nothing notFound cfg = (Inr m, calls)"
  shows "map fst (mg_dbs m) = map fst (connections cfg) \<and> manager_Default (Some m) \<noteq> None \<and>
    opened calls = closed calls + image_mset (base \<circ> snd) (mset (mg_dbs m)) \<and>
    opened (calls @ snd (manager_Close cl (Some m))) = closed (calls @ snd (manager_Close cl (Some m)))"
proof -
  obtain r dbs first where o: "open_conns op (connections cfg) [] = (r, dbs, first)"
    by (cases "open_conns op (connections cfg) []")
  with assms have m: "r = None" "mg_dbs m = dbs" "calls = first" "map_of dbs (mg_default m) \<noteq> None"
    by (auto simp: open_manager_def Let_def split: option.splits if_splits)
  moreover from o m(1) have "map fst dbs = map fst (connections cfg)" using open_conns_names by fastforce
  moreover from open_conns_calls [OF o] have "opened first = closed first + image_mset (base \<circ> snd) (mset dbs)" by simp
  ultimately show ?thesis
    using close_conns_calls [of dbs None] by (simp add: manager_Default_def manager_Close_def)
qed

end

section \<open>The database connections keep the contract\<close>

lemma open_sql_calls:
  "open_sql W driver dsn a b c = (Inl err, calls) \<Longrightarrow> opened calls = closed calls"
  "open_sql W driver dsn a b c = (Inr db, calls) \<Longrightarrow> opened calls = add_mset db (closed calls)"
  by (auto simp: open_sql_def Let_def split: option.splits)

lemma OpenMySQL_calls:
  "OpenMySQL W cfg = (Inl err, calls) \<Longrightarrow> opened calls = closed calls"
  "OpenMySQL W cfg = (Inr db, calls) \<Longrightarrow> opened calls = add_mset db (closed calls)"
  by (auto simp: OpenMySQL_def dest: open_sql_calls split: sum.splits)

lemma OpenSQLite_calls:
  "OpenSQLite W cfg = (Inl err, calls) \<Longrightarrow> opened calls = closed calls"
  "OpenSQLite W cfg = (Inr db, calls) \<Longrightarrow> opened calls = add_mset db (closed calls)"
  by (auto simp: OpenSQLite_def Let_def dest: open_sql_calls split: sum.splits prod.splits if_splits)

lemma DB_Open_calls:
  "DB_Open tag W cfg = (Inl err, calls) \<Longrightarrow> opened calls = closed calls"
  "DB_Open tag W cfg = (Inr db, calls) \<Longrightarrow> opened calls = add_mset db (closed calls)"
  by (auto simp: DB_Open_def OpenSQLite_disabled_def Let_def dest: OpenMySQL_calls OpenSQLite_calls split: if_splits)

interpretation sql_opener: opener "\<lambda>name. DB_Open tag (W name)" "sql_close shut" "\<lambda>db. db"
  by unfold_locales (simp_all add: DB_Open_calls sql_close_def)

section \<open>Properties\<close>

text \<open>
  C17: Opening the database manager leaks nothing. When it fails, because one connection cannot be
  opened or pinged, or because the default is missing, every connection opened on the way is
  closed.
\<close>

theorem failed_manager_closes_all:
  assumes "DB_OpenManager tag W shut cfg = (Inl err, calls)"
  shows "opened calls = closed calls"
  using sql_opener.manager_fails assms unfolding DB_OpenManager_def by blast

text \<open>
  A database manager that opens has one connection for each configured name, the default one
  among them, and no other connection is open; \<open>Close\<close> then closes each of them once.
\<close>

theorem opened_manager_is_complete:
  assumes "DB_OpenManager tag W shut cfg = (Inr m, calls)"
  shows "map fst (mg_dbs m) = map fst (connections cfg) \<and> manager_Default (Some m) \<noteq> None \<and>
    opened calls = closed calls + image_mset snd (mset (mg_dbs m)) \<and>
    opened (calls @ snd (manager_Close (sql_close shut) (Some m)))
      = closed (calls @ snd (manager_Close (sql_close shut) (Some m)))"
  by (rule sql_opener.manager_succeeds [OF assms [unfolded DB_OpenManager_def], unfolded o_def])

definition demo_sql :: "string \<Rightarrow> sql_world" where
  "demo_sql name =
     \<lparr>sw_Open = (\<lambda>_ _. None), sw_Ping = (\<lambda>_. if name = ''b'' then Some (Sentinel ErrEOF) else None),
      sw_Close = (\<lambda>_. None), sw_Mkdir = (\<lambda>_. None)\<rparr>"

definition demo_connection :: DatabaseConnection where
  "demo_connection = \<lparr>dcn_Driver = ''mysql'', dcn_MySQL = zero_MySQL\<lparr>my_DSN := ''dsn''\<rparr>, dcn_SQLite = zero_SQLite\<rparr>"

definition demo_databases :: "string list \<Rightarrow> Databases" where
  "demo_databases names =
     \<lparr>dbs_Default = ''a'', dbs_Driver = [], dbs_Connections = Some (map (\<lambda>n. (n, demo_connection)) names)\<rparr>"

lemmas demo_run_eqs [run_eqs] = DB_OpenManager_def open_manager_def demo_databases_def connections_def or_default_def

lemma demo_open:
  "\<exists>db calls. DB_Open True (demo_sql ''a'') demo_connection = (Inr db, calls)"
  "\<exists>err calls. DB_Open True (demo_sql ''b'') demo_connection = (Inl err, calls)"
proof -
  have t: "TrimSpace ''mysql'' = ''mysql''" "TrimSpace ''dsn'' = ''dsn''"
    by (simp_all add: TrimSpace_graphic graphic_def)
  show "\<exists>db calls. DB_Open True (demo_sql ''a'') demo_connection = (Inr db, calls)"
    "\<exists>err calls. DB_Open True (demo_sql ''b'') demo_connection = (Inl err, calls)"
    by (simp_all add: DB_Open_def demo_connection_def t lower_char_def OpenMySQL_def MySQL_DSNString_def
        open_sql_def demo_sql_def Let_def)
qed

theorem opened_manager_is_complete_witness:
  "\<exists>m calls. DB_OpenManager True demo_sql (\<lambda>_. None) (demo_databases [''a'']) = (Inr m, calls) \<and>
     manager_Default (Some m) \<noteq> None"
proof -
  obtain db c where db: "DB_Open True (demo_sql ''a'') demo_connection = (Inr db, c)" using demo_open by blast
  have "\<exists>m calls. DB_OpenManager True demo_sql (\<lambda>_. None) (demo_databases [''a'']) = (Inr m, calls)"
    by (simp add: run_eqs db Let_def)
  then obtain m calls where m: "DB_OpenManager True demo_sql (\<lambda>_. None) (demo_databases [''a'']) = (Inr m, calls)" by blast
  from opened_manager_is_complete [OF m] m show ?thesis by blast
qed

theorem failed_manager_closes_all_witness:
  "\<exists>err calls. DB_OpenManager True demo_sql (\<lambda>_. None) (demo_databases [''a'', ''b'']) = (Inl err, calls) \<and>
     opened calls = closed calls"
proof -
  obtain db c where db: "DB_Open True (demo_sql ''a'') demo_connection = (Inr db, c)" using demo_open by blast
  obtain e c' where e: "DB_Open True (demo_sql ''b'') demo_connection = (Inl e, c')" using demo_open by blast
  have "\<exists>err calls. DB_OpenManager True demo_sql (\<lambda>_. None) (demo_databases [''a'', ''b'']) = (Inl err, calls)"
    by (simp add: run_eqs db e Let_def)
  then obtain err calls where m: "DB_OpenManager True demo_sql (\<lambda>_. None) (demo_databases [''a'', ''b'']) = (Inl err, calls)" by blast
  from failed_manager_closes_all [OF m] m show ?thesis by blast
qed

text \<open>
  \<open>DriverName\<close> and \<open>Open\<close> agree on what a connection is: the connection of a name whose driver
  is reported as \<open>mysql\<close> is opened as MySQL, one reported as \<open>sqlite\<close> is opened as SQLite (or
  refused by the build without it), and any other is refused as unsupported.
\<close>

theorem driver_name_agrees_with_open:
  assumes "Databases_DriverName cfg name = Inr driver" and "Databases_Connection cfg name = Inr c"
  shows "DB_Open tag W c =
    (if driver = ''mysql'' then OpenMySQL W (dcn_MySQL c)
     else if driver = ''sqlite'' then (if tag then OpenSQLite W (dcn_SQLite c) else (Inl sqlite_disabled, []))
     else (Inl (Errorf ''unsupported database driver %q'' [dcn_Driver c]), []))"
  using assms
  by (auto simp: Databases_DriverName_def DB_Open_def OpenSQLite_disabled_def Let_def split: if_splits)

theorem driver_name_agrees_with_open_witness:
  "DB_Open False (demo_sql ''a'') (connection_defaults (demo_connection\<lparr>dcn_Driver := ''sqlite3''\<rparr>)) = (Inl sqlite_disabled, [])"
proof -
  let ?c = "demo_connection\<lparr>dcn_Driver := ''sqlite3''\<rparr>"
  let ?d = "\<lparr>dbs_Default = ''a'', dbs_Driver = [], dbs_Connections = Some [(''a'', ?c)]\<rparr>"
  have t: "TrimSpace ''sqlite3'' = ''sqlite3''" "TrimSpace ''a'' = ''a''"
    by (simp_all add: TrimSpace_graphic graphic_def)
  have c: "Databases_Connection ?d ''a'' = Inr (connection_defaults ?c)"
    by (simp add: Databases_Connection_def with_defaults_def defaults_database applyDatabaseDefaults_def t Let_def)
  then have "Databases_DriverName ?d ''a'' = Inr ''sqlite''"
    by (simp add: Databases_DriverName_def connection_defaults_def or_default_def t lower_char_def Let_def)
  from driver_name_agrees_with_open [OF this c, of False "demo_sql ''a''"] show ?thesis by simp
qed

end
