(* ===== verification/Gormdb.thy ===== *)
theory Gormdb
  imports Database
begin

text \<open>
  The GORM connections of \<open>gormdb/\<close>: opening over a connection of \<open>database/\<close>, the options and the
  configuration built from them, the logger that hides missing records, and the manager, which
  is the code of \<open>database.Manager\<close> over other handles. GORM is a parameter: the errors of
  \<open>gorm.Open\<close> and of \<open>DB()\<close>.
\<close>

section \<open>Options and logger\<close>

text \<open>A logger: one of the application, GORM's default, or one wrapped to hide missing records.\<close>

datatype glogger = AppLogger nat | DefaultLogger | suppressNotFoundLogger glogger

text \<open>\<open>Trace\<close>: the logger that writes the trace of an operation with this error, if one does.\<close>

fun Trace :: "glogger \<Rightarrow> gerr option \<Rightarrow> glogger option" where
  "Trace (suppressNotFoundLogger l) err =
     (if (case err of None \<Rightarrow> False | Some e \<Rightarrow> errors_Is e ErrRecordNotFound) then None else Trace l err)"
| "Trace l err = Some l"

text \<open>A \<open>gorm.Config\<close>: its logger, and the rest of its settings.\<close>

record gorm_config =
  gc_Logger :: "glogger option"
  gc_rest :: nat

record GormOptions =
  go_Config :: "gorm_config option"
  go_Logger :: "glogger option"
  go_SuppressRecordNotFound :: bool

type_synonym gorm_option = "GormOptions \<Rightarrow> GormOptions"

definition WithConfig :: "gorm_config option \<Rightarrow> gorm_option" where
  "WithConfig cfg options = options\<lparr>go_Config := cfg\<rparr>"

definition WithLogger :: "glogger option \<Rightarrow> gorm_option" where
  "WithLogger l options = options\<lparr>go_Logger := l\<rparr>"

definition WithSuppressRecordNotFound :: "bool \<Rightarrow> gorm_option" where
  "WithSuppressRecordNotFound enabled options = options\<lparr>go_SuppressRecordNotFound := enabled\<rparr>"

definition gorm_options :: "gorm_option list \<Rightarrow> GormOptions" where
  "gorm_options opts =
     foldl (\<lambda>options opt. opt options) \<lparr>go_Config = None, go_Logger = None, go_SuppressRecordNotFound = False\<rparr> opts"

definition buildConfig :: "gorm_option list \<Rightarrow> gorm_config" where
  "buildConfig opts =
     (let options = gorm_options opts;
          cfg = (case go_Config options of None \<Rightarrow> \<lparr>gc_Logger = None, gc_rest = 0\<rparr> | Some c \<Rightarrow> c);
          cfg = (if go_Logger options \<noteq> None then cfg\<lparr>gc_Logger := go_Logger options\<rparr> else cfg)
      in if go_SuppressRecordNotFound options
         then (let cfg = (if gc_Logger cfg = None then cfg\<lparr>gc_Logger := Some DefaultLogger\<rparr> else cfg)
               in cfg\<lparr>gc_Logger := map_option suppressNotFoundLogger (gc_Logger cfg)\<rparr>)
         else cfg)"

section \<open>Opening\<close>

record gormdb =
  gd_sql :: sqldb
  gd_config :: gorm_config

record gorm_world =
  gw_Open :: "sqldb \<Rightarrow> gorm_config \<Rightarrow> gerr option"
  gw_DB :: "gormdb \<Rightarrow> gerr option"

definition normalizedDriver :: "string \<Rightarrow> string" where
  "normalizedDriver driver =
     (let driver = ToLower (TrimSpace driver) in if driver = ''sqlite3'' then ''sqlite'' else driver)"

text \<open>\<open>sqliteDialector\<close> of the build with the tag \<open>sqlite\<close> and of the one without.\<close>

definition sqliteDialector_disabled :: "sqldb \<Rightarrow> gerr option" where
  "sqliteDialector_disabled db = Some sqlite_disabled"

definition sqliteDialector :: "bool \<Rightarrow> sqldb \<Rightarrow> gerr option" where
  "sqliteDialector tag db = (if tag then None else sqliteDialector_disabled db)"

definition OpenSQL :: "bool \<Rightarrow> gorm_world \<Rightarrow> string \<Rightarrow> sqldb option \<Rightarrow> gorm_option list \<Rightarrow> gerr + gormdb" where
  "OpenSQL tag G driver sqlDB opts =
     (case sqlDB of
        None \<Rightarrow> Inl (Errorf ''sql db is nil'' [])
      | Some db \<Rightarrow>
          (let d = normalizedDriver driver;
               dialector = (if d = [] \<or> d = ''mysql'' then None
                            else if d = ''sqlite'' then sqliteDialector tag db
                            else Some (Errorf ''unsupported gorm database driver %q'' [driver]))
           in case dialector of
                Some err \<Rightarrow> Inl err
              | None \<Rightarrow>
                  (case gw_Open G db (buildConfig opts) of
                     Some err \<Rightarrow> Inl err
                   | None \<Rightarrow> Inr \<lparr>gd_sql = db, gd_config = buildConfig opts\<rparr>)))"

text \<open>A connection of \<open>database/\<close> wrapped, and closed again when that fails.\<close>

definition wrap_sql ::
  "bool \<Rightarrow> gorm_world \<Rightarrow> string \<Rightarrow> gorm_option list \<Rightarrow> (gerr + sqldb) \<times> db_call list \<Rightarrow> (gerr + gormdb) \<times> db_call list" where
  "wrap_sql tag G driver opts r =
     (case r of
        (Inl err, calls) \<Rightarrow> (Inl err, calls)
      | (Inr sqlDB, calls) \<Rightarrow>
          (case OpenSQL tag G driver (Some sqlDB) opts of
             Inl err \<Rightarrow> (Inl err, calls @ [CClose sqlDB])
           | Inr db \<Rightarrow> (Inr db, calls)))"

definition Gorm_OpenMySQL ::
  "bool \<Rightarrow> sql_world \<Rightarrow> gorm_world \<Rightarrow> MySQL \<Rightarrow> gorm_option list \<Rightarrow> (gerr + gormdb) \<times> db_call list" where
  "Gorm_OpenMySQL tag W G cfg opts = wrap_sql tag G ''mysql'' opts (OpenMySQL W cfg)"

definition Gorm_OpenSQLite_disabled :: "SQLite \<Rightarrow> gorm_option list \<Rightarrow> (gerr + gormdb) \<times> db_call list" where
  "Gorm_OpenSQLite_disabled cfg opts = (Inl sqlite_disabled, [])"

definition Gorm_OpenSQLite ::
  "bool \<Rightarrow> sql_world \<Rightarrow> gorm_world \<Rightarrow> SQLite \<Rightarrow> gorm_option list \<Rightarrow> (gerr + gormdb) \<times> db_call list" where
  "Gorm_OpenSQLite tag W G cfg opts =
     (if tag then wrap_sql tag G ''sqlite'' opts (OpenSQLite W cfg)
      else Gorm_OpenSQLite_disabled cfg opts)"

definition Gorm_Open ::
  "bool \<Rightarrow> sql_world \<Rightarrow> gorm_world \<Rightarrow> gorm_option list \<Rightarrow> DatabaseConnection \<Rightarrow> (gerr + gormdb) \<times> db_call list" where
  "Gorm_Open tag W G opts cfg =
     (let driver = normalizedDriver (dcn_Driver cfg) in
      if driver = [] \<or> driver = ''mysql'' then Gorm_OpenMySQL tag W G (dcn_MySQL cfg) opts
      else if driver = ''sqlite'' then Gorm_OpenSQLite tag W G (dcn_SQLite cfg) opts
      else (Inl (Errorf ''unsupported gorm database driver %q'' [dcn_Driver cfg]), []))"

section \<open>Closing and the manager\<close>

definition Gorm_Close :: "gorm_world \<Rightarrow> (sqldb \<Rightarrow> gerr option) \<Rightarrow> gormdb option \<Rightarrow> gerr option \<times> db_call list" where
  "Gorm_Close G shut db =
     (case db of
        None \<Rightarrow> (None, [])
      | Some db \<Rightarrow>
          (case gw_DB G db of
             Some err \<Rightarrow> (Some err, [])
           | None \<Rightarrow> sql_close shut (gd_sql db)))"

definition Gorm_OpenManager ::
  "bool \<Rightarrow> (string \<Rightarrow> sql_world) \<Rightarrow> gorm_world \<Rightarrow> (sqldb \<Rightarrow> gerr option) \<Rightarrow> gorm_option list \<Rightarrow> Databases \<Rightarrow>
   (gerr + gormdb db_manager) \<times> db_call list" where
  "Gorm_OpenManager tag W G shut opts cfg =
     open_manager (\<lambda>name. Gorm_Open tag (W name) G opts) (\<lambda>db. Gorm_Close G shut (Some db))
       ''open gorm database %s: %w'' ''no gorm database connections configured'' ErrGormNotFound cfg"

text \<open>The manager's operations; its \<open>closeAll\<close> goes over the handles with \<open>Close\<close>.\<close>

type_synonym gorm_manager = "gormdb db_manager"

definition Gorm_Default :: "gorm_manager option \<Rightarrow> gormdb option" where
  "Gorm_Default = manager_Default"

definition Gorm_DB :: "gorm_manager option \<Rightarrow> string \<Rightarrow> gerr + gormdb" where
  "Gorm_DB = manager_DB ErrGormNotFound"

definition Gorm_MustDB :: "gorm_manager option \<Rightarrow> string \<Rightarrow> gormdb outcome" where
  "Gorm_MustDB = manager_MustDB ErrGormNotFound"

definition Gorm_Names :: "gorm_manager option \<Rightarrow> string list" where
  "Gorm_Names = manager_Names"

definition Gorm_closeAll ::
  "gorm_world \<Rightarrow> (sqldb \<Rightarrow> gerr option) \<Rightarrow> (string \<times> gormdb) list \<Rightarrow> gerr option \<times> db_call list" where
  "Gorm_closeAll G shut dbs = close_conns (\<lambda>db. Gorm_Close G shut (Some db)) dbs None"

definition Gorm_manager_Close ::
  "gorm_world \<Rightarrow> (sqldb \<Rightarrow> gerr option) \<Rightarrow> gorm_manager option \<Rightarrow> gerr option \<times> db_call list" where
  "Gorm_manager_Close G shut mg = (case mg of None \<Rightarrow> (None, []) | Some m \<Rightarrow> Gorm_closeAll G shut (mg_dbs m))"

lemma Gorm_manager_Close_eq: "Gorm_manager_Close G shut mg = manager_Close (\<lambda>db. Gorm_Close G shut (Some db)) mg"
  by (simp add: Gorm_manager_Close_def Gorm_closeAll_def manager_Close_def split: option.split)

section \<open>The GORM connections keep the contract\<close>

text \<open>GORM's \<open>DB()\<close> returns the connection it was opened on.\<close>

definition connected :: "gorm_world \<Rightarrow> gorm_world" where
  "connected G = G\<lparr>gw_DB := (\<lambda>db. None)\<rparr>"

lemma OpenSQL_sql: "OpenSQL tag G driver (Some db) opts = Inr g \<Longrightarrow> gd_sql g = db"
  by (auto simp: OpenSQL_def Let_def split: option.splits)

lemma wrap_sql_calls:
  assumes "\<And>err calls. r = (Inl err, calls) \<Longrightarrow> opened calls = closed calls"
    and "\<And>db calls. r = (Inr db, calls) \<Longrightarrow> opened calls = add_mset db (closed calls)"
  shows "wrap_sql tag G driver opts r = (Inl err, calls) \<Longrightarrow> opened calls = closed calls"
    and "wrap_sql tag G driver opts r = (Inr g, calls) \<Longrightarrow> opened calls = add_mset (gd_sql g) (closed calls)"
  using assms by (auto simp: wrap_sql_def dest: OpenSQL_sql split: prod.splits sum.splits)

lemma mysql_wrapped:
  "wrap_sql tag G d opts (OpenMySQL W c) = (Inl err, calls) \<Longrightarrow> opened calls = closed calls"
  "wrap_sql tag G d opts (OpenMySQL W c) = (Inr g, calls) \<Longrightarrow> opened calls = add_mset (gd_sql g) (closed calls)"
  by (erule wrap_sql_calls [rotated 2]; erule OpenMySQL_calls)+

lemma sqlite_wrapped:
  "wrap_sql tag G d opts (OpenSQLite W c) = (Inl err, calls) \<Longrightarrow> opened calls = closed calls"
  "wrap_sql tag G d opts (OpenSQLite W c) = (Inr g, calls) \<Longrightarrow> opened calls = add_mset (gd_sql g) (closed calls)"
  by (erule wrap_sql_calls [rotated 2]; erule OpenSQLite_calls)+

lemma Gorm_Open_calls:
  "Gorm_Open tag W G opts cfg = (Inl err, calls) \<Longrightarrow> opened calls = closed calls"
  "Gorm_Open tag W G opts cfg = (Inr g, calls) \<Longrightarrow> opened calls = add_mset (gd_sql g) (closed calls)"
  by (auto simp: Gorm_Open_def Gorm_OpenMySQL_def Gorm_OpenSQLite_def Gorm_OpenSQLite_disabled_def Let_def
      split: if_splits dest: mysql_wrapped sqlite_wrapped)

interpretation gorm_opener: opener "\<lambda>name. Gorm_Open tag (W name) (connected G) opts"
    "\<lambda>db. Gorm_Close (connected G) shut (Some db)" gd_sql
  by unfold_locales (simp_all add: Gorm_Open_calls Gorm_Close_def connected_def sql_close_def)

section \<open>Properties\<close>

text \<open>
  C32: The GORM manager leaks nothing either: as long as GORM gives a connection back when it is
  asked, a manager that fails to open has closed every connection it opened, those that GORM
  refused among them, and one that opens has its default connection and closes all of them on
  \<open>Close\<close>.
\<close>

theorem gorm_manager_closes_all:
  assumes "gw_DB G = (\<lambda>db. None)" and "Gorm_OpenManager tag W G shut opts cfg = (r, calls)"
  shows "case r of
      Inl err \<Rightarrow> opened calls = closed calls
    | Inr m \<Rightarrow> map fst (mg_dbs m) = map fst (connections cfg) \<and>
        Gorm_Default (Some m) \<noteq> None \<and>
        (let after = calls @ snd (Gorm_manager_Close G shut (Some m)) in opened after = closed after)"
proof -
  from assms(1) have G: "connected G = G" by (simp add: connected_def)
  note fails = gorm_opener.manager_fails [of tag W G opts shut, unfolded G]
    and succeeds = gorm_opener.manager_succeeds [of tag W G opts shut, unfolded G]
  show ?thesis
  proof (cases r)
    case (Inl err)
    with fails assms(2) show ?thesis unfolding Gorm_OpenManager_def by simp
  next
    case (Inr m)
    from succeeds [OF assms(2) [unfolded Gorm_OpenManager_def Inr]] show ?thesis
      unfolding Inr Let_def sum.case Gorm_manager_Close_eq Gorm_Default_def by blast
  qed
qed

definition demo_gorm :: gorm_world where
  "demo_gorm = \<lparr>gw_Open = (\<lambda>_ _. Some (Sentinel ErrEOF)), gw_DB = (\<lambda>_. None)\<rparr>"

theorem gorm_manager_closes_all_witness:
  "\<exists>err calls. Gorm_OpenManager True demo_sql demo_gorm (\<lambda>_. None) [] (demo_databases [''a'']) = (Inl err, calls) \<and>
     opened calls = closed calls"
proof -
  obtain db c where db: "OpenMySQL (demo_sql ''a'') (dcn_MySQL demo_connection) = (Inr db, c)"
    using demo_open(1) by (auto simp: DB_Open_def demo_connection_def TrimSpace_graphic graphic_def lower_char_def)
  have d: "normalizedDriver ''mysql'' = ''mysql''"
    by (simp add: normalizedDriver_def TrimSpace_graphic graphic_def lower_char_def)
  have "\<exists>err calls. Gorm_OpenManager True demo_sql demo_gorm (\<lambda>_. None) [] (demo_databases [''a'']) = (Inl err, calls)"
    using db d
    by (simp add: Gorm_OpenManager_def run_eqs Gorm_Open_def
        Gorm_OpenMySQL_def wrap_sql_def OpenSQL_def demo_gorm_def demo_connection_def Let_def)
  then obtain err calls where m: "Gorm_OpenManager True demo_sql demo_gorm (\<lambda>_. None) [] (demo_databases [''a'']) = (Inl err, calls)"
    by blast
  have "gw_DB demo_gorm = (\<lambda>db. None)" by (simp add: demo_gorm_def)
  from gorm_manager_closes_all [OF this m] m show ?thesis by auto
qed

text \<open>
  The suppressing logger hides missing records and nothing else: when the option is on, an
  operation whose error is or wraps \<open>ErrRecordNotFound\<close> is traced by nobody, and any other is
  traced by the logger that would have traced it without the option.
\<close>

theorem suppressed_errors_are_missing_records:
  assumes "gc_Logger (buildConfig (opts @ [WithSuppressRecordNotFound False])) = before"
    and "gc_Logger (buildConfig (opts @ [WithSuppressRecordNotFound True])) = Some l"
  shows "Trace l err =
    (if (\<exists>e. err = Some e \<and> errors_Is e ErrRecordNotFound) then None
     else Trace (case before of None \<Rightarrow> DefaultLogger | Some p \<Rightarrow> p) err)"
  using assms
  by (auto simp: buildConfig_def gorm_options_def WithSuppressRecordNotFound_def Let_def split: option.splits if_splits)

theorem suppressed_errors_are_missing_records_witness:
  "Trace (suppressNotFoundLogger (AppLogger 1)) (Some (Sentinel ErrEOF)) = Some (AppLogger 1)"
proof -
  have "gc_Logger (buildConfig ([WithLogger (Some (AppLogger 1))] @ [WithSuppressRecordNotFound False])) = Some (AppLogger 1)"
    "gc_Logger (buildConfig ([WithLogger (Some (AppLogger 1))] @ [WithSuppressRecordNotFound True]))
      = Some (suppressNotFoundLogger (AppLogger 1))"
    by (simp_all add: buildConfig_def gorm_options_def WithLogger_def WithSuppressRecordNotFound_def Let_def)
  from suppressed_errors_are_missing_records [OF this, of "Some (Sentinel ErrEOF)"] show ?thesis by simp
qed

end
