(* ===== verification/Migration.thy ===== *)
theory Migration
  imports Database
begin

text \<open>
  The schema migrations of \<open>migration/\<close>: which driver and which URL a migration is created with, and
  what the errors of running it become. The migration library is a parameter: its constructors,
  and the errors of an instance. The lemmas show that a migration uses the driver the database
  is opened with, and which errors are reported.
\<close>

section \<open>Creating a migration\<close>

record ('m, 'fs, 'src) migrate_lib =
  ml_New :: "string \<Rightarrow> string \<Rightarrow> gerr + 'm"
  ml_iofs :: "'fs \<Rightarrow> string \<Rightarrow> gerr + 'src"
  ml_NewWithSource :: "'src \<Rightarrow> string \<Rightarrow> gerr + 'm"

definition mysqlURL :: "string \<Rightarrow> string" where
  "mysqlURL dsn = (if HasPrefix dsn ''mysql://'' then dsn else ''mysql://'' @ dsn)"

definition SQLiteURL :: "string \<Rightarrow> string" where
  "SQLiteURL dsn = (if HasPrefix dsn ''sqlite://'' then dsn else ''sqlite://'' @ dsn)"

definition newURL :: "('m, 'fs, 'src) migrate_lib \<Rightarrow> string \<Rightarrow> string \<Rightarrow> gerr + 'm" where
  "newURL L sourceURL databaseURL =
     map_sum (\<lambda>err. Wrapf ''create migrate instance: %w'' err []) (\<lambda>m. m) (ml_New L sourceURL databaseURL)"

definition newMySQL :: "('m, 'fs, 'src) migrate_lib \<Rightarrow> string \<Rightarrow> string \<Rightarrow> gerr + 'm" where
  "newMySQL L sourceURL dsn = newURL L sourceURL (mysqlURL dsn)"

definition newSQLite :: "('m, 'fs, 'src) migrate_lib \<Rightarrow> string \<Rightarrow> string \<Rightarrow> gerr + 'm" where
  "newSQLite L sourceURL dsn = newURL L sourceURL (SQLiteURL dsn)"

definition newEmbed :: "('m, 'fs, 'src) migrate_lib \<Rightarrow> 'fs \<Rightarrow> string \<Rightarrow> string \<Rightarrow> gerr + 'm" where
  "newEmbed L files dir databaseURL =
     (case ml_iofs L files dir of
        Inl err \<Rightarrow> Inl (Wrapf ''create embedded migrate source: %w'' err [])
      | Inr source \<Rightarrow>
          map_sum (\<lambda>err. Wrapf ''create migrate instance: %w'' err []) (\<lambda>m. m) (ml_NewWithSource L source databaseURL))"

definition NewMySQLFile :: "('m, 'fs, 'src) migrate_lib \<Rightarrow> string \<Rightarrow> string \<Rightarrow> gerr + 'm" where
  "NewMySQLFile L dsn migrationsDir = newMySQL L (''file://'' @ migrationsDir) dsn"

definition NewMySQLEmbed :: "('m, 'fs, 'src) migrate_lib \<Rightarrow> string \<Rightarrow> 'fs \<Rightarrow> string \<Rightarrow> gerr + 'm" where
  "NewMySQLEmbed L dsn files dir = newEmbed L files dir (mysqlURL dsn)"

text \<open>The SQLite constructors of the build without the tag \<open>sqlite\<close>, and those of both builds.\<close>

definition sqliteDisabledError :: gerr where
  "sqliteDisabledError = Errorf ''sqlite support is disabled; rebuild with -tags sqlite'' []"

definition NewSQLiteFile_disabled :: "string \<Rightarrow> string \<Rightarrow> gerr + 'm" where
  "NewSQLiteFile_disabled dsn migrationsDir = Inl sqliteDisabledError"

definition NewSQLiteEmbed_disabled :: "string \<Rightarrow> 'fs \<Rightarrow> string \<Rightarrow> gerr + 'm" where
  "NewSQLiteEmbed_disabled dsn files dir = Inl sqliteDisabledError"

definition NewSQLiteFile :: "bool \<Rightarrow> ('m, 'fs, 'src) migrate_lib \<Rightarrow> string \<Rightarrow> string \<Rightarrow> gerr + 'm" where
  "NewSQLiteFile tag L dsn migrationsDir =
     (if tag then newSQLite L (''file://'' @ migrationsDir) dsn else NewSQLiteFile_disabled dsn migrationsDir)"

definition NewSQLiteEmbed :: "bool \<Rightarrow> ('m, 'fs, 'src) migrate_lib \<Rightarrow> string \<Rightarrow> 'fs \<Rightarrow> string \<Rightarrow> gerr + 'm" where
  "NewSQLiteEmbed tag L dsn files dir =
     (if tag then newEmbed L files dir (SQLiteURL dsn) else NewSQLiteEmbed_disabled dsn files dir)"

definition NewFile :: "bool \<Rightarrow> ('m, 'fs, 'src) migrate_lib \<Rightarrow> string \<Rightarrow> string \<Rightarrow> string \<Rightarrow> gerr + 'm" where
  "NewFile tag L driver dsn migrationsDir =
     (let d = ToLower (TrimSpace driver) in
      if d = [] \<or> d = ''mysql'' then newMySQL L (''file://'' @ migrationsDir) dsn
      else if d = ''sqlite'' \<or> d = ''sqlite3'' then NewSQLiteFile tag L dsn migrationsDir
      else Inl (Errorf ''unsupported migration database driver %q'' [driver]))"

definition NewEmbed :: "bool \<Rightarrow> ('m, 'fs, 'src) migrate_lib \<Rightarrow> string \<Rightarrow> string \<Rightarrow> 'fs \<Rightarrow> string \<Rightarrow> gerr + 'm" where
  "NewEmbed tag L driver dsn files dir =
     (let d = ToLower (TrimSpace driver) in
      if d = [] \<or> d = ''mysql'' then NewMySQLEmbed L dsn files dir
      else if d = ''sqlite'' \<or> d = ''sqlite3'' then NewSQLiteEmbed tag L dsn files dir
      else Inl (Errorf ''unsupported migration database driver %q'' [driver]))"

section \<open>Running a migration\<close>

text \<open>What an instance answers. The errors are compared with \<open>==\<close>, not with \<open>errors.Is\<close>.\<close>

record migrate_run =
  mr_Up :: "gerr option"
  mr_Down :: "gerr option"
  mr_Steps :: "int64 \<Rightarrow> gerr option"
  mr_Force :: "int64 \<Rightarrow> gerr option"
  mr_Version :: "64 word \<times> bool \<times> gerr option"

definition unless_no_change :: "string \<Rightarrow> string list \<Rightarrow> gerr option \<Rightarrow> gerr option" where
  "unless_no_change what args r =
     (case r of
        None \<Rightarrow> None
      | Some err \<Rightarrow> if err = Sentinel ErrNoChange then None else Some (Wrapf what err args))"

definition Migration_Up :: "migrate_run \<Rightarrow> gerr option" where
  "Migration_Up m = unless_no_change ''migrate up: %w'' [] (mr_Up m)"

definition Migration_Down :: "migrate_run \<Rightarrow> gerr option" where
  "Migration_Down m = unless_no_change ''migrate down: %w'' [] (mr_Down m)"

definition Migration_Steps :: "migrate_run \<Rightarrow> int64 \<Rightarrow> gerr option" where
  "Migration_Steps m n = unless_no_change ''migrate steps(%d): %w'' [FormatInt n] (mr_Steps m n)"

definition Migration_Version :: "migrate_run \<Rightarrow> 64 word \<times> bool \<times> gerr option" where
  "Migration_Version m = mr_Version m"

lemma unless_no_change_None: "unless_no_change what args r = None \<longleftrightarrow> r = None \<or> r = Some (Sentinel ErrNoChange)"
  by (auto simp: unless_no_change_def split: option.split)

lemma unless_no_change_Is:
  "unless_no_change what args r = Some err \<Longrightarrow> \<exists>e. r = Some e \<and> (\<forall>s. errors_Is err s = errors_Is e s)"
  by (auto simp: unless_no_change_def split: option.splits if_splits)

lemma mysqlURL_idem [simp]: "mysqlURL (mysqlURL dsn) = mysqlURL dsn"
  by (simp add: mysqlURL_def)

section \<open>Properties\<close>

text \<open>
  A migration runs on the driver its database is opened with: where \<open>DriverName\<close> reports
  \<open>mysql\<close> or \<open>sqlite\<close> for a connection, \<open>Open\<close> opens that kind of database and \<open>NewFile\<close> with
  the reported name makes a migration of the same kind, in the build with SQLite and in the one
  without.
\<close>

theorem migration_driver_agrees:
  assumes "Databases_DriverName cfg name = Inr driver" and "Databases_Connection cfg name = Inr c"
    and "driver = ''mysql'' \<or> driver = ''sqlite''"
  shows "(DB_Open tag W c, NewFile tag L driver dsn dir) =
    (if driver = ''mysql'' then (OpenMySQL W (dcn_MySQL c), NewMySQLFile L dsn dir)
     else if tag then (OpenSQLite W (dcn_SQLite c), NewSQLiteFile True L dsn dir)
     else ((Inl sqlite_disabled, []), Inl sqlite_disabled))"
proof -
  have t: "ToLower (TrimSpace ''mysql'') = ''mysql''" "ToLower (TrimSpace ''sqlite'') = ''sqlite''"
    by (simp_all add: TrimSpace_graphic graphic_def lower_char_def)
  show ?thesis
    using assms
    by (auto simp: Databases_DriverName_def DB_Open_def OpenSQLite_disabled_def NewFile_def NewMySQLFile_def
        NewSQLiteFile_def NewSQLiteFile_disabled_def sqliteDisabledError_def sqlite_disabled_def t Let_def split: if_splits)
qed

theorem migration_driver_agrees_witness:
  "\<exists>d c. Databases_DriverName d ''a'' = Inr ''mysql'' \<and>
     DB_Open True (demo_sql ''a'') c = OpenMySQL (demo_sql ''a'') (dcn_MySQL c)"
proof -
  have t: "TrimSpace ''mysql'' = ''mysql''" "TrimSpace ''a'' = ''a''"
    by (simp_all add: TrimSpace_graphic graphic_def)
  have c: "Databases_Connection (demo_databases [''a'']) ''a'' = Inr (connection_defaults demo_connection)"
    by (simp add: Databases_Connection_def with_defaults_def defaults_database applyDatabaseDefaults_def
        demo_databases_def t Let_def)
  then have d: "Databases_DriverName (demo_databases [''a'']) ''a'' = Inr ''mysql''"
    by (simp add: Databases_DriverName_def connection_defaults_def demo_connection_def or_default_def t lower_char_def Let_def)
  from migration_driver_agrees [OF d c, of True "demo_sql ''a''" "\<lparr>ml_New = (\<lambda>_ _. Inr ()),
      ml_iofs = (\<lambda>(_ :: unit) _. Inr ()), ml_NewWithSource = (\<lambda>_ _. Inr ())\<rparr>"] d
  show ?thesis by auto
qed

end
