(* ===== verification/CLI.thy ===== *)
theory CLI
  imports Migration App_Runtime Convert
begin

text \<open>
  The command line of \<open>cli/cli.go\<close>: the tree of commands \<open>NewRoot\<close> builds, each with its handler,
  and \<open>Execute\<close> and \<open>ExecuteOrExit\<close>, which hand the tree to cobra. Cobra is a parameter; what the
  code relies on (a command line reaches the command it names, \<open>--config\<close> sets the path) is the
  hypothesis \<open>dispatches\<close>. The lemmas show what a command line does from its words to the calls on
  the migration instance, and that an instance is closed whatever happens in between.
\<close>

section \<open>Commands\<close>

text \<open>
  The context of a run: outputs and loggers are numbers that stand for the objects. The handlers
  of this package do not change it; the flag \<open>--config\<close> does, before a handler runs.
\<close>

record cli_context =
  cx_ConfigPath :: string
  cx_Stdout :: nat
  cx_Stderr :: nat
  cx_Logger :: nat

text \<open>The calls on a migration instance, and all a command line does that can be seen from outside.\<close>

datatype cli_call =
    CallFactory cli_context | CallUp | CallDown | CallSteps int64 | CallForce int64 | CallVersion
  | CallPrint nat string | CallCloseMigrate

datatype effect =
    Serving App_Runtime.call | Migrating cli_call | WriteOut nat string | LogError nat gerr | ExitWith nat | Custom nat

type_synonym handler = "cli_context \<Rightarrow> string list \<Rightarrow> gerr option \<times> effect list"

text \<open>
  The fields of \<open>cobra.Command\<close> the code sets; \<open>Args\<close> is nil or \<open>ExactArgs(n)\<close>. A command is called
  by the first word of its \<open>Use\<close>.
\<close>

datatype command = Cmd (cmd_Use: string) (cmd_Short: string) (cmd_Args: "nat option")
  (cmd_RunE: handler) (cmd_Commands: "command list")

definition cmd_name :: "command \<Rightarrow> string" where
  "cmd_name k = takeWhile (\<lambda>c. c \<noteq> CHR '' '') (cmd_Use k)"

text \<open>\<open>Command\<close>: a command of the application.\<close>

definition Command :: "string \<Rightarrow> string \<Rightarrow> handler \<Rightarrow> command" where
  "Command use short run = Cmd use short None run []"

section \<open>The server command\<close>

text \<open>
  \<open>runServer\<close>: the factory is not set, fails, or gives a server (which may be nil) and the options
  of the run. How the run ends (\<open>race\<close>, \<open>halt\<close>) is an input of \<open>RunHTTP\<close>.
\<close>

type_synonym server_func = "cli_context \<Rightarrow> gerr + (bool \<times> App_Runtime.options)"

definition runServer ::
  "cli_context \<Rightarrow> server_func option \<Rightarrow> server_end \<Rightarrow> gerr option \<Rightarrow> gerr option \<times> App_Runtime.call list" where
  "runServer c server race halt =
     (case server of
        None \<Rightarrow> (Some (Errorf ''server command is not configured'' []), [])
      | Some factory \<Rightarrow>
          (case factory c of
             Inl err \<Rightarrow> (Some err, [])
           | Inr (srv, runOptions) \<Rightarrow> RunHTTP srv race halt runOptions))"

definition serve_handler :: "server_func option \<Rightarrow> server_end \<Rightarrow> gerr option \<Rightarrow> handler" where
  "serve_handler server race halt c args = (case runServer c server race halt of (err, calls) \<Rightarrow> (err, map Serving calls))"

definition serverCommand :: "server_func option \<Rightarrow> server_end \<Rightarrow> gerr option \<Rightarrow> command" where
  "serverCommand server race halt = Cmd ''server'' ''start HTTP server'' None (serve_handler server race halt) []"

definition versionCommand :: "string \<Rightarrow> command" where
  "versionCommand versionText =
     Cmd ''version'' ''print version'' None (\<lambda>c args. (None, [WriteOut (cx_Stdout c) versionText])) []"

section \<open>The migration commands\<close>

text \<open>The commands, with the argument as it was typed.\<close>

datatype migrate_command = MigrateUp | MigrateDown | MigrateSteps string | MigrateForce string | MigrateVersion

type_synonym migrate_func = "cli_context \<Rightarrow> gerr + migrate_run"

text \<open>
  The frame of a handler: the factory (its error, or an instance), the operation with its calls,
  and the deferred \<open>closeMigrate\<close>. An instance is never nil.
\<close>

definition with_migrate ::
  "migrate_func \<Rightarrow> cli_context \<Rightarrow> (migrate_run \<Rightarrow> gerr option \<times> cli_call list) \<Rightarrow> gerr option \<times> cli_call list" where
  "with_migrate factory c run =
     (case factory c of
        Inl err \<Rightarrow> (Some err, [CallFactory c])
      | Inr m \<Rightarrow> (fst (run m), [CallFactory c] @ snd (run m) @ [CallCloseMigrate]))"

definition migrateUp :: "migrate_func \<Rightarrow> cli_context \<Rightarrow> gerr option \<times> cli_call list" where
  "migrateUp factory c = with_migrate factory c (\<lambda>m. (Migration_Up m, [CallUp]))"

definition version_line :: "64 word \<Rightarrow> bool \<Rightarrow> string" where
  "version_line version dirty =
     ''version='' @ FormatUint version @ '' dirty='' @ FormatBool dirty @ [CHR 0x0A]"

definition run_version :: "cli_context \<Rightarrow> migrate_run \<Rightarrow> gerr option \<times> cli_call list" where
  "run_version c m =
     (case Migration_Version m of (version, dirty, err) \<Rightarrow>
        let none = (case err of None \<Rightarrow> False | Some e \<Rightarrow> errors_Is e ErrNilVersion) in
        if err \<noteq> None \<and> \<not> none then (err, [CallVersion])
        else (None, [CallVersion, CallPrint (cx_Stdout c) (if none then version_line 0 False else version_line version dirty)]))"

definition run_migrate :: "migrate_func \<Rightarrow> cli_context \<Rightarrow> migrate_command \<Rightarrow> gerr option \<times> cli_call list" where
  "run_migrate factory c cmd =
     (case cmd of
        MigrateUp \<Rightarrow> migrateUp factory c
      | MigrateDown \<Rightarrow> with_migrate factory c (\<lambda>m. (Migration_Down m, [CallDown]))
      | MigrateSteps arg \<Rightarrow>
          (case Convert_Int arg of
             (n, Some err) \<Rightarrow> (Some (Wrapf ''invalid migration steps %q: %w'' err [arg]), [])
           | (n, None) \<Rightarrow> with_migrate factory c (\<lambda>m. (Migration_Steps m n, [CallSteps n])))
      | MigrateForce arg \<Rightarrow>
          (case Convert_Int arg of
             (v, Some err) \<Rightarrow> (Some (Wrapf ''invalid migration version %q: %w'' err [arg]), [])
           | (v, None) \<Rightarrow> with_migrate factory c (\<lambda>m. (mr_Force m v, [CallForce v])))
      | MigrateVersion \<Rightarrow> with_migrate factory c (run_version c))"

text \<open>The handlers of \<open>steps\<close> and \<open>force\<close> take \<open>args[0]\<close>; \<open>ExactArgs(1)\<close> makes sure there is one.\<close>

definition migrate_handler :: "migrate_func \<Rightarrow> (string list \<Rightarrow> migrate_command) \<Rightarrow> handler" where
  "migrate_handler factory which c args =
     (case run_migrate factory c (which args) of (err, calls) \<Rightarrow> (err, map Migrating calls))"

definition migrateCommand :: "migrate_func \<Rightarrow> command" where
  "migrateCommand factory =
     Cmd ''migrate'' ''run database migrations'' None (migrate_handler factory (\<lambda>_. MigrateUp))
       [Cmd ''up'' ''apply pending migrations'' None (migrate_handler factory (\<lambda>_. MigrateUp)) [],
        Cmd ''down'' ''roll back all migrations'' None (migrate_handler factory (\<lambda>_. MigrateDown)) [],
        Cmd ''steps <n>'' ''migrate n steps; negative values roll back'' (Some 1)
          (migrate_handler factory (\<lambda>args. MigrateSteps (args ! 0))) [],
        Cmd ''force <version>'' ''force migration version'' (Some 1)
          (migrate_handler factory (\<lambda>args. MigrateForce (args ! 0))) [],
        Cmd ''version'' ''print migration version'' None (migrate_handler factory (\<lambda>_. MigrateVersion)) []]"

section \<open>The root command\<close>

record root_command =
  rt_Command :: command
  rt_SilenceUsage :: bool
  rt_SilenceErrors :: bool
  rt_Out :: nat
  rt_Err :: nat
  rt_Version :: string
  rt_VersionTemplate :: "string option"
  rt_Args :: "string list option"
  rt_ConfigFlag :: "string \<times> string \<times> string \<times> string"

text \<open>
  The fields of \<open>Options\<close>; a hook, an output or a logger that is not set is \<^term>\<open>None\<close>, and so is a
  nil entry of \<open>Commands\<close>.
\<close>

record cli_options =
  co_Name :: string
  co_Short :: string
  co_Args :: "string list option"
  co_DefaultConfigPath :: string
  co_Logger :: "nat option"
  co_Stdout :: "nat option"
  co_Stderr :: "nat option"
  co_VersionText :: "string option"
  co_Server :: "server_func option"
  co_Migrate :: "migrate_func option"
  co_Commands :: "command option list"
  co_Configure :: "(root_command \<times> cli_context \<Rightarrow> root_command \<times> cli_context) option"

text \<open>The process the command line runs in: its outputs, default logger, arguments, and how a server run would end.\<close>

record process =
  ps_Stdout :: nat
  ps_Stderr :: nat
  ps_Logger :: nat
  ps_Args :: "string list"
  ps_race :: server_end
  ps_halt :: "gerr option"

definition new_context :: "process \<Rightarrow> cli_options \<Rightarrow> cli_context" where
  "new_context ps options =
     \<lparr>cx_ConfigPath = (if co_DefaultConfigPath options = [] then ''config.yaml'' else co_DefaultConfigPath options),
      cx_Stdout = (case co_Stdout options of None \<Rightarrow> ps_Stdout ps | Some w \<Rightarrow> w),
      cx_Stderr = (case co_Stderr options of None \<Rightarrow> ps_Stderr ps | Some w \<Rightarrow> w),
      cx_Logger = (case co_Logger options of None \<Rightarrow> ps_Logger ps | Some l \<Rightarrow> l)\<rparr>"

definition root_commands :: "process \<Rightarrow> cli_options \<Rightarrow> command list" where
  "root_commands ps options =
     [serverCommand (co_Server options) (ps_race ps) (ps_halt ps)]
     @ (case co_Migrate options of None \<Rightarrow> [] | Some factory \<Rightarrow> [migrateCommand factory])
     @ (case co_VersionText options of None \<Rightarrow> [] | Some text \<Rightarrow> [versionCommand text])
     @ List.map_filter (\<lambda>k. k) (co_Commands options)"

text \<open>\<open>NewRoot\<close>: the \<open>Configure\<close> hook of the application sees the command and the context last and may change both.\<close>

definition NewRoot :: "process \<Rightarrow> cli_options \<Rightarrow> root_command \<times> cli_context" where
  "NewRoot ps options =
     (let c = new_context ps options;
          name = (if co_Name options = [] then ''server'' else co_Name options);
          root = \<lparr>rt_Command = Cmd name (co_Short options) None
                    (serve_handler (co_Server options) (ps_race ps) (ps_halt ps)) (root_commands ps options),
                  rt_SilenceUsage = True, rt_SilenceErrors = True,
                  rt_Out = cx_Stdout c, rt_Err = cx_Stderr c,
                  rt_Version = (case co_VersionText options of None \<Rightarrow> [] | Some t \<Rightarrow> TrimSpace t),
                  rt_VersionTemplate = (case co_VersionText options of None \<Rightarrow> None | Some t \<Rightarrow> Some (''{{.Version}}'' @ [CHR 0x0A])),
                  rt_Args = co_Args options,
                  rt_ConfigFlag = (''config'', ''c'', cx_ConfigPath c, ''config file path'')\<rparr>
      in case co_Configure options of None \<Rightarrow> (root, c) | Some f \<Rightarrow> f (root, c))"

text \<open>
  Cobra's \<open>root.Execute()\<close>: given the tree, the context its flag writes to and the arguments of the
  process, the error and the effects of the run.
\<close>

type_synonym cobra = "root_command \<Rightarrow> cli_context \<Rightarrow> string list \<Rightarrow> gerr option \<times> effect list"

definition Execute :: "cobra \<Rightarrow> process \<Rightarrow> cli_options \<Rightarrow> gerr option \<times> effect list" where
  "Execute cobra ps options = (case NewRoot ps options of (root, c) \<Rightarrow> cobra root c (ps_Args ps))"

definition ExecuteOrExit :: "cobra \<Rightarrow> process \<Rightarrow> cli_options \<Rightarrow> effect list" where
  "ExecuteOrExit cobra ps options =
     (case NewRoot ps options of (root, c) \<Rightarrow>
      case cobra root c (ps_Args ps) of (err, effects) \<Rightarrow>
        effects @ (case err of None \<Rightarrow> [] | Some e \<Rightarrow> [LogError (cx_Logger c) e, ExitWith 1]))"

section \<open>From a command line to its handler\<close>

text \<open>The command that a sequence of names leads to.\<close>

fun sub_command :: "command \<Rightarrow> string list \<Rightarrow> command option" where
  "sub_command k [] = Some k"
| "sub_command k (w # ws) =
     (case find (\<lambda>k. cmd_name k = w) (cmd_Commands k) of None \<Rightarrow> None | Some k \<Rightarrow> sub_command k ws)"

fun distinct_names :: "command \<Rightarrow> bool" where
  "distinct_names (Cmd _ _ _ _ ks) \<longleftrightarrow> distinct (map cmd_name ks) \<and> (\<forall>k \<in> set ks. distinct_names k)"

text \<open>A word is no flag and none of cobra's hidden commands, whose names start with an underscore.\<close>

fun word :: "string \<Rightarrow> bool" where
  "word [] = False"
| "word (c # cs) \<longleftrightarrow> c \<noteq> CHR ''-'' \<and> c \<noteq> CHR ''_''"

text \<open>
  The arguments a command takes behind its names: without \<open>Args\<close>, any number (none for the root),
  as long as the first is not the name of a command below.
\<close>

definition accepts :: "command \<Rightarrow> string list \<Rightarrow> string list \<Rightarrow> bool" where
  "accepts k path rest \<longleftrightarrow>
     (case cmd_Args k of None \<Rightarrow> path \<noteq> [] \<or> rest = [] | Some n \<Rightarrow> length rest = n) \<and>
     (rest = [] \<or> sub_command k [hd rest] = None)"

fun config_args :: "string option \<Rightarrow> string list" where
  "config_args None = []"
| "config_args (Some path) = [''--config='' @ path]"

fun with_config :: "string option \<Rightarrow> cli_context \<Rightarrow> cli_context" where
  "with_config None c = c"
| "with_config (Some path) c = c\<lparr>cx_ConfigPath := path\<rparr>"

lemma with_config_fields [simp]:
  "cx_Logger (with_config config c) = cx_Logger c"
  "cx_ConfigPath (with_config config c) = (case config of None \<Rightarrow> cx_ConfigPath c | Some path \<Rightarrow> path)"
  by (cases config; simp)+

lemma new_context_path:
  "cx_ConfigPath (new_context ps options) = (if co_DefaultConfigPath options = [] then ''config.yaml'' else co_DefaultConfigPath options)"
  by (simp add: new_context_def)

definition given :: "root_command \<Rightarrow> string list \<Rightarrow> string list" where
  "given root args = (case rt_Args root of None \<Rightarrow> args | Some args \<Rightarrow> args)"

text \<open>
  What cobra documents: the arguments are those of \<open>SetArgs\<close> or of the process; \<open>--config=path\<close> sets
  the variable of the flag; the names lead to a command, whose \<open>RunE\<close> gets the rest.
\<close>

definition dispatches :: "cobra \<Rightarrow> bool" where
  "dispatches cobra \<longleftrightarrow>
     (\<forall>root c os config path rest k.
        fst (rt_ConfigFlag root) = ''config'' \<and> distinct_names (rt_Command root) \<and>
        given root os = config_args config @ path @ rest \<and> list_all word (path @ rest) \<and>
        sub_command (rt_Command root) path = Some k \<and> accepts k path rest \<longrightarrow>
        cobra root c os = cmd_RunE k (with_config config c) rest)"

lemma dispatchesD:
  assumes "dispatches cobra" "fst (rt_ConfigFlag root) = ''config''" "distinct_names (rt_Command root)"
    "given root os = config_args config @ path @ rest" "list_all word (path @ rest)"
    "sub_command (rt_Command root) path = Some k" "accepts k path rest"
  shows "cobra root c os = cmd_RunE k (with_config config c) rest"
  using assms unfolding dispatches_def by blast

text \<open>The words of a migration command.\<close>

fun migrate_line :: "migrate_command \<Rightarrow> string list" where
  "migrate_line MigrateUp = [''migrate'', ''up'']"
| "migrate_line MigrateDown = [''migrate'', ''down'']"
| "migrate_line (MigrateSteps n) = [''migrate'', ''steps'', n]"
| "migrate_line (MigrateForce v) = [''migrate'', ''force'', v]"
| "migrate_line MigrateVersion = [''migrate'', ''version'']"

text \<open>The application's own commands keep clear of the names of this package.\<close>

definition own_commands :: "cli_options \<Rightarrow> command list" where
  "own_commands options = List.map_filter (\<lambda>k. k) (co_Commands options)"

definition clear_names :: "cli_options \<Rightarrow> bool" where
  "clear_names options \<longleftrightarrow>
     distinct ([''server'', ''migrate'', ''version''] @ map cmd_name (own_commands options)) \<and>
     (\<forall>k \<in> set (own_commands options). distinct_names k)"

lemma names [simp]:
  "cmd_name (serverCommand server race halt) = ''server''"
  "cmd_name (migrateCommand factory) = ''migrate''"
  "cmd_name (versionCommand t) = ''version''"
  by (simp_all add: cmd_name_def serverCommand_def migrateCommand_def versionCommand_def)

lemma migrate_names: "map cmd_name (cmd_Commands (migrateCommand factory)) = [''up'', ''down'', ''steps'', ''force'', ''version'']"
  by (simp add: migrateCommand_def cmd_name_def)

lemma package_commands_distinct [simp]:
  "distinct_names (serverCommand server race halt)" "distinct_names (migrateCommand factory)" "distinct_names (versionCommand t)"
  by (simp_all add: serverCommand_def migrateCommand_def versionCommand_def cmd_name_def)

text \<open>A command line on the tree of \<open>NewRoot\<close>, when no \<open>Configure\<close> hook changes it.\<close>

lemma root_distinct:
  assumes "clear_names options" "co_Configure options = None"
  shows "distinct_names (rt_Command (fst (NewRoot ps options)))"
  using assms
  by (auto simp: NewRoot_def Let_def root_commands_def clear_names_def own_commands_def [symmetric] split: option.split)

lemma command_line:
  assumes "dispatches cobra" "clear_names options" "co_Configure options = None"
    "(case co_Args options of None \<Rightarrow> ps_Args ps | Some args \<Rightarrow> args) = config_args config @ path @ rest"
    "list_all word (path @ rest)" "sub_command (rt_Command (fst (NewRoot ps options))) path = Some k" "accepts k path rest"
  shows "Execute cobra ps options = cmd_RunE k (with_config config (new_context ps options)) rest"
proof -
  obtain root c where r: "NewRoot ps options = (root, c)" by fastforce
  then have "fst (rt_ConfigFlag root) = ''config''" "c = new_context ps options"
    "given root (ps_Args ps) = (case co_Args options of None \<Rightarrow> ps_Args ps | Some args \<Rightarrow> args)"
    using assms(3) by (auto simp: NewRoot_def Let_def given_def)
  moreover have "distinct_names (rt_Command root)" using root_distinct [OF assms(2,3), of ps] r by simp
  ultimately show ?thesis
    using dispatchesD [OF assms(1), of root "ps_Args ps" config path rest k c] assms(4-7) r by (simp add: Execute_def)
qed

lemma root_migrate:
  assumes "co_Migrate options = Some factory" "co_Configure options = None"
  shows "sub_command (rt_Command (fst (NewRoot ps options))) (''migrate'' # path) = sub_command (migrateCommand factory) path"
  using assms by (simp add: NewRoot_def Let_def root_commands_def)

fun typed :: "migrate_command \<Rightarrow> bool" where
  "typed (MigrateSteps n) = word n"
| "typed (MigrateForce v) = word v"
| "typed _ = True"

lemma migrate_dispatch:
  assumes "typed mc"
  obtains k path rest where "migrate_line mc = ''migrate'' # path @ rest" "list_all word (''migrate'' # path @ rest)"
    "sub_command (migrateCommand factory) path = Some k" "accepts k (''migrate'' # path) rest"
    "cmd_RunE k c rest = (case run_migrate factory c mc of (err, calls) \<Rightarrow> (err, map Migrating calls))"
proof (cases mc)
  case MigrateUp
  then show ?thesis
    by (intro that [of "[''up'']" "[]"]) (auto simp: migrateCommand_def cmd_name_def accepts_def migrate_handler_def)
next
  case MigrateDown
  then show ?thesis
    by (intro that [of "[''down'']" "[]"]) (auto simp: migrateCommand_def cmd_name_def accepts_def migrate_handler_def)
next
  case (MigrateSteps n)
  with assms show ?thesis
    by (intro that [of "[''steps'']" "[n]"]) (auto simp: migrateCommand_def cmd_name_def accepts_def migrate_handler_def)
next
  case (MigrateForce v)
  with assms show ?thesis
    by (intro that [of "[''force'']" "[v]"]) (auto simp: migrateCommand_def cmd_name_def accepts_def migrate_handler_def)
next
  case MigrateVersion
  then show ?thesis
    by (intro that [of "[''version'']" "[]"]) (auto simp: migrateCommand_def cmd_name_def accepts_def migrate_handler_def)
qed

lemma migrate_command_runs:
  assumes "dispatches cobra" "clear_names options" "co_Configure options = None" "co_Migrate options = Some factory"
    "(case co_Args options of None \<Rightarrow> ps_Args ps | Some args \<Rightarrow> args) = config_args config @ migrate_line mc" "typed mc"
  shows "Execute cobra ps options =
    (case run_migrate factory (with_config config (new_context ps options)) mc of (err, calls) \<Rightarrow> (err, map Migrating calls))"
proof -
  obtain k path rest where k: "migrate_line mc = ''migrate'' # path @ rest" "list_all word (''migrate'' # path @ rest)"
    "sub_command (migrateCommand factory) path = Some k" "accepts k (''migrate'' # path) rest"
    "cmd_RunE k (with_config config (new_context ps options)) rest =
       (case run_migrate factory (with_config config (new_context ps options)) mc of (err, calls) \<Rightarrow> (err, map Migrating calls))"
    using migrate_dispatch [OF assms(6), of factory "with_config config (new_context ps options)"] by metis
  have "sub_command (rt_Command (fst (NewRoot ps options))) (''migrate'' # path) = Some k"
    using root_migrate [OF assms(4,3)] k(3) by simp
  from command_line [OF assms(1-3) _ _ this k(4)] k(1,2,5) assms(5) show ?thesis by simp
qed

lemma exit_status:
  assumes "co_Configure options = None" "Execute cobra ps options = (err, effects)"
  shows "ExecuteOrExit cobra ps options =
    effects @ (case err of None \<Rightarrow> [] | Some e \<Rightarrow> [LogError (cx_Logger (new_context ps options)) e, ExitWith 1])"
  using assms by (auto simp: Execute_def ExecuteOrExit_def NewRoot_def Let_def)

text \<open>
  A migration command never leaks its instance: it either refuses its argument and calls
  nothing, or asks the factory once and, when it got an instance, makes its one operation on it
  and closes it last, also when the operation failed. Nothing runs when the factory fails, and
  the factory's error is reported as it is.
\<close>

definition careful_run :: "(gerr + 'a) \<Rightarrow> cli_context \<Rightarrow> gerr option \<Rightarrow> cli_call list \<Rightarrow> bool" where
  "careful_run made c err calls \<longleftrightarrow>
     (calls = [] \<and> err \<noteq> None) \<or>
     (case made of
        Inl e \<Rightarrow> calls = [CallFactory c] \<and> err = Some e
      | Inr _ \<Rightarrow> (\<exists>op out. calls = CallFactory c # op # out @ [CallCloseMigrate] \<and>
          op \<in> {CallUp, CallDown, CallVersion} \<union> range CallSteps \<union> range CallForce \<and>
          (\<forall>x \<in> set out. \<exists>text. x = CallPrint (cx_Stdout c) text)))"

lemma migrate_careful:
  "run_migrate factory c mc = (err, calls) \<Longrightarrow> careful_run (factory c) c err calls"
  by (cases mc; cases "factory c")
    (auto simp: careful_run_def run_migrate_def with_migrate_def migrateUp_def run_version_def Let_def
      split: prod.splits option.splits if_splits)

text \<open>
  \<open>migrate up\<close>, \<open>down\<close> and \<open>steps\<close> succeed when there is nothing to do, and otherwise exactly when
  the migration does; the version of a database without migrations is printed as 0, not reported
  as an error.
\<close>

lemma migrate_command_errors:
  assumes "factory c = Inr m"
  shows "fst (run_migrate factory c MigrateUp) = None \<longleftrightarrow> mr_Up m \<in> {None, Some (Sentinel ErrNoChange)}"
    and "fst (run_migrate factory c MigrateDown) = None \<longleftrightarrow> mr_Down m \<in> {None, Some (Sentinel ErrNoChange)}"
    and "fst (run_migrate factory c (MigrateSteps (FormatInt n))) = None \<longleftrightarrow> mr_Steps m n \<in> {None, Some (Sentinel ErrNoChange)}"
    and "mr_Version m = (v, dirty, Some (Sentinel ErrNilVersion)) \<Longrightarrow> run_migrate factory c MigrateVersion
      = (None, [CallFactory c, CallVersion, CallPrint (cx_Stdout c) (version_line 0 False), CallCloseMigrate])"
  using assms
  by (simp_all add: run_migrate_def with_migrate_def migrateUp_def Migration_Up_def Migration_Down_def Migration_Steps_def
      Migration_Version_def run_version_def unless_no_change_None Convert_Int_def)

text \<open>
  A word that names no migration command is no error: cobra hands it to \<open>migrate\<close> itself, which
  has no \<open>Args\<close>, and the handler applies all pending migrations.
\<close>

lemma misspelt_migration_runs_up:
  assumes "dispatches cobra" "clear_names options" "co_Configure options = None" "co_Migrate options = Some factory"
    "(case co_Args options of None \<Rightarrow> ps_Args ps | Some args \<Rightarrow> args) = [''migrate'', w]"
    "word w" "w \<notin> {''up'', ''down'', ''steps'', ''force'', ''version''}"
  shows "Execute cobra ps options =
    (case migrateUp factory (new_context ps options) of (err, calls) \<Rightarrow> (err, map Migrating calls))"
proof -
  have "accepts (migrateCommand factory) [''migrate''] [w]"
    using assms(7) by (auto simp: accepts_def migrateCommand_def cmd_name_def)
  moreover have "sub_command (rt_Command (fst (NewRoot ps options))) [''migrate''] = Some (migrateCommand factory)"
    using root_migrate [OF assms(4,3), of ps "[]"] by simp
  ultimately have "Execute cobra ps options = cmd_RunE (migrateCommand factory) (new_context ps options) [w]"
    using command_line [OF assms(1-3), of ps None "[''migrate'']" "[w]" "migrateCommand factory"] assms(5,6) by simp
  then show ?thesis by (simp add: migrateCommand_def migrate_handler_def run_migrate_def)
qed

text \<open>The server runs without a command and with \<open>server\<close> alike.\<close>

lemma server_is_default:
  assumes "dispatches cobra" "clear_names options" "co_Configure options = None"
    "(case co_Args options of None \<Rightarrow> ps_Args ps | Some args \<Rightarrow> args) = config_args config @ path" "path \<in> {[], [''server'']}"
  shows "Execute cobra ps options =
    (case runServer (with_config config (new_context ps options)) (co_Server options) (ps_race ps) (ps_halt ps) of
       (err, calls) \<Rightarrow> (err, map Serving calls))"
proof -
  obtain k where k: "sub_command (rt_Command (fst (NewRoot ps options))) path = Some k" "accepts k path []"
    "cmd_RunE k = serve_handler (co_Server options) (ps_race ps) (ps_halt ps)"
    using assms(3,5) by (auto simp: NewRoot_def Let_def root_commands_def accepts_def serverCommand_def cmd_name_def)
  have "list_all word path" using assms(5) by auto
  from command_line [OF assms(1-3), of ps config path "[]", OF _ _ k(1,2)] this assms(4) k(3)
  show ?thesis by (simp add: serve_handler_def)
qed

section \<open>A dispatcher\<close>

text \<open>Cobra's dispatch for lines without other flags: the flag first, then the names as far as they lead.\<close>

fun walk :: "command \<Rightarrow> cli_context \<Rightarrow> string list \<Rightarrow> gerr option \<times> effect list" where
  "walk k c [] = cmd_RunE k c []"
| "walk k c (w # ws) =
     (case find (\<lambda>k. cmd_name k = w) (cmd_Commands k) of None \<Rightarrow> cmd_RunE k c (w # ws) | Some k \<Rightarrow> walk k c ws)"

definition walker :: cobra where
  "walker root c os =
     (case given root os of
        [] \<Rightarrow> walk (rt_Command root) c []
      | w # ws \<Rightarrow> if take 9 w = ''--config='' then walk (rt_Command root) (c\<lparr>cx_ConfigPath := drop 9 w\<rparr>) ws
                 else walk (rt_Command root) c (w # ws))"

lemma walk_path:
  "sub_command k path = Some k' \<Longrightarrow> rest = [] \<or> sub_command k' [hd rest] = None \<Longrightarrow> walk k c (path @ rest) = cmd_RunE k' c rest"
proof (induction path arbitrary: k)
  case Nil
  then show ?case by (cases rest) (auto split: option.splits)
qed (auto split: option.splits)

lemma walker_dispatches: "dispatches walker"
  unfolding dispatches_def
proof (intro allI impI)
  fix root c os config path rest k
  assume *: "fst (rt_ConfigFlag root) = ''config'' \<and> distinct_names (rt_Command root) \<and>
        given root os = config_args config @ path @ rest \<and> list_all word (path @ rest) \<and>
        sub_command (rt_Command root) path = Some k \<and> accepts k path rest"
  have "word w \<Longrightarrow> take 9 w \<noteq> ''--config=''" for w by (cases w) auto
  with * have "walker root c os = walk (rt_Command root) (with_config config c) (path @ rest)"
    by (cases config; cases "path @ rest") (auto simp: walker_def split: list.split)
  also have "... = cmd_RunE k (with_config config c) rest"
    using walk_path [of "rt_Command root" path k rest] * by (simp add: accepts_def)
  finally show "walker root c os = cmd_RunE k (with_config config c) rest" .
qed

section \<open>Properties\<close>


definition demo_process :: "string list \<Rightarrow> process" where
  "demo_process args = \<lparr>ps_Stdout = 1, ps_Stderr = 2, ps_Logger = 0, ps_Args = args, ps_race = Signalled, ps_halt = None\<rparr>"

definition demo_options :: "migrate_func \<Rightarrow> cli_options" where
  "demo_options factory =
     \<lparr>co_Name = ''sample'', co_Short = [], co_Args = None, co_DefaultConfigPath = [], co_Logger = None, co_Stdout = None,
      co_Stderr = None, co_VersionText = None, co_Server = None, co_Migrate = Some factory, co_Commands = [], co_Configure = None\<rparr>"


end
