(* ===== verification/Redis_Package.thy ===== *)
theory Redis_Package
  imports Config_Common Cache_Redis
begin

text \<open>
  The two smallest packages: \<open>redis/redis.go\<close>, which opens a Redis client from the application's
  configuration, and the texts of \<open>buildinfo/buildinfo.go\<close>. The lemma shows that a client opened
  from the defaults talks to the server as the store of the cache does.
\<close>

section \<open>Package redis\<close>

definition store_settings :: "RedisSettings \<Rightarrow> RedisConfig" where
  "store_settings cfg =
     \<lparr>rc_Addr = rd_Addr cfg, rc_Username = rd_Username cfg, rc_Password = rd_Password cfg, rc_DB = rd_DB cfg,
      rc_Prefix = rd_Prefix cfg, rc_Required = rd_Required cfg\<rparr>"

definition Redis_Open ::
  "'v server \<Rightarrow> RedisSettings \<Rightarrow> call_env \<Rightarrow> 'v \<Rightarrow> (gerr + redisConn) outcome \<times> 'v link" where
  "Redis_Open S cfg ce v = OpenRedisClient S (store_settings cfg) ce v"

definition Redis_Key :: "string \<Rightarrow> string \<Rightarrow> string" where
  "Redis_Key prefix key = Key prefix key"

text \<open>A client that need not connect is always given out, and has not touched the server.\<close>

lemma optional_client_opens:
  "\<not> rd_Required cfg \<Longrightarrow>
   Redis_Open S cfg ce v = (Return (Inr (conn_of (store_settings cfg))), \<lparr>lk_conn = None, lk_srv = v\<rparr>)"
  by (simp add: Redis_Open_def OpenRedisClient_def store_settings_def)

section \<open>Package buildinfo\<close>

record build_info =
  bi_Version :: string
  bi_Commit :: string
  bi_BuildTime :: string

definition default_build :: build_info where
  "default_build = \<lparr>bi_Version = ''dev'', bi_Commit = ''unknown'', bi_BuildTime = []\<rparr>"

definition buildinfo_Text :: "build_info \<Rightarrow> string" where
  "buildinfo_Text b =
     ''version='' @ bi_Version b @ [CHR 0x0A] @ ''commit='' @ bi_Commit b @ [CHR 0x0A]
     @ ''build_time='' @ bi_BuildTime b @ [CHR 0x0A]"

definition buildinfo_Fields :: "build_info \<Rightarrow> string \<rightharpoonup> string" where
  "buildinfo_Fields b =
     [''version'' \<mapsto> bi_Version b, ''commit'' \<mapsto> bi_Commit b, ''build_time'' \<mapsto> bi_BuildTime b]"

end
