(* ===== verification/Cache_Redis_Shared.thy ===== *)
theory Cache_Redis_Shared
  imports Cache_Redis Cache_RateLimit
begin

text \<open>
  Several processes on one Redis server: each has a \<open>redisConn\<close> of its own, their commands reach
  the server in any order, and any call may fail, be cut short or time out. The lemmas show what
  still holds then: a limit of \<open>cache/rate_limit.go\<close> is kept across processes, and a value is
  taken by one of them only. A command that the server runs after its caller gave up is one more
  command of another process.
\<close>

section \<open>Processes\<close>

text \<open>The connections of the processes and the server; one step is one call of \<open>Do\<close> by one process.\<close>

record 'v shared =
  sh_conn :: "nat \<Rightarrow> bytes option"
  sh_srv :: 'v

type_synonym request = "nat \<times> call_env \<times> rarg list"

fun shared_run ::
  "'v server \<Rightarrow> (nat \<Rightarrow> redisConn) \<Rightarrow> request list \<Rightarrow> 'v shared \<Rightarrow> (gerr + rvalue) outcome list \<times> 'v shared" where
  "shared_run S cn [] s = ([], s)"
| "shared_run S cn ((i, ce, args) # reqs) s =
     (case redis_Do S (cn i) ce args \<lparr>lk_conn = sh_conn s i, lk_srv = sh_srv s\<rparr> of (r, l) \<Rightarrow>
      case shared_run S cn reqs \<lparr>sh_conn = (sh_conn s)(i := lk_conn l), sh_srv = lk_srv l\<rparr> of (rs, s) \<Rightarrow> (r # rs, s))"

text \<open>What the server sees of a request and what the process gets: the time, the command, the result.\<close>

type_synonym seen_call = "time \<times> rarg list \<times> (gerr + rvalue) outcome"

fun seen_calls :: "request list \<Rightarrow> (gerr + rvalue) outcome list \<Rightarrow> seen_call list" where
  "seen_calls ((i, ce, args) # reqs) (r # rs) = (ex_time (ce_command ce), args, r) # seen_calls reqs rs"
| "seen_calls _ _ = []"

definition fair_request :: "request \<Rightarrow> bool" where
  "fair_request rq \<longleftrightarrow> fair_call (snd rq)"

section \<open>Each command is run once or not at all\<close>

context command_server
begin

fun history :: "seen_call list \<Rightarrow> 'v \<Rightarrow> 'v \<Rightarrow> bool" where
  "history [] v v' \<longleftrightarrow> v' = v"
| "history ((t, args, r) # xs) v v' \<longleftrightarrow> (\<exists>u. ran_once t args v u r \<and> history xs u v')"

lemma shared_history:
  assumes "good (sh_srv s)" "\<forall>i. sh_conn s i = None \<or> sh_conn s i = Some []"
    and "\<forall>i. neutral (handshake (cn i))" "list_all fair_request reqs"
    and "shared_run (wired K) cn reqs s = (rs, s')"
  shows "length rs = length reqs \<and> history (seen_calls reqs rs) (sh_srv s) (sh_srv s')"
  using assms
proof (induction reqs arbitrary: s rs)
  case (Cons rq reqs)
  obtain i ce args where rq: "rq = (i, ce, args)" by (cases rq)
  obtain r l where d: "redis_Do (wired K) (cn i) ce args \<lparr>lk_conn = sh_conn s i, lk_srv = sh_srv s\<rparr> = (r, l)" by fastforce
  obtain rs1 where rest: "shared_run (wired K) cn reqs \<lparr>sh_conn = (sh_conn s)(i := lk_conn l), sh_srv = lk_srv l\<rparr> = (rs1, s')"
    and rs: "rs = r # rs1"
    using Cons.prems(5) rq d by (auto split: prod.splits)
  have "in_step good \<lparr>lk_conn = sh_conn s i, lk_srv = sh_srv s\<rparr>"
    using Cons.prems(1,2) by (simp add: in_step_def)
  from Do_ran_once [OF this _ _ _ _ _ d] Cons.prems(3,4) rq
  have 1: "in_step good l" "ran_once (ex_time (ce_command ce)) args (sh_srv s) (lk_srv l) r"
    by (auto simp: fair_request_def fair_call_def)
  have "length rs1 = length reqs \<and> history (seen_calls reqs rs1) (lk_srv l) (sh_srv s')"
    using Cons.IH [OF _ _ Cons.prems(3) _ rest] 1(1) Cons.prems(2,4) by (auto simp: in_step_def)
  with 1(2) rq rs show ?case by auto
qed simp

end

section \<open>The documented commands\<close>

text \<open>
  What the commands of the limiter and of \<open>Take\<close> are documented to do to the entries of the
  server, and that \<open>AUTH\<close> and \<open>PING\<close> do nothing to them.
\<close>

locale redis_server = command_server K good
  for K :: "time \<Rightarrow> bytes list \<Rightarrow> 'v \<Rightarrow> resp \<times> 'v" and good :: "'v \<Rightarrow> bool" +
  fixes view :: "'v \<Rightarrow> string \<rightharpoonup> entry"
  assumes hello: "as \<in> {[''PING''], [''AUTH'', pw], [''AUTH'', user, pw]} \<Longrightarrow> snd (K t as v) = v"
    and take_run: "good v \<Longrightarrow> K t (map redisArgBytes (take_command k)) v = (reply, v') \<Longrightarrow>
      meaning True reply = bulk_or_nil (live (view v) t k) \<and> same_from t ((view v)(k := None)) (view v')"
    and increment_run: "good v \<Longrightarrow>
      (case live (view v) t k of None \<Rightarrow> n = 0 \<and> y = None | Some (s, x) \<Rightarrow> s = FormatInt n \<and> y = x) \<Longrightarrow>
      - (2 ^ 63) \<le> sint n + sint delta \<Longrightarrow> sint n + sint delta < 2 ^ 63 \<Longrightarrow>
      K t (map redisArgBytes (increment_command k delta d)) v = (reply, v') \<Longrightarrow>
      (\<exists>x. reply = RInteger (n + delta) \<and>
        same_from t ((view v)(k \<mapsto> (FormatInt (n + delta), x))) (view v') \<and>
        (if 0 < sint (redisTTLMillis d) then \<exists>u. x = Some u \<and> near t (redisTTLMillis d) u else x = y))"

text \<open>A command that leaves a key alone, and one that can create it.\<close>

definition spares ::
  "(time \<Rightarrow> bytes list \<Rightarrow> 'v \<Rightarrow> resp \<times> 'v) \<Rightarrow> ('v \<Rightarrow> bool) \<Rightarrow> ('v \<Rightarrow> string \<rightharpoonup> entry) \<Rightarrow> string \<Rightarrow> rarg list \<Rightarrow> bool" where
  "spares K good view k args \<longleftrightarrow>
     (\<forall>t v u. good v \<and> t \<le> u \<longrightarrow> live (view (snd (K t (map redisArgBytes args) v))) u k = live (view v) u k)"

definition creates ::
  "(time \<Rightarrow> bytes list \<Rightarrow> 'v \<Rightarrow> resp \<times> 'v) \<Rightarrow> ('v \<Rightarrow> bool) \<Rightarrow> ('v \<Rightarrow> string \<rightharpoonup> entry) \<Rightarrow> string \<Rightarrow> rarg list \<Rightarrow> bool" where
  "creates K good view k args \<longleftrightarrow>
     (\<exists>t v u. good v \<and> t \<le> u \<and> live (view v) u k = None \<and> live (view (snd (K t (map redisArgBytes args) v))) u k \<noteq> None)"

text \<open>What a hit of the limiter sends: an increment by one, then \<open>PTTL\<close>.\<close>

lemma Hit_commands:
  assumes "rcl_Do (rs_client rs) e1 (increment_command (redis_key rs (limiter_key p k)) 1 w) s = (Inr v, s1)"
    and "rcl_Do (rs_client rs) e2 [ArgString ''PTTL'', ArgString (redis_key rs (limiter_key p k))] s1 = (Inr u, s2)"
    and "pttl_result (redisInt64 u) = Inr d"
  shows "Hit (redis_cache rs) p (e1, e2) k lim w s =
    (Inr \<lparr>rl_Key = limiter_key p k, rl_Count = redisInt64 v, rl_Limit = lim, rl_TTL = d\<rparr>, s2)"
  using assms by (simp add: Hit_def redis_cache_def Redis_Increment_def Redis_TTL_def miss_as_zero_def)

section \<open>A limit across processes\<close>

text \<open>
  The counter of a key from \<open>t\<close> to \<open>hi\<close>: the key is absent and the count is 0, or it holds the
  decimal form of the count and does not expire before \<open>hi\<close>.
\<close>

definition counter :: "time \<Rightarrow> time \<Rightarrow> string \<Rightarrow> (string \<rightharpoonup> entry) \<Rightarrow> nat \<Rightarrow> bool" where
  "counter t hi k m c \<longleftrightarrow>
     (c = 0 \<and> (\<forall>u. t \<le> u \<and> u \<le> hi \<longrightarrow> live m u k = None)) \<or>
     (\<exists>x. \<forall>u. t \<le> u \<and> u \<le> hi \<longrightarrow> live m u k = Some (FormatInt (of_nat c), x))"

lemma counter_later: "counter t hi k m c \<Longrightarrow> t \<le> t' \<Longrightarrow> counter t' hi k m c"
  unfolding counter_def by (meson order_trans)

lemma counter_same:
  assumes "counter t hi k m c" "\<And>u. t \<le> u \<Longrightarrow> live m' u k = live m u k"
  shows "counter t hi k m' c"
  using assms by (simp add: counter_def)

lemma counterE:
  assumes "counter t hi k m c" "t \<le> hi"
  obtains (absent) "c = 0" "live m t k = None"
    | (present) x where "\<And>u. t \<le> u \<Longrightarrow> u \<le> hi \<Longrightarrow> live m u k = Some (FormatInt (of_nat c), x)"
  using assms(1) unfolding counter_def
proof
  assume "c = 0 \<and> (\<forall>u. t \<le> u \<and> u \<le> hi \<longrightarrow> live m u k = None)"
  with assms(2) absent show thesis by simp
next
  assume "\<exists>x. \<forall>u. t \<le> u \<and> u \<le> hi \<longrightarrow> live m u k = Some (FormatInt (of_nat c), x)"
  then obtain x where "\<forall>u. t \<le> u \<and> u \<le> hi \<longrightarrow> live m u k = Some (FormatInt (of_nat c), x)" ..
  with present show thesis by simp
qed

lemma sint_of_nat64: "c < 2 ^ 63 \<Longrightarrow> sint (of_nat c :: int64) = int c"
  using sint_of_int64 [of "int c"] by simp

definition in_window :: "time \<Rightarrow> time \<Rightarrow> duration \<Rightarrow> bool" where
  "in_window lo hi w \<longleftrightarrow> (0 < sint w \<longrightarrow> hi + 2 * millisecond \<le> lo + sint w)"

lemma redisTTLMillis_pos: "0 < sint (redisTTLMillis w) \<longleftrightarrow> 0 < sint w"
proof (cases "0 < sint w")
  case True
  with redisTTLMillis_bounds(1) [OF True] show ?thesis by simp
next
  case False
  then have "redisTTLMillis w = Milliseconds w" by (simp add: redisTTLMillis_def Let_def)
  moreover have "sint w sdiv millisecond \<le> 0"
    using False by (simp add: signed_divide_int_def millisecond_def sgn_if) linarith
  ultimately show ?thesis using False by (simp add: sint_Milliseconds)
qed

text \<open>The numbers that hits of a key got back, in the order of the calls.\<close>

fun counts :: "rarg list \<Rightarrow> seen_call list \<Rightarrow> int64 list" where
  "counts hit [] = []"
| "counts hit ((t, args, r) # xs) =
     (case r of Return (Inr (VInt n)) \<Rightarrow> if args = hit then n # counts hit xs else counts hit xs
      | _ \<Rightarrow> counts hit xs)"

lemma counts_skip: "args \<noteq> hit \<or> \<not> (\<exists>y. r = Return (Inr y)) \<Longrightarrow> counts hit ((t, args, r) # xs) = counts hit xs"
  by (simp split: outcome.split sum.split rvalue.split)

text \<open>The times at the server do not decrease, from \<open>lo\<close> on.\<close>

definition in_order :: "time \<Rightarrow> seen_call list \<Rightarrow> bool" where
  "in_order lo xs \<longleftrightarrow> sorted (lo # map fst xs)"

lemma in_order_Cons [simp]: "in_order lo ((t, args, r) # xs) \<longleftrightarrow> lo \<le> t \<and> in_order t xs"
  by (auto simp: in_order_def)

context redis_server
begin

definition limiter_call :: "string \<Rightarrow> duration \<Rightarrow> time \<Rightarrow> seen_call \<Rightarrow> bool" where
  "limiter_call k w hi c \<longleftrightarrow>
     (case c of (t, args, r) \<Rightarrow> t \<le> hi \<and> (args = increment_command k 1 w \<or> spares K good view k args))"

lemma counter_increment:
  assumes "good v" "counter t hi k (view v) c" "t \<le> hi" "in_window t hi w" "int c < 2 ^ 62"
  shows "\<exists>v'. K t (map redisArgBytes (increment_command k 1 w)) v = (RInteger (of_nat (Suc c)), v') \<and>
    counter t hi k (view v') (Suc c)"
proof -
  obtain reply v' where run: "K t (map redisArgBytes (increment_command k 1 w)) v = (reply, v')" by fastforce
  obtain y where y: "case live (view v) t k of None \<Rightarrow> of_nat c = (0 :: int64) \<and> y = None
      | Some (s, x) \<Rightarrow> s = FormatInt (of_nat c) \<and> y = x" "\<forall>u z. t \<le> u \<and> u \<le> hi \<and> y = Some z \<longrightarrow> u < z"
    using assms(2,3)
  proof (cases rule: counterE)
    case absent
    with that [of None] show thesis by simp
  next
    case (present x)
    have "u < z" if "t \<le> u" "u \<le> hi" "x = Some z" for u z
      using present [OF that(1,2)] that(3) by (auto simp: live_def alive_def split: option.splits if_splits)
    with present [of t] assms(3) that [of x] show thesis by simp
  qed
  have c: "sint (of_nat c :: int64) = int c" by (rule sint_of_nat64) (use assms(5) in simp)
  from increment_run [OF assms(1) y(1) _ _ run] assms(5) c obtain x where
    x: "reply = RInteger (of_nat c + 1)" "same_from t ((view v)(k \<mapsto> (FormatInt (of_nat c + 1), x))) (view v')"
    "if 0 < sint (redisTTLMillis w) then \<exists>u. x = Some u \<and> near t (redisTTLMillis w) u else x = y" by auto
  have "u < z" if "t \<le> u" "u \<le> hi" "x = Some z" for u z
  proof (cases "0 < sint w")
    case True
    with x(3) that(3) have "near t (redisTTLMillis w) z" by (simp add: redisTTLMillis_pos)
    from near_bounds(1) [OF this True] assms(4) True that(2) show ?thesis by (simp add: in_window_def)
  next
    case False
    with x(3) y(2) that show ?thesis by (simp add: redisTTLMillis_pos)
  qed
  then have "live (view v') u k = Some (FormatInt (of_nat (Suc c)), x)" if "t \<le> u" "u \<le> hi" for u
    using that same_from_live [OF x(2) that(1), of k]
    by (auto simp: live_upd alive_def add.commute split: option.split)
  then have "counter t hi k (view v') (Suc c)" unfolding counter_def by blast
  with run x(1) show ?thesis by (auto simp: add.commute)
qed

lemma in_window_later: "in_window lo hi w \<Longrightarrow> lo \<le> t \<Longrightarrow> in_window t hi w"
  by (auto simp: in_window_def)

lemma history_counts:
  assumes "history xs v v'" "good v" "counter lo hi k (view v) c" "list_all (limiter_call k w hi) xs" "in_order lo xs"
    and "in_window lo hi w" "int c + int (length xs) < 2 ^ 62"
  shows "\<exists>ns. counts (increment_command k 1 w) xs = map of_nat ns \<and> sorted_wrt (<) ns \<and> set ns \<subseteq> {c <.. c + length xs}"
  using assms
proof (induction xs arbitrary: v c lo)
  case (Cons x xs)
  obtain t args r where x: "x = (t, args, r)" by (cases x)
  let ?hit = "increment_command k 1 w"
  from Cons.prems(1) x obtain u where u: "ran_once t args v u r" "history xs u v'" by auto
  have good: "good u" using u(1) run [OF Cons.prems(2), of t "map redisArgBytes args"] Cons.prems(2)
    by (auto simp: ran_once_def)
  have t: "lo \<le> t" "t \<le> hi" "in_order t xs" using Cons.prems(4,5) x by (simp_all add: limiter_call_def)
  note window = in_window_later [OF Cons.prems(6) t(1)]
  note before = counter_later [OF Cons.prems(3) t(1)]
  have rest: "list_all (limiter_call k w hi) xs" "int c + int (length xs) < 2 ^ 62" "int (Suc c) + int (length xs) < 2 ^ 62"
    using Cons.prems(4,7) by auto
  show ?case
  proof (cases "args = ?hit")
    case True
    from counter_increment [OF Cons.prems(2) before t(2) window] Cons.prems(7) obtain v1 where
      v1: "K t (map redisArgBytes ?hit) v = (RInteger (of_nat (Suc c)), v1)" "counter t hi k (view v1) (Suc c)" by auto
    show ?thesis
    proof (cases "\<exists>y. r = Return (Inr y)")
      case True
      with u(1) v1(1) \<open>args = ?hit\<close> have r: "r = Return (Inr (VInt (of_nat (Suc c))))" "u = v1"
        by (auto simp: ran_once_def)
      from v1(2) r(2) have "counter t hi k (view u) (Suc c)" by simp
      from Cons.IH [OF u(2) good this rest(1) t(3) window rest(3)] obtain ns where
        ns: "counts ?hit xs = map of_nat ns" "sorted_wrt (<) ns" "set ns \<subseteq> {Suc c <.. Suc c + length xs}" by blast
      show ?thesis
        by (rule exI [of _ "Suc c # ns"]) (use x \<open>args = ?hit\<close> r(1) ns in auto)
    next
      case False
      have none: "counts ?hit (x # xs) = counts ?hit xs"
        unfolding x by (rule counts_skip) (use False in simp)
      from u(1) v1(1) \<open>args = ?hit\<close> have "u = v \<or> u = v1" by (auto simp: ran_once_def)
      then have "\<exists>c'. c \<le> c' \<and> c' \<le> Suc c \<and> counter t hi k (view u) c'"
        using before v1(2) by (meson le_Suc_eq order_refl)
      then obtain c' where c': "c \<le> c'" "c' \<le> Suc c" "counter t hi k (view u) c'" by blast
      have "int c' + int (length xs) < 2 ^ 62" using c'(2) rest(3) by simp
      from Cons.IH [OF u(2) good c'(3) rest(1) t(3) window this] obtain ns where
        ns: "counts ?hit xs = map of_nat ns" "sorted_wrt (<) ns" "set ns \<subseteq> {c' <.. c' + length xs}" by blast
      have "{c' <.. c' + length xs} \<subseteq> {c <.. c + length (x # xs)}" using c'(1,2) by auto
      with ns none show ?thesis by (intro exI [of _ ns]) auto
    qed
  next
    case False
    have none: "counts ?hit (x # xs) = counts ?hit xs"
      unfolding x by (rule counts_skip) (use False in simp)
    have "spares K good view k args" using Cons.prems(4) x False by (simp add: limiter_call_def)
    then have "live (view u) z k = live (view v) z k" if "t \<le> z" for z
      using that u(1) Cons.prems(2) by (auto simp: ran_once_def spares_def)
    from counter_same [OF before this] have "counter t hi k (view u) c" .
    from Cons.IH [OF u(2) good this rest(1) t(3) window rest(2)] obtain ns where
      ns: "counts ?hit xs = map of_nat ns" "sorted_wrt (<) ns" "set ns \<subseteq> {c <.. c + length xs}" by blast
    have "{c <.. c + length xs} \<subseteq> {c <.. c + length (x # xs)}" by auto
    with ns none show ?thesis by (intro exI [of _ ns]) auto
  qed
qed simp

end

section \<open>Taking across processes\<close>

text \<open>The takes of a key that brought a value, and the commands that can have stored one.\<close>

definition takes_of :: "string \<Rightarrow> seen_call list \<Rightarrow> nat" where
  "takes_of k xs = length (filter (\<lambda>(t, args, r). args = take_command k \<and> (\<exists>y. r = Return (Inr y))) xs)"

definition stores_of ::
  "(time \<Rightarrow> bytes list \<Rightarrow> 'v \<Rightarrow> resp \<times> 'v) \<Rightarrow> ('v \<Rightarrow> bool) \<Rightarrow> ('v \<Rightarrow> string \<rightharpoonup> entry) \<Rightarrow> string \<Rightarrow> seen_call list \<Rightarrow> nat" where
  "stores_of K good view k xs = length (filter (\<lambda>(t, args, r). creates K good view k args) xs)"

definition held :: "time \<Rightarrow> string \<Rightarrow> (string \<rightharpoonup> entry) \<Rightarrow> nat" where
  "held t k m = (if live m t k = None then 0 else 1)"

lemma held_later: "t \<le> t' \<Longrightarrow> held t' k m \<le> held t k m"
  using dead_mono [of m t k t'] by (auto simp: held_def)

context redis_server
begin

lemma take_creates_nothing: "\<not> creates K good view k (take_command k')"
proof
  assume "creates K good view k (take_command k')"
  then obtain t v u where *: "good v" "t \<le> u" "live (view v) u k = None"
    "live (view (snd (K t (map redisArgBytes (take_command k')) v))) u k \<noteq> None"
    by (auto simp: creates_def)
  obtain reply v' where "K t (map redisArgBytes (take_command k')) v = (reply, v')" by fastforce
  with take_run [OF *(1) this] same_from_live [of t "(view v)(k' := None)" "view v'" u k] * show False
    by (auto simp: live_upd split: if_splits)
qed

lemma ran_once_held:
  assumes "good v" "ran_once t args v u r" "t \<le> t'"
  shows "takes_of k [(t, args, r)] + held t' k (view u) \<le> stores_of K good view k [(t, args, r)] + held t k (view v)"
proof (cases "args = take_command k \<and> (\<exists>y. r = Return (Inr y))")
  case True
  obtain reply v' where run: "K t (map redisArgBytes (take_command k)) v = (reply, v')" by fastforce
  with True assms(2) obtain y where y: "u = v'" "meaning True reply = Inr y"
    by (auto simp: ran_once_def)
  from take_run [OF assms(1) run] y have gone: "same_from t ((view v)(k := None)) (view u)"
    and live: "bulk_or_nil (live (view v) t k) = Inr y" by auto
  have "live (view v) t k \<noteq> None" using live by (cases "live (view v) t k") (simp_all add: bulk_or_nil_def)
  moreover have "live (view u) t' k = None"
    using same_from_live [OF gone assms(3), of k] by (simp add: live_upd)
  ultimately show ?thesis by (auto simp: takes_of_def held_def)
next
  case False
  have "creates K good view k args" if "live (view v) t' k = None" "live (view u) t' k \<noteq> None"
  proof -
    have "u = snd (K t (map redisArgBytes args) v)" using that assms(2) by (auto simp: ran_once_def)
    with that assms(1,3) show ?thesis unfolding creates_def by blast
  qed
  then have "held t' k (view u) \<le> stores_of K good view k [(t, args, r)] + held t' k (view v)"
    by (auto simp: stores_of_def held_def)
  moreover have "takes_of k [(t, args, r)] = 0" using False by (auto simp: takes_of_def)
  ultimately show ?thesis using held_later [OF assms(3), of k "view v"] by simp
qed

lemma history_takes:
  assumes "history xs v v'" "good v" "in_order t xs"
  shows "takes_of k xs \<le> stores_of K good view k xs + held t k (view v)"
  using assms
proof (induction xs arbitrary: v t)
  case (Cons x xs)
  obtain t1 args r where x: "x = (t1, args, r)" by (cases x)
  from Cons.prems(1) x obtain u where u: "ran_once t1 args v u r" "history xs u v'" by auto
  have good: "good u" using u(1) run [OF Cons.prems(2), of t1 "map redisArgBytes args"] Cons.prems(2)
    by (auto simp: ran_once_def)
  have order: "t \<le> t1" "in_order t1 xs" using Cons.prems(3) x by simp_all
  have "takes_of k (x # xs) = takes_of k [x] + takes_of k xs"
    "stores_of K good view k (x # xs) = stores_of K good view k [x] + stores_of K good view k xs"
    by (simp_all add: takes_of_def stores_of_def)
  with ran_once_held [OF Cons.prems(2) u(1) order_refl, of k] Cons.IH [OF u(2) good order(2)] x
    held_later [OF order(1), of k "view v"]
  show ?case by simp
qed (simp add: takes_of_def)

text \<open>The connections the lemmas are about: no database is selected, so all see the same entries.\<close>

lemma handshake_neutral: "fair_conn cn \<Longrightarrow> rn_db cn = 0 \<Longrightarrow> neutral (handshake cn)"
  using hello by (auto simp: neutral_def fair_conn_def handshake_def)

end

section \<open>The small server is one\<close>

interpretation kv_shared: redis_server kv_run kv_inv kv_abs
proof
  show "snd (kv_run t as v) = v" if "as \<in> {[''PING''], [''AUTH'', pw], [''AUTH'', user, pw]}" for as pw user t v
    using that by (auto simp: kv_run_def)
next
  fix v t k reply v'
  assume "kv_inv v" "kv_run t (map redisArgBytes (take_command k)) v = (reply, v')"
  then show "meaning True reply = bulk_or_nil (live (kv_abs v) t k) \<and> same_from t ((kv_abs v)(k := None)) (kv_abs v')"
    by (auto simp: kv_run_eval bulk_or_nil_kv kv_live_abs kv_abs_del)
next
  fix v t k n y delta d reply v'
  assume a: "kv_inv v" "case live (kv_abs v) t k of None \<Rightarrow> n = 0 \<and> y = None | Some (s, x) \<Rightarrow> s = FormatInt n \<and> y = x"
    "- (2 ^ 63) \<le> sint n + sint delta" "sint n + sint delta < 2 ^ 63"
    "kv_run t (map redisArgBytes (increment_command k delta d)) v = (reply, v')"
  let ?p = "redisTTLMillis d"
  obtain z where z: "case kv_live t v k of None \<Rightarrow> n = 0 \<and> z = None | Some (s, x) \<Rightarrow> s = FormatInt n \<and> z = x"
    "y = map_option (\<lambda>ms. ms * millisecond) z"
    using a(2) by (cases "kv_live t v k") (auto simp: kv_live_abs kv_entry_def)
  show "\<exists>x. reply = RInteger (n + delta) \<and> same_from t ((kv_abs v)(k \<mapsto> (FormatInt (n + delta), x))) (kv_abs v') \<and>
      (if 0 < sint ?p then \<exists>u. x = Some u \<and> near t ?p u else x = y)"
    using a(5) z(2) kv_increment_ok [OF z(1) a(3,4), of ?p]
    by (intro exI [of _ "if 0 < sint ?p then Some (kv_at t ?p * millisecond) else y"])
      (auto simp: kv_run_eval kv_abs_upd near_kv_at)
qed

section \<open>Properties\<close>

definition fresh_shared :: "'v \<Rightarrow> 'v shared" where
  "fresh_shared v = \<lparr>sh_conn = (\<lambda>_. None), sh_srv = v\<rparr>"

lemma length_seen_calls: "length rs = length reqs \<Longrightarrow> length (seen_calls reqs rs) = length reqs"
  by (induction reqs rs rule: seen_calls.induct) auto

lemma fresh_history:
  assumes "redis_server K good view" "good v" "\<forall>i. fair_conn (cn i) \<and> rn_db (cn i) = 0" "list_all fair_request reqs"
    and "shared_run (wired K) cn reqs (fresh_shared v) = (rs, s)"
  shows "length (seen_calls reqs rs) = length reqs"
    and "command_server.history K (seen_calls reqs rs) v (sh_srv s)"
proof -
  have server: "command_server K good" using assms(1) by (simp add: redis_server_def)
  have "\<forall>i. command_server.neutral K (handshake (cn i))"
    using redis_server.handshake_neutral [OF assms(1)] assms(3) by blast
  from command_server.shared_history [OF server _ _ this assms(4,5)] assms(2)
  show "length (seen_calls reqs rs) = length reqs" "command_server.history K (seen_calls reqs rs) v (sh_srv s)"
    by (simp_all add: fresh_shared_def length_seen_calls)
qed

lemma few_small_numbers:
  assumes "sorted_wrt (<) (ns :: nat list)" "set ns \<subseteq> {0 <..}"
  shows "length (filter (\<lambda>n. n \<le> L) ns) \<le> L"
proof -
  have "distinct ns" using assms(1) by (simp add: strict_sorted_iff)
  then have "length (filter (\<lambda>n. n \<le> L) ns) = card (set (filter (\<lambda>n. n \<le> L) ns))"
    by (metis distinct_card distinct_filter)
  also have "\<dots> \<le> card {1 .. L}"
    by (rule card_mono) (use assms(2) in auto)
  finally show ?thesis by simp
qed

text \<open>A call of the limiter on a key: a hit, or a command that leaves the key alone.\<close>

definition limiter_calls ::
  "(time \<Rightarrow> bytes list \<Rightarrow> 'v \<Rightarrow> resp \<times> 'v) \<Rightarrow> ('v \<Rightarrow> bool) \<Rightarrow> ('v \<Rightarrow> string \<rightharpoonup> entry) \<Rightarrow> string \<Rightarrow> duration \<Rightarrow>
   time \<Rightarrow> time \<Rightarrow> seen_call list \<Rightarrow> bool" where
  "limiter_calls K good view k w lo hi xs \<longleftrightarrow>
     in_order lo xs \<and> list_all (\<lambda>(t, args, r). t \<le> hi \<and> (args = increment_command k 1 w \<or> spares K good view k args)) xs"


text \<open>Two processes; the answer to the second hit is cut off.\<close>

definition cut_call :: "time \<Rightarrow> call_env" where
  "cut_call t = (calm_call t)\<lparr>ce_command := (calm t)\<lparr>ex_cut := Some 2\<rparr>\<rparr>"

definition demo_hits :: "request list" where
  "demo_hits =
     [(0, calm_call 1, increment_command ''k'' 1 0), (1, cut_call 2, increment_command ''k'' 1 0),
      (0, calm_call 3, increment_command ''k'' 1 0)]"

definition demo_takes :: "request list" where
  "demo_takes = [(0, calm_call 1, take_command ''k''), (1, cut_call 2, take_command ''k''), (2, calm_call 3, take_command ''k'')]"

lemma call_times [simp]: "ex_time (ce_command (cut_call t)) = t" "ex_time (ce_command (calm_call t)) = t"
  by (simp_all add: cut_call_def calm_call_def calm_def)

lemma cut_call_plain [simp]: "plain (ce_command (cut_call t))" "plain (ce_shake (cut_call t) i)"
  by (simp_all add: cut_call_def calm_call_def) (simp_all add: plain_def calm_def from_network_def)

lemma fair_calm: "sized args \<Longrightarrow> args \<noteq> [] \<Longrightarrow> fair_request (i, calm_call t, args) \<and> fair_request (i, cut_call t, args)"
  by (simp add: fair_request_def fair_call_def) (simp add: calm_call_def)

lemma sized_scripts: "sized (increment_command ''k'' 1 0)" "sized (take_command ''k'')"
proof -
  have "length incrementScript \<le> 200" "length takeScript \<le> 200" by code_simp+
  then show "sized (increment_command ''k'' 1 0)" "sized (take_command ''k'')"
    using length_FormatInt_le by (simp_all add: sized_def increment_command_def take_command_def max_alloc_def FormatInt_digit)
qed

lemma fair_demos: "list_all fair_request demo_hits" "list_all fair_request demo_takes"
  "fair_conn local_conn \<and> rn_db local_conn = 0"
proof -
  show "list_all fair_request demo_hits"
    using fair_calm [OF sized_scripts(1)] by (simp add: demo_hits_def) (simp add: increment_command_def)
  show "list_all fair_request demo_takes"
    using fair_calm [OF sized_scripts(2)] by (simp add: demo_takes_def) (simp add: take_command_def)
  show "fair_conn local_conn \<and> rn_db local_conn = 0"
    by (simp add: fair_conn_def handshake_def sized_def max_alloc_def)
qed




end
