(* ===== verification/Cache_Outage.thy ===== *)
theory Cache_Outage
  imports Cache_Equivalence Cache_Redis
begin

text \<open>
  The two levels of \<open>cache/fallback.go\<close> while the primary is down, as when Redis cannot be
  reached: the fallback alone serves every call. The lemmas hold for any two stores; the Redis
  store of \<open>cache/redis.go\<close> in front of memory is the instance.
\<close>

section \<open>A store that is down\<close>

fun failed :: "answer \<Rightarrow> bool" where
  "failed (ABytes r) = isl r"
| "failed (AError e) = (e \<noteq> None)"
| "failed (ABool r) = isl r"
| "failed (AInt r) = isl r"
| "failed (ATime r) = isl r"

text \<open>Every call fails and leaves the store in a state (\<open>D\<close>) in which the next will fail too.\<close>

definition out_of_order :: "('e, 's) cache \<Rightarrow> ('s \<Rightarrow> bool) \<Rightarrow> 'e \<Rightarrow> bool" where
  "out_of_order C D e \<longleftrightarrow> (\<forall>p s. D s \<longrightarrow> failed (fst (perform C e p s)) \<and> D (snd (perform C e p s)))"

lemma isl_Ex: "isl r \<longleftrightarrow> (\<exists>err. r = Inl err)"
  by (cases r) simp_all

text \<open>A Redis store that has no connection and cannot dial.\<close>

lemma redis_unreachable:
  assumes "ce_dial e = Some err" "lk_conn l = None" "args \<noteq> []"
  shows "rcl_Do (conn_client S cn answer) e args l =
    (Inl (case ce_ctx e of None \<Rightarrow> Wrapf ''dial redis: %w'' err [] | Some err \<Rightarrow> err), l)"
  using assms by (cases "ce_ctx e") (simp_all add: conn_client_def redis_Do_def connectLocked_def)

lemma commands_not_empty:
  "get_command k \<noteq> []" "set_command k v d \<noteq> []" "take_command k \<noteq> []" "increment_command k n d \<noteq> []"
  by (simp_all add: get_command_def set_command_def take_command_def increment_command_def)

lemma redis_down:
  assumes "ce_dial e = Some err"
  shows "out_of_order (redis_cache (NewRedis (conn_client S cn answer) prefix)) (\<lambda>l. lk_conn l = None) e"
  unfolding out_of_order_def
proof (intro allI impI)
  fix p and l :: "'a link"
  assume "lk_conn l = None"
  then show "failed (fst (perform (redis_cache (NewRedis (conn_client S cn answer) prefix)) e p l)) \<and>
      lk_conn (snd (perform (redis_cache (NewRedis (conn_client S cn answer) prefix)) e p l)) = None"
    by (cases p) (simp_all add: redis_cache_def NewRedis_def redis_unreachable [OF assms] commands_not_empty
        Redis_Get_def Redis_Set_def Redis_Take_def Redis_Exists_def Redis_Increment_def Redis_TTL_def Redis_Delete_def)
qed

section \<open>The fallback serves every call\<close>

text \<open>What the wrapper answers, given the answer of the fallback: a write reports the primary's error.\<close>

fun served :: "cop \<Rightarrow> answer \<Rightarrow> answer \<Rightarrow> bool" where
  "served (OSet _ _ _) a b = (\<exists>err. a = AError (Some err))"
| "served (ODelete _) a b = (\<exists>err. a = AError (Some err))"
| "served _ a b = (a = b)"

lemma outage_step:
  assumes "failed (fst (perform P e1 p s1))"
  shows "served p (fst (perform (fallback_cache (Some P) (Some F)) (e1, e2) p (s1, s2))) (fst (perform F e2 p s2)) \<and>
    snd (perform (fallback_cache (Some P) (Some F)) (e1, e2) p (s1, s2)) = (snd (perform P e1 p s1), snd (perform F e2 p s2))"
  using assms
  by (cases p) (auto simp: fallback_cache_def isl_Ex errors_Join_def split: prod.split)

lemma outage_run:
  assumes "D s1" "\<forall>(e1, e2, p) \<in> set ps. out_of_order P D e1"
    and "performs (fallback_cache (Some P) (Some F)) (map (\<lambda>(e1, e2, p). ((e1, e2), p)) ps) (s1, s2) = (as, t)"
    and "performs F (map snd ps) s2 = (bs, u)"
  shows "snd t = u \<and> list_all (\<lambda>(p, a, b). served p a b) (zip (map (\<lambda>(e1, e2, p). p) ps) (zip as bs)) \<and>
    length as = length ps \<and> length bs = length ps"
  using assms
proof (induction ps arbitrary: s1 s2 as bs)
  case (Cons x ps)
  obtain e1 e2 p where x: "x = (e1, e2, p)" by (cases x)
  let ?W = "fallback_cache (Some P) (Some F)"
  have "out_of_order P D e1" using Cons.prems(2) x by simp
  with Cons.prems(1) have 1: "failed (fst (perform P e1 p s1))" "D (snd (perform P e1 p s1))"
    by (auto simp: out_of_order_def)
  obtain a w where w: "perform ?W (e1, e2) p (s1, s2) = (a, w)" by (meson surj_pair)
  obtain b v where v: "perform F e2 p s2 = (b, v)" by fastforce
  from outage_step [OF 1(1), of F e2 s2] w v have ab: "served p a b" "w = (snd (perform P e1 p s1), v)" by auto
  obtain as' where as: "as = a # as'" "performs ?W (map (\<lambda>(e1, e2, p). ((e1, e2), p)) ps) w = (as', t)"
    using Cons.prems(3) x w by (auto split: prod.splits)
  obtain bs' where bs: "bs = b # bs'" "performs F (map snd ps) v = (bs', u)"
    using Cons.prems(4) x v by (auto split: prod.splits)
  from Cons.IH [OF 1(2) _ as(2) [unfolded ab(2)] bs(2)] Cons.prems(2) ab(1) as(1) bs(1) x show ?case by simp
qed auto

section \<open>Properties\<close>

text \<open>
  C7: While the primary is down, a fallback cache is its fallback: over any sequence of calls, the
  reads, takes and increments give exactly the answers the fallback gives when it is used alone,
  and leave it as they would; only writes and deletes report the primary's error, although the
  fallback took them.
\<close>

theorem outage_is_served_by_fallback:
  assumes "D s1" "\<forall>(e1, e2, p) \<in> set ps. out_of_order P D e1"
  shows "let (as, t) = performs (fallback_cache (Some P) (Some F)) (map (\<lambda>(e1, e2, p). ((e1, e2), p)) ps) (s1, s2);
             (bs, u) = performs F (map snd ps) s2
         in snd t = u \<and> length as = length ps \<and> length bs = length ps \<and>
            list_all (\<lambda>(p, a, b). served p a b) (zip (map (\<lambda>(e1, e2, p). p) ps) (zip as bs))"
  using outage_run [OF assms, of F s2] by (auto simp: Let_def split: prod.split)

definition unplugged :: "time \<Rightarrow> call_env" where
  "unplugged t = (calm_call t)\<lparr>ce_dial := Some (Sentinel ErrEOF)\<rparr>"

theorem outage_is_served_by_fallback_witness:
  "fst (performs (fallback_cache (Some (redis_cache (NewRedis (conn_client ok_server local_conn None) ''app''))) (Some memory_cache))
     [((unplugged 1, 1), OSet ''k'' ''v'' 5), ((unplugged 2, 2), OGet ''k'')] (\<lparr>lk_conn = None, lk_srv = ()\<rparr>, NewMemory)) ! 1
   = ABytes (Inr ''v'')"
proof -
  let ?R = "redis_cache (NewRedis (conn_client ok_server local_conn None) ''app'')"
  let ?ps = "[(unplugged 1, 1, OSet ''k'' ''v'' 5), (unplugged 2, 2, OGet ''k'')]"
  let ?l = "\<lparr>lk_conn = None, lk_srv = ()\<rparr>"
  obtain as t where w: "performs (fallback_cache (Some ?R) (Some memory_cache)) (map (\<lambda>(e1, e2, p). ((e1, e2), p)) ?ps) (?l, NewMemory) = (as, t)"
    by (meson surj_pair)
  obtain bs u where f: "performs memory_cache (map snd ?ps) NewMemory = (bs, u)" by fastforce
  have b: "bs ! 1 = ABytes (Inr ''v'')"
    using f by (auto simp: run_eqs split: prod.splits)
  have "\<forall>(e1, e2, p) \<in> set ?ps. out_of_order ?R (\<lambda>l. lk_conn l = None) e1"
    by (auto intro!: redis_down simp: unplugged_def)
  from outage_is_served_by_fallback [OF _ this, of ?l memory_cache NewMemory] w f
  have *: "length as = 2" "length bs = 2" "list_all (\<lambda>(p, a, b). served p a b) (zip [OSet ''k'' ''v'' 5, OGet ''k''] (zip as bs))"
    by auto
  obtain a0 a1 where as: "as = [a0, a1]" using *(1) by (auto simp: numeral_2_eq_2 length_Suc_conv)
  obtain b0 b1 where bs: "bs = [b0, b1]" using *(2) by (auto simp: numeral_2_eq_2 length_Suc_conv)
  from *(3) b have "as ! 1 = ABytes (Inr ''v'')" by (simp add: as bs)
  with w show ?thesis by simp
qed

end
