(* ===== verification/Spec2Isabelle.thy ===== *)
theory Spec2Isabelle
  imports Cache_Equivalence Cache_Redis Cache_RateLimit Cache_Memory_Concurrent Cache_Manager Cache_Prefix
    DI_Container Storage_Manager Storage_UpYun Token Response Convert Logger
    Config_Load Gormdb CLI Redis_Package Cache_Redis_Shared Cache_Outage
begin

text \<open>
  A verification library for \<open>kdays/chobits\<close>, a Go toolkit for services. The theories translate the
  Go packages function by function and keep their names; a Go record is a \<open>record\<close>, an interface a
  record of functions, an error return a sum or an option, a 64-bit integer a word, a byte string
  HOL's \<open>string\<close>, a nil pointer \<open>None\<close>. Code outside \<open>src/\<close> is an argument of the definitions that
  call it.

  \<^bold>\<open>The program.\<close> An application loads its settings (\<open>config\<close>: dotenv files, YAML, environment,
  defaults), opens what they name (\<open>cache\<close>, \<open>database\<close>, \<open>gormdb\<close>, \<open>storage\<close>, \<open>kdaysuc\<close>, \<open>token\<close>,
  \<open>logger\<close>), registers the parts in a container (\<open>di\<close>), and is started by its command line (\<open>cli\<close>),
  which runs the HTTP runtime (\<open>app\<close>) or a schema migration (\<open>migration\<close>). \<open>response\<close> and \<open>convert\<close>
  serve the handlers. The same interface \<open>cache.Cache\<close> hides memory, Redis and SQL stores; prefix and
  fallback stores wrap others; the rate limiter and the tokens are clients of it.

  \<^bold>\<open>Foundations.\<close>
  \<^item> \<open>Prelude\<close>: errors with \<open>errors.Is\<close> and \<open>errors.Join\<close>, int64 arithmetic, time; the collection
    \<open>run_eqs\<close> of equations that run examples.
  \<^item> \<open>Strings\<close>, \<open>Strconv\<close>, \<open>Unquote\<close>: what the code uses of Go's \<open>strings\<close> and \<open>strconv\<close>, on bytes, with
    the round trips of numbers and of quoted text.

  \<^bold>\<open>Cache\<close> (\<open>src/cache\<close>).
  \<^item> \<open>Cache_API\<close> (\<open>cache.go\<close>, \<open>errors.go\<close>, \<open>Key\<close>): the interface, and the contract of a store as the
    locales \<open>store_contract\<close> and \<open>cache_contract\<close>. It abstracts a state to a map from keys to values
    with their expiry, says what each operation does to it, and gives the clients' lemmas.
  \<^item> \<open>Cache_Memory\<close> (\<open>memory.go\<close>) and \<open>Cache_Database\<close> (\<open>database.go\<close>) interpret the contract. A
    driver call may fail at any point; the lemmas show that a failed write leaves no trace.
  \<^item> \<open>Cache_Memory_Concurrent\<close>: callers interleaved at the critical sections of the lock, as a step
    relation with its reachable states; invariants for takes and counters, and the reader that drops
    a fresh value.
  \<^item> \<open>Cache_Redis_Wire\<close>, \<open>Cache_Redis_Conn\<close>, \<open>Cache_Redis\<close> (\<open>redis.go\<close>): the bytes of the protocol, the
    connection, the store. \<open>tidy_server\<close> (a server that puts no error inside an array) gives that a
    connection in use is in step with the server; \<open>command_server\<close>, a sublocale of it, that a
    command is run once or not at all; \<open>redis_commands\<close> states the documented commands the store
    sends. A small key-value server interprets all of them through the bytes of the connection.
  \<^item> \<open>Cache_Redis_Shared\<close>: several processes on one server (locale \<open>redis_server\<close>), with any call
    failing anywhere: limits and single takes hold across processes.
  \<^item> \<open>Cache_Prefix\<close> (\<open>prefix.go\<close>): a contract gives the wrapper's contract (a sublocale); isolation.
    \<open>Cache_Fallback\<close> (\<open>fallback.go\<close>): the locale \<open>two_levels\<close> over two contracts. \<open>Cache_Outage\<close>: the
    fallback alone when the primary is down. \<open>Cache_RateLimit\<close> (\<open>rate_limit.go\<close>): exact counts.
  \<^item> \<open>Cache_Equivalence\<close>: two stores of the contract answer any client alike. \<open>Cache_Manager\<close>
    (\<open>cache.go\<close>): settings, opening, and closing what a failed opening opened.

  \<^bold>\<open>Settings.\<close> \<open>Config_DotEnv\<close> (\<open>dotenv.go\<close>), \<open>Config_Env\<close> (\<open>env.go\<close>, over the tree \<open>reflect\<close> shows),
  \<open>Config_Common\<close> and \<open>Config_Load\<close> (\<open>config.go\<close>): round trips of dotenv files, what the environment
  overrides, types kept, defaults, the order of the layers.

  \<^bold>\<open>Connections.\<close> \<open>Database\<close> (\<open>src/database\<close>) has the locale \<open>opener\<close> and the manager proved over
  it; \<open>Gormdb\<close> (\<open>src/gormdb\<close>) interprets it a second time. \<open>Migration\<close> (\<open>src/migration\<close>). Both builds,
  with and without the \<open>sqlite\<close> tag, are modelled.

  \<^bold>\<open>Storage\<close> (\<open>src/storage\<close>). \<open>Storage_Path\<close> (\<open>path.go\<close>), \<open>Storage_Local\<close> (\<open>local.go\<close> over a file tree;
  the locale \<open>object_store\<close> is interpreted by the local disk), \<open>Storage_Manager\<close> (\<open>storage.go\<close>,
  \<open>external.go\<close>, \<open>upyun_disabled.go\<close>), \<open>Storage_UpYun\<close> (\<open>upyun.go\<close>): confinement below the root, what is
  read back, what is refused.

  \<^bold>\<open>The application.\<close> \<open>DI_Container\<close> (\<open>di\<close>; the locale \<open>registry\<close> is interpreted for components by
  type and by name), \<open>App_Runtime\<close> (\<open>app\<close>), \<open>CLI\<close> (\<open>cli\<close>), \<open>Token\<close>, \<open>KDaysUC\<close>, \<open>Response\<close>, \<open>Convert\<close>, \<open>Logger\<close>,
  \<open>Redis_Package\<close> (\<open>redis\<close>, \<open>buildinfo\<close>). This theory joins the container and the runtime.

  \<^bold>\<open>Bounds.\<close> The reader of replies has the fuel "number of unread bytes + 1"; a nested array costs at
  least a byte, so it never runs out (\<open>reply_reader_ends\<close>). \<open>make\<close> panics above 2^48 bytes, the address
  space of the platform. The Redis server of the examples holds values of at most 512 MB, its
  documented limit. A dotenv line is limited to 65536 bytes, as \<open>bufio.Scanner\<close> does, and the body of a
  user-centre answer to 1 MB, as the code does. Counting theorems allow up to 2^62 calls, so
  that no counter reaches 2^63; below that bound the overflow is excluded, and the increments of the
  stores are modelled with it.

  \<^bold>\<open>Not modelled, and why.\<close>
  \<^item> Third-party and system code is a parameter: the YAML decoder and the parsing of floating-point
    numbers, cobra (its dispatch is the hypothesis \<open>dispatches\<close> of \<open>CLI\<close>), GORM, golang-migrate, the
    SQL drivers, the UpYun client, SHA-1 and SHA-256, the JSON codec, HTTP, the Redis server, the
    operating system. Hypotheses state only documented behaviour, and each is met by an instance.
  \<^item> Go leaves the order of a map iteration open: such a map is an association list, and the
    theorems hold for every order.
  \<^item> A nil \<open>context.Context\<close> becomes the background context; a cancelled one shows as the error of the
    call it stops. Mutexes make a method one step, except in \<open>Cache_Memory_Concurrent\<close>, where a read
    releases its lock. A Redis command that the server runs after its caller gave up is one more
    command of another process.
  \<^item> File modes, symbolic links, logging output, help texts, and pointer types that contain
    themselves.
\<close>

section \<open>From the container to the run\<close>

text \<open>The options an application passes on from its container.\<close>

definition options_of :: "int \<Rightarrow> Container option \<Rightarrow> options" where
  "options_of timeout ct =
     \<lparr>o_ShutdownTimeout = timeout, o_Backgrounds = map Some (Backgrounds ct), o_Closers = map Some (Closers ct)\<rparr>"

lemma RunHTTP_closes:
  "c \<in> set (present (o_Closers opts)) \<Longrightarrow> CallClose c \<in> set (snd (RunHTTP True race down opts))"
proof -
  assume c: "c \<in> set (present (o_Closers opts))"
  from start_split [of "present (o_Backgrounds opts)"] show ?thesis
  proof
    assume "list_all start_clean (present (o_Backgrounds opts))"
    from RunHTTP_ok_calls [OF this] c show ?thesis by simp
  next
    assume "\<exists>pre c post err. present (o_Backgrounds opts) = pre @ c # post \<and> list_all start_clean pre
        \<and> cp_start c = Some (Some err)"
    then obtain pre b post err where "present (o_Backgrounds opts) = pre @ b # post" "list_all start_clean pre"
      "cp_start b = Some (Some err)" by blast
    from RunHTTP_fail_calls [OF this] c show ?thesis by simp
  qed
qed



end
